(* ===== verification/Forkfs_Prelude.thy ===== *)
theory Forkfs_Prelude
  imports Main "HOL-Library.Word" "HOL-Library.Char_ord" "HOL-Library.List_Lexorder"
    "HOL-Library.Sublist"
begin

text \<open>
  Shared vocabulary of the development. A byte is a \<^typ>\<open>char\<close> (exactly eight bits), so a
  \<^verbatim>\<open>std::string\<close> and a \<^verbatim>\<open>std::vector<unsigned char>\<close> are both \<^typ>\<open>char list\<close>; the order of
  \<^verbatim>\<open>std::string\<close> is the lexicographic order on unsigned bytes. An exception is the left
  summand of a result, carrying the text of \<^verbatim>\<open>what()\<close>. Object identities
  (\<^verbatim>\<open>std::array<unsigned char,32>\<close>) are 256-bit words read big-endian, so that word order is
  the array's lexicographic order and the null identity \<^verbatim>\<open>Id{}\<close> is \<open>0\<close>.
\<close>

section \<open>Results and exceptions\<close>

type_synonym bytes = "char list"
type_synonym oid = "256 word"
type_synonym u32 = "32 word"
type_synonym u64 = "64 word"

datatype exn = Runtime_error string | System_error string | Rpc_error nat string

type_synonym 'a res = "exn + 'a"

fun what :: "exn \<Rightarrow> string" where
  "what (Runtime_error m) = m"
| "what (System_error m) = m"
| "what (Rpc_error _ m) = m"

text \<open>\<open>need\<close> is the guard every source file defines; \<open>bindR\<close> sequences a call that may throw.\<close>

abbreviation need :: "bool \<Rightarrow> string \<Rightarrow> 'a res \<Rightarrow> 'a res" where
  "need ok message k \<equiv> (if ok then k else Inl (Runtime_error message))"

abbreviation bindR :: "'a res \<Rightarrow> ('a \<Rightarrow> 'b res) \<Rightarrow> 'b res" where
  "bindR m f \<equiv> case_sum Inl f m"

definition is_ok :: "'a res \<Rightarrow> bool" where
  "is_ok r = (case r of Inl _ \<Rightarrow> False | Inr _ \<Rightarrow> True)"

lemma is_ok_simps [simp]: "is_ok (Inr x)" "\<not> is_ok (Inl e)"
  by (simp_all add: is_ok_def)

lemma is_ok_iff: "is_ok r \<longleftrightarrow> (\<exists>x. r = Inr x)"
  by (cases r) simp_all

lemma bindR_Inr_iff [simp]: "bindR m f = Inr y \<longleftrightarrow> (\<exists>x. m = Inr x \<and> f x = Inr y)"
  by (cases m) simp_all

lemma need_Inr_iff [simp]: "need c msg k = Inr y \<longleftrightarrow> c \<and> k = Inr y"
  by simp

text \<open>A loop body run over a list, stopping at the first exception.\<close>

primrec foldR :: "('a \<Rightarrow> 's \<Rightarrow> 's res) \<Rightarrow> 'a list \<Rightarrow> 's \<Rightarrow> 's res" where
  "foldR f [] s = Inr s"
| "foldR f (x # xs) s = bindR (f x s) (foldR f xs)"

primrec mapR :: "('a \<Rightarrow> 'b res) \<Rightarrow> 'a list \<Rightarrow> 'b list res" where
  "mapR f [] = Inr []"
| "mapR f (x # xs) = bindR (f x) (\<lambda>y. bindR (mapR f xs) (\<lambda>ys. Inr (y # ys)))"

lemma foldR_append: "foldR f (xs @ ys) s = bindR (foldR f xs s) (foldR f ys)"
  by (induction xs arbitrary: s) (auto split: sum.split)

lemma foldR_cong [fundef_cong]:
  "xs = ys \<Longrightarrow> s = t \<Longrightarrow> (\<And>x u. x \<in> set ys \<Longrightarrow> f x u = g x u) \<Longrightarrow> foldR f xs s = foldR g ys t"
  by (induction ys arbitrary: xs s t) (auto split: sum.split)

lemma foldR_invariant:
  assumes "foldR f xs s = Inr t" and "P s"
    and "\<And>x u v. x \<in> set xs \<Longrightarrow> P u \<Longrightarrow> f x u = Inr v \<Longrightarrow> P v"
  shows "P t"
  using assms by (induction xs arbitrary: s) auto

lemma mapR_Inr_iff: "mapR f xs = Inr ys \<longleftrightarrow> list_all2 (\<lambda>x y. f x = Inr y) xs ys"
  by (induction xs arbitrary: ys) (auto simp: list_all2_Cons1)

section \<open>Slices\<close>

definition slice :: "nat \<Rightarrow> nat \<Rightarrow> 'a list \<Rightarrow> 'a list" where
  "slice at n b = take n (drop at b)"

named_theorems slices \<open>reading a field out of a concatenation\<close>

lemma slice_length [simp]: "length (slice at n b) = min n (length b - at)"
  by (simp add: slice_def)

lemma slice_skip [slices]: "length a \<le> at \<Longrightarrow> slice at n (a @ b) = slice (at - length a) n b"
  by (simp add: slice_def)

lemma slice_left [slices]: "at + n \<le> length a \<Longrightarrow> slice at n (a @ b) = slice at n a"
  by (simp add: slice_def)

lemma slice_all [slices]: "at = 0 \<Longrightarrow> n = length a \<Longrightarrow> slice at n a = a"
  by (simp add: slice_def)

lemma slice_prefix [slices]: "n = length a \<Longrightarrow> slice 0 n (a @ b) = a"
  by (simp add: slice_def)

lemma slice_Cons [slices]: "0 < at \<Longrightarrow> slice at n (c # b) = slice (at - 1) n b"
  by (cases at) (simp_all add: slice_def)

lemma slice_0_Cons [slices]: "0 < n \<Longrightarrow> slice 0 n (c # b) = c # slice 0 (n - 1) b"
  by (cases n) (simp_all add: slice_def)

lemma slice_0 [simp]: "slice at 0 b = []"
  by (simp add: slice_def)

lemma take_slice_append: "at + n \<le> length b \<Longrightarrow> slice at n b @ drop (at + n) b = drop at b"
  unfolding slice_def by (metis append_take_drop_id drop_drop add.commute)

text \<open>\<^verbatim>\<open>vector::resize\<close> and \<^verbatim>\<open>ftruncate\<close>: cut, or extend with zeros.\<close>

definition resize :: "bytes \<Rightarrow> nat \<Rightarrow> bytes" where
  "resize b n = take n b @ replicate (n - length b) (CHR 0x00)"

section \<open>Little-endian integers\<close>

text \<open>\<open>load\<close> and \<open>store\<close> of \<^verbatim>\<open>journal.cpp\<close> and \<^verbatim>\<open>namespace.cpp\<close>, \<open>decode_le\<close> and \<open>encode_le\<close> of
  \<^verbatim>\<open>container.cpp\<close>: byte \<open>i\<close> of an \<open>n\<close>-byte field is \<open>v >> (8*i)\<close> cut to eight bits.\<close>

primrec le_store :: "nat \<Rightarrow> nat \<Rightarrow> bytes" where
  "le_store 0 v = []"
| "le_store (Suc n) v = char_of (v mod 256) # le_store n (v div 256)"

primrec le_load :: "bytes \<Rightarrow> nat" where
  "le_load [] = 0"
| "le_load (c # cs) = of_char c + 256 * le_load cs"

definition load_at :: "bytes \<Rightarrow> nat \<Rightarrow> nat \<Rightarrow> nat" where
  "load_at b at n = le_load (slice at n b)"

lemma length_le_store [simp]: "length (le_store n v) = n"
  by (induction n arbitrary: v) simp_all

lemma le_load_bound: "le_load b < 256 ^ length b"
proof (induction b)
  case (Cons c b)
  have "of_char c + 256 * le_load b < 256 * (le_load b + 1)" by simp
  also have "\<dots> \<le> 256 * 256 ^ length b" using Cons.IH by (intro mult_le_mono2) simp
  finally show ?case by simp
qed simp

lemma le_load_store: "le_load (le_store n v) = v mod 256 ^ n"
proof (induction n arbitrary: v)
  case (Suc n)
  have "v mod (256 * 256 ^ n) = 256 * (v div 256 mod 256 ^ n) + v mod 256"
    by (rule mod_mult2_eq)
  then show ?case by (simp add: Suc.IH)
qed simp

lemma le_load_store_small [simp]: "v < 256 ^ n \<Longrightarrow> le_load (le_store n v) = v"
  by (simp add: le_load_store)

lemma le_store_load [simp]: "le_store (length b) (le_load b) = b"
  by (induction b) simp_all

lemma le_store_load': "length b = n \<Longrightarrow> le_store n (le_load b) = b"
  by auto

lemma le_load_inject: "length a = length b \<Longrightarrow> le_load a = le_load b \<longleftrightarrow> a = b"
  by (metis le_store_load)

lemma le_store_inject: "v < 256 ^ n \<Longrightarrow> w < 256 ^ n \<Longrightarrow> le_store n v = le_store n w \<longleftrightarrow> v = w"
  by (metis le_load_store_small)

lemma le_load_replicate_0 [simp]: "le_load (replicate n (CHR 0x00)) = 0"
  by (induction n) simp_all

text \<open>Fields that hold a machine word.\<close>

abbreviation store32 :: "u32 \<Rightarrow> bytes" where "store32 w \<equiv> le_store 4 (unat w)"
abbreviation store64 :: "u64 \<Rightarrow> bytes" where "store64 w \<equiv> le_store 8 (unat w)"

lemma unat_u32_bound [simp]: "unat (w :: u32) < 4294967296"
  using unsigned_less [of w] by simp

lemma unat_u64_bound [simp]: "unat (w :: u64) < 18446744073709551616"
  using unsigned_less [of w] by simp

lemma load_store32 [simp]: "le_load (store32 w) = unat w"
  by (rule le_load_store_small) simp

lemma load_store64 [simp]: "le_load (store64 w) = unat w"
  by (rule le_load_store_small) simp

lemma of_nat_unat64 [simp]: "(of_nat (unat (w :: u64)) :: u64) = w"
  by simp

lemma unat_max_u64: "unat (- 1 :: u64) = 18446744073709551615"
  by (simp add: unsigned_minus_1_eq_mask mask_eq_exp_minus_1)

lemma u64_less_succ:
  assumes "(w :: u64) \<noteq> - 1"
  shows "w < w + 1"
proof -
  have "w < - 1" using assms word_order.not_eq_extremum by blast
  then have "unat w < 2 ^ 64 - 1" by (simp add: word_less_nat_alt unat_max_u64)
  then show ?thesis by (simp add: word_less_nat_alt unat_word_ariths)
qed

section \<open>Object identities\<close>

definition oid_bytes :: "oid \<Rightarrow> bytes" where
  "oid_bytes i = rev (le_store 32 (unat i))"

definition oid_of_bytes :: "bytes \<Rightarrow> oid" where
  "oid_of_bytes b = of_nat (le_load (rev b))"

lemma length_oid_bytes [simp]: "length (oid_bytes i) = 32"
  by (simp add: oid_bytes_def)

lemma oid_of_bytes_inverse [simp]: "oid_of_bytes (oid_bytes i) = i"
proof -
  have "unat i < 256 ^ 32" using unsigned_less [of i] by simp
  then show ?thesis by (simp add: oid_of_bytes_def oid_bytes_def)
qed

lemma oid_bytes_inverse: "length b = 32 \<Longrightarrow> oid_bytes (oid_of_bytes b) = b"
proof -
  assume len: "length b = 32"
  have "le_load (rev b) < 2 ^ 256" using le_load_bound [of "rev b"] len by simp
  then have "unat (of_nat (le_load (rev b)) :: oid) = le_load (rev b)"
    by (simp add: unat_of_nat take_bit_nat_eq_self_iff)
  then show ?thesis
    using le_store_load [of "rev b"] len by (simp add: oid_bytes_def oid_of_bytes_def)
qed

lemma oid_bytes_inject [simp]: "oid_bytes i = oid_bytes j \<longleftrightarrow> i = j"
  by (metis oid_of_bytes_inverse)

text \<open>Reading an identity out of a buffer (\<^verbatim>\<open>memcpy\<close> of 32 bytes).\<close>

definition oid_at :: "bytes \<Rightarrow> nat \<Rightarrow> oid" where
  "oid_at b at = oid_of_bytes (slice at 32 b)"

text \<open>Lower-case hexadecimal, as \<open>hex_id\<close>, \<open>hex\<close> and the inode identities are written.\<close>

definition hex_digit :: "nat \<Rightarrow> char" where
  "hex_digit n = ''0123456789abcdef'' ! n"

definition hex :: "bytes \<Rightarrow> string" where
  "hex b = concat (map (\<lambda>c. [hex_digit (of_char c div 16), hex_digit (of_char c mod 16)]) b)"

lemma hex_digit_inject: "m < 16 \<Longrightarrow> n < 16 \<Longrightarrow> hex_digit m = hex_digit n \<longleftrightarrow> m = n"
proof -
  assume "m < 16" and "n < 16"
  moreover have "distinct ''0123456789abcdef''" by simp
  ultimately show ?thesis
    unfolding hex_digit_def by (subst nth_eq_iff_index_eq) simp_all
qed

lemma length_hex [simp]: "length (hex b) = 2 * length b"
  by (induction b) (simp_all add: hex_def)

lemma hex_inject: "hex a = hex b \<longleftrightarrow> a = b"
proof (induction a arbitrary: b)
  case Nil
  show ?case by (cases b) (simp_all add: hex_def)
next
  case (Cons c a)
  show ?case
  proof (cases b)
    case Nil
    then show ?thesis by (simp add: hex_def)
  next
    case (Cons d b')
    have "of_char c div 16 < (16::nat)" "of_char d div 16 < (16::nat)"
      by (simp_all add: less_mult_imp_div_less)
    moreover have "c = d \<longleftrightarrow>
        of_char c div 16 = (of_char d div 16 :: nat) \<and> of_char c mod 16 = (of_char d mod 16 :: nat)"
      by (metis div_mult_mod_eq of_char_eq_iff)
    ultimately show ?thesis
      using Cons.IH [of b'] Cons by (auto simp: hex_def hex_digit_inject)
  qed
qed

section \<open>Strings\<close>

text \<open>\<^verbatim>\<open>starts_with\<close> is \<^const>\<open>prefix\<close>. The strings with prefix \<open>p\<close> form an interval of the
  lexicographic order, which the directory scans use.\<close>

lemma prefix_le: "prefix p (s :: 'a :: linorder list) \<Longrightarrow> p \<le> s"
  by (induction p arbitrary: s) (auto simp: prefix_def)

lemma append_less_cancel [simp]: "(p @ (s :: 'a :: linorder list)) < p @ t \<longleftrightarrow> s < t"
  by (induction p) simp_all

lemma append_le_cancel [simp]: "(p @ (s :: 'a :: linorder list)) \<le> p @ t \<longleftrightarrow> s \<le> t"
  by (induction p) simp_all

lemma prefix_interval:
  "p \<le> (s :: 'a :: linorder list) \<Longrightarrow> s \<le> p @ t \<Longrightarrow> prefix p s"
proof (induction p arbitrary: s)
  case (Cons x p)
  from Cons.prems obtain y s' where s: "s = y # s'" by (cases s) auto
  with Cons.prems have "x = y" by auto
  with Cons s show ?case by auto
qed simp

end
