(* ===== verification/State_Exn.thy ===== *)
theory State_Exn
  imports Forkfs_Prelude
begin

text \<open>
  Member functions that read and write an object and may throw: a function from the object to
  the result and the object afterwards, which an exception leaves as it was at the throw.
\<close>

type_synonym ('s, 'a) op = "'s \<Rightarrow> 'a res \<times> 's"

definition returnS :: "'a \<Rightarrow> ('s, 'a) op" where
  "returnS x s = (Inr x, s)"

definition throwS :: "exn \<Rightarrow> ('s, 'a) op" where
  "throwS e s = (Inl e, s)"

definition bindS :: "('s, 'a) op \<Rightarrow> ('a \<Rightarrow> ('s, 'b) op) \<Rightarrow> ('s, 'b) op" where
  "bindS m f s = (case m s of (Inl e, t) \<Rightarrow> (Inl e, t) | (Inr x, t) \<Rightarrow> f x t)"

abbreviation needS :: "bool \<Rightarrow> string \<Rightarrow> ('s, 'a) op \<Rightarrow> ('s, 'a) op" where
  "needS ok message k \<equiv> (if ok then k else throwS (Runtime_error message))"

definition liftS :: "'a res \<Rightarrow> ('s, 'a) op" where
  "liftS r s = (r, s)"

definition getS :: "('s, 's) op" where
  "getS s = (Inr s, s)"

definition modifyS :: "('s \<Rightarrow> 's) \<Rightarrow> ('s, unit) op" where
  "modifyS f s = (Inr (), f s)"

primrec foldS :: "('a \<Rightarrow> 'b \<Rightarrow> ('s, 'b) op) \<Rightarrow> 'a list \<Rightarrow> 'b \<Rightarrow> ('s, 'b) op" where
  "foldS f [] acc = returnS acc"
| "foldS f (x # xs) acc = bindS (f x acc) (foldS f xs)"

lemma bindS_cong [fundef_cong]:
  "m s = m' s' \<Longrightarrow> s = s' \<Longrightarrow> (\<And>x t. m' s' = (Inr x, t) \<Longrightarrow> f x t = f' x t) \<Longrightarrow>
    bindS m f s = bindS m' f' s'"
  by (auto simp: bindS_def split: prod.split sum.split)

lemma returnS_apply [simp]: "returnS x s = (Inr x, s)"
  by (simp add: returnS_def)

lemma throwS_apply [simp]: "throwS e s = (Inl e, s)"
  by (simp add: throwS_def)

lemma liftS_apply [simp]: "liftS r s = (r, s)"
  by (simp add: liftS_def)

lemma getS_apply [simp]: "getS s = (Inr s, s)"
  by (simp add: getS_def)

lemma modifyS_apply [simp]: "modifyS f s = (Inr (), f s)"
  by (simp add: modifyS_def)

named_theorems monad_laws \<open>equations between sequenced operations\<close>

lemma bindS_assoc [monad_laws]: "bindS (bindS m f) g = bindS m (\<lambda>x. bindS (f x) g)"
  by (auto simp: bindS_def fun_eq_iff split: prod.split sum.split)

lemma bindS_return [monad_laws]: "bindS (returnS x) f = f x" "bindS m returnS = m"
  by (auto simp: bindS_def fun_eq_iff split: prod.split sum.split)

lemma bindS_throw [monad_laws]: "bindS (throwS e) f = throwS e"
  by (simp add: bindS_def fun_eq_iff)

lemma bindS_if [monad_laws]: "bindS (if c then m else n) f = (if c then bindS m f else bindS n f)"
  by simp

lemma bindS_get [monad_laws]: "bindS getS f s = f s s"
  by (simp add: bindS_def)

section \<open>Inversion and loop rules\<close>

lemma bindS_ok_iff:
  "bindS m f s = (Inr y, t) \<longleftrightarrow> (\<exists>x u. m s = (Inr x, u) \<and> f x u = (Inr y, t))"
  by (auto simp: bindS_def split: prod.splits sum.splits)

lemma bindS_exn_iff:
  "bindS m f s = (Inl e, t) \<longleftrightarrow>
    m s = (Inl e, t) \<or> (\<exists>x u. m s = (Inr x, u) \<and> f x u = (Inl e, t))"
  by (auto simp: bindS_def split: prod.splits sum.splits)

lemma bindS_fst_exn: "fst (m s) = Inl e \<Longrightarrow> fst (bindS m f s) = Inl e"
  by (auto simp: bindS_def split: prod.split sum.split)

lemma bindS_ok: "m s = (Inr x, t) \<Longrightarrow> bindS m f s = f x t"
  by (simp add: bindS_def)

lemma needS_ok_iff:
  "(if c then k else throwS e) s = (Inr y, t) \<longleftrightarrow> c \<and> k s = (Inr y, t)"
  by simp

text \<open>Elimination rules that take apart an operation known to return.\<close>

named_theorems okE \<open>elimination rules for operations that return\<close>

lemma bindS_okE [okE]:
  "bindS m f s = (Inr y, t) \<Longrightarrow> (\<And>x u. m s = (Inr x, u) \<Longrightarrow> f x u = (Inr y, t) \<Longrightarrow> P) \<Longrightarrow> P"
  by (auto simp: bindS_ok_iff)

lemma needS_okE [okE]:
  "(if c then k else throwS e) s = (Inr y, t) \<Longrightarrow> (c \<Longrightarrow> k s = (Inr y, t) \<Longrightarrow> P) \<Longrightarrow> P"
  by (auto split: if_splits)

lemma prodS_okE [okE]:
  "case_prod f p s = (Inr y, t) \<Longrightarrow> (\<And>a b. p = (a, b) \<Longrightarrow> f a b s = (Inr y, t) \<Longrightarrow> P) \<Longrightarrow> P"
  by (cases p) auto

lemma optionS_okE [okE]:
  "case_option m f v s = (Inr y, t) \<Longrightarrow> (v = None \<Longrightarrow> m s = (Inr y, t) \<Longrightarrow> P) \<Longrightarrow>
     (\<And>x. v = Some x \<Longrightarrow> f x s = (Inr y, t) \<Longrightarrow> P) \<Longrightarrow> P"
  by (cases v) auto

lemma getS_okE [okE]: "getS s = (Inr x, t) \<Longrightarrow> (x = s \<Longrightarrow> t = s \<Longrightarrow> P) \<Longrightarrow> P"
  by auto

lemma returnS_okE [okE]: "returnS a s = (Inr x, t) \<Longrightarrow> (x = a \<Longrightarrow> t = s \<Longrightarrow> P) \<Longrightarrow> P"
  by auto

lemma throwS_okE [okE]: "throwS e s = (Inr x, t) \<Longrightarrow> P"
  by auto

lemma liftS_okE [okE]: "liftS r s = (Inr x, t) \<Longrightarrow> (r = Inr x \<Longrightarrow> t = s \<Longrightarrow> P) \<Longrightarrow> P"
  by auto

lemma modifyS_okE [okE]: "modifyS g s = (Inr u, t) \<Longrightarrow> (t = g s \<Longrightarrow> P) \<Longrightarrow> P"
  by auto

lemma foldS_invariant:
  assumes "foldS f xs acc s = (Inr acc', t)" and "P acc s"
    and "\<And>x a u b v. x \<in> set xs \<Longrightarrow> P a u \<Longrightarrow> f x a u = (Inr b, v) \<Longrightarrow> P b v"
  shows "P acc' t"
  using assms
proof (induction xs arbitrary: acc s)
  case (Cons x xs)
  then obtain b u where "f x acc s = (Inr b, u)" and rest: "foldS f xs b u = (Inr acc', t)"
    by (auto simp: bindS_ok_iff)
  with Cons.prems have "P b u" by (metis list.set_intros(1))
  with Cons.prems(3) show ?case by - (erule Cons.IH [OF rest], meson list.set_intros(2))
qed simp

lemma foldS_exn_invariant:
  assumes "foldS f xs acc s = (Inl e, t)" and "P acc s"
    and "\<And>x a u b v. x \<in> set xs \<Longrightarrow> P a u \<Longrightarrow> f x a u = (Inr b, v) \<Longrightarrow> P b v"
    and "\<And>x a u e' v. x \<in> set xs \<Longrightarrow> P a u \<Longrightarrow> f x a u = (Inl e', v) \<Longrightarrow> X v"
  shows "X t"
  using assms
proof (induction xs arbitrary: acc s)
  case (Cons x xs)
  from Cons.prems(1) consider "f x acc s = (Inl e, t)"
    | b u where "f x acc s = (Inr b, u)" "foldS f xs b u = (Inl e, t)"
    by (auto simp: bindS_exn_iff)
  then show ?case
  proof cases
    case 1
    then show ?thesis using Cons.prems(2,4) by (metis list.set_intros(1))
  next
    case (2 b u)
    with Cons.prems have "P b u" by (metis list.set_intros(1))
    with Cons.prems(3,4) show ?thesis
      by - (erule Cons.IH [OF 2(2)], (meson list.set_intros(2))+)
  qed
qed simp

text \<open>An invariant that mentions the elements already processed.\<close>

lemma foldS_prefix:
  assumes "foldS f xs acc s = (Inr acc', t)" and "P ys acc s"
    and "\<And>x zs a u b v. x \<in> set xs \<Longrightarrow> P zs a u \<Longrightarrow> f x a u = (Inr b, v) \<Longrightarrow> P (zs @ [x]) b v"
  shows "P (ys @ xs) acc' t"
  using assms
proof (induction xs arbitrary: acc s ys)
  case (Cons x xs)
  then obtain b u where "f x acc s = (Inr b, u)" and rest: "foldS f xs b u = (Inr acc', t)"
    by (auto simp: bindS_ok_iff)
  with Cons.prems have "P (ys @ [x]) b u" by (metis list.set_intros(1))
  with Cons.prems(3) have "P ((ys @ [x]) @ xs) acc' t"
    by - (erule Cons.IH [OF rest], meson list.set_intros(2))
  then show ?case by simp
qed simp

section \<open>Operations that keep a predicate of the object\<close>

definition keeps :: "('s \<Rightarrow> bool) \<Rightarrow> ('s, 'a) op \<Rightarrow> bool" where
  "keeps P m \<longleftrightarrow> (\<forall>s. P s \<longrightarrow> P (snd (m s)))"

named_theorems keeping \<open>operations that keep a predicate, whether they return or throw\<close>

lemma keepsI: "(\<And>s r t. P s \<Longrightarrow> m s = (r, t) \<Longrightarrow> P t) \<Longrightarrow> keeps P m"
  unfolding keeps_def by (metis prod.collapse)

lemma keepsD: "keeps P m \<Longrightarrow> P s \<Longrightarrow> m s = (r, t) \<Longrightarrow> P t"
  unfolding keeps_def by (metis snd_conv)

lemma keeps_return [keeping]: "keeps P (returnS x)"
  by (simp add: keeps_def)

lemma keeps_throw [keeping]: "keeps P (throwS e)"
  by (simp add: keeps_def)

lemma keeps_lift [keeping]: "keeps P (liftS r)"
  by (simp add: keeps_def)

lemma keeps_get [keeping]: "keeps P getS"
  by (simp add: keeps_def)

lemma keeps_bind [keeping]: "keeps P m \<Longrightarrow> (\<And>x. keeps P (f x)) \<Longrightarrow> keeps P (bindS m f)"
  by (auto simp: keeps_def bindS_def split: prod.split sum.split)

lemma keeps_if [keeping]: "(c \<Longrightarrow> keeps P m) \<Longrightarrow> (\<not> c \<Longrightarrow> keeps P n) \<Longrightarrow> keeps P (if c then m else n)"
  by simp

lemma keeps_option [keeping]:
  "keeps P m \<Longrightarrow> (\<And>x. keeps P (f x)) \<Longrightarrow> keeps P (case_option m f v)"
  by (cases v) simp_all

lemma keeps_prod [keeping]: "(\<And>x y. keeps P (f x y)) \<Longrightarrow> keeps P (case_prod f v)"
  by (cases v) simp

lemma keeps_fold [keeping]: "(\<And>x a. keeps P (f x a)) \<Longrightarrow> keeps P (foldS f xs a)"
  by (induction xs arbitrary: a) (auto intro: keeping)

text \<open>Where an operation may be when it throws.\<close>

definition throws_in :: "('s \<Rightarrow> bool) \<Rightarrow> ('s \<Rightarrow> bool) \<Rightarrow> ('s, 'a) op \<Rightarrow> bool" where
  "throws_in P Q m \<longleftrightarrow> (\<forall>s e t. P s \<longrightarrow> m s = (Inl e, t) \<longrightarrow> Q t)"

named_theorems throwing \<open>the states in which an operation throws\<close>

lemma throws_inD: "throws_in P Q m \<Longrightarrow> P s \<Longrightarrow> m s = (Inl e, t) \<Longrightarrow> Q t"
  by (simp add: throws_in_def)

lemma throws_in_keeps: "keeps P m \<Longrightarrow> (\<And>s. P s \<Longrightarrow> Q s) \<Longrightarrow> throws_in P Q m"
  unfolding throws_in_def using keepsD by metis

lemma throws_in_throw [throwing]: "(\<And>s. P s \<Longrightarrow> Q s) \<Longrightarrow> throws_in P Q (throwS e)"
  by (rule throws_in_keeps [OF keeps_throw])

lemma throws_in_bind:
  "keeps P m \<Longrightarrow> (\<And>s. P s \<Longrightarrow> Q s) \<Longrightarrow> (\<And>x. throws_in P Q (f x)) \<Longrightarrow> throws_in P Q (bindS m f)"
  unfolding throws_in_def bindS_exn_iff using keepsD by metis

lemma throws_in_if [throwing]:
  "(c \<Longrightarrow> throws_in P Q m) \<Longrightarrow> (\<not> c \<Longrightarrow> throws_in P Q n) \<Longrightarrow> throws_in P Q (if c then m else n)"
  by simp

lemma throws_in_option [throwing]:
  "throws_in P Q m \<Longrightarrow> (\<And>x. throws_in P Q (f x)) \<Longrightarrow> throws_in P Q (case_option m f v)"
  by (cases v) simp_all

lemma throws_in_prod [throwing]: "(\<And>x y. throws_in P Q (f x y)) \<Longrightarrow> throws_in P Q (case_prod f v)"
  by (cases v) simp

end
