(* ===== verification/Std_Map.thy ===== *)
theory Std_Map
  imports Forkfs_Prelude
begin

text \<open>
  \<^verbatim>\<open>std::map\<close> and \<^verbatim>\<open>std::set\<close> as association lists and lists kept strictly sorted by key, so that
  iteration order is the source's. \<open>map_of\<close> is \<^verbatim>\<open>find\<close>; \<open>put\<close> is \<^verbatim>\<open>operator[]=\<close>, \<open>emplace\<close> keeps an
  existing entry, \<open>erase\<close> removes one. The locale \<open>ordered_map\<close> states the interface the
  components use; it is interpreted on these lists here and on the treap of the metadata
  tree in \<^verbatim>\<open>Treap\<close>.
\<close>

section \<open>Operations\<close>

type_synonym ('k, 'v) smap = "('k \<times> 'v) list"

definition smap_ok :: "('k :: linorder, 'v) smap \<Rightarrow> bool" where
  "smap_ok m = sorted_wrt (<) (map fst m)"

primrec put :: "'k :: linorder \<Rightarrow> 'v \<Rightarrow> ('k, 'v) smap \<Rightarrow> ('k, 'v) smap" where
  "put k v [] = [(k, v)]"
| "put k v (x # m) =
     (if k < fst x then (k, v) # x # m
      else if k = fst x then (k, v) # m
      else x # put k v m)"

primrec erase :: "'k :: linorder \<Rightarrow> ('k, 'v) smap \<Rightarrow> ('k, 'v) smap" where
  "erase k [] = []"
| "erase k (x # m) = (if k = fst x then m else x # erase k m)"

definition emplace :: "'k :: linorder \<Rightarrow> 'v \<Rightarrow> ('k, 'v) smap \<Rightarrow> ('k, 'v) smap" where
  "emplace k v m = (case map_of m k of None \<Rightarrow> put k v m | Some _ \<Rightarrow> m)"

text \<open>A change set maps a key to its new value, or to \<open>None\<close> for a deletion.\<close>

definition put_or_erase :: "'k :: linorder \<Rightarrow> 'v option \<Rightarrow> ('k, 'v) smap \<Rightarrow> ('k, 'v) smap" where
  "put_or_erase k v m = (case v of Some x \<Rightarrow> put k x m | None \<Rightarrow> erase k m)"

definition apply_changes :: "('k :: linorder, 'v option) smap \<Rightarrow> ('k, 'v) smap \<Rightarrow> ('k, 'v) smap" where
  "apply_changes c m = fold (\<lambda>(k, v). put_or_erase k v) c m"

definition override :: "('k \<rightharpoonup> 'v) \<Rightarrow> ('k, 'v option) smap \<Rightarrow> ('k \<rightharpoonup> 'v)" where
  "override f c = (\<lambda>k. case map_of c k of None \<Rightarrow> f k | Some v \<Rightarrow> v)"

section \<open>Laws\<close>

lemma smap_ok_Nil [simp, intro]: "smap_ok []"
  by (simp add: smap_ok_def)

lemma smap_ok_Cons [simp]: "smap_ok (x # m) \<longleftrightarrow> (\<forall>y \<in> set m. fst x < fst y) \<and> smap_ok m"
  by (auto simp: smap_ok_def)

lemma smap_ok_append: "smap_ok (a @ b) \<longleftrightarrow>
    smap_ok a \<and> smap_ok b \<and> (\<forall>x \<in> set a. \<forall>y \<in> set b. fst x < fst y)"
  by (auto simp: smap_ok_def sorted_wrt_append)

lemma smap_ok_distinct: "smap_ok m \<Longrightarrow> distinct (map fst m)"
  unfolding smap_ok_def using strict_sorted_iff by blast

lemma smap_ok_filter: "smap_ok m \<Longrightarrow> smap_ok (filter P m)"
  by (induction m) auto

lemma fst_in_put [simp]: "set (map fst (put k v m)) = insert k (set (map fst m))"
  by (induction m) auto

lemma in_put: "x \<in> set (put k v m) \<Longrightarrow> x = (k, v) \<or> x \<in> set m"
  by (induction m) (auto split: if_splits)

lemma smap_ok_put [simp, intro]: "smap_ok m \<Longrightarrow> smap_ok (put k v m)"
  by (induction m) (auto dest!: in_put)

lemma map_of_put [simp]: "map_of (put k v m) = (map_of m)(k \<mapsto> v)"
  by (induction m) auto

lemma in_erase: "x \<in> set (erase k m) \<Longrightarrow> x \<in> set m"
  by (induction m) (auto split: if_splits)

lemma smap_ok_erase [simp, intro]: "smap_ok m \<Longrightarrow> smap_ok (erase k m)"
  by (induction m) (auto dest: in_erase)

lemma map_of_below: "smap_ok (x # m) \<Longrightarrow> k \<le> fst x \<Longrightarrow> map_of m k = None"
  by (fastforce simp: map_of_eq_None_iff)

lemma map_of_erase [simp]: "smap_ok m \<Longrightarrow> map_of (erase k m) = (map_of m)(k := None)"
  by (induction m) (auto simp: fun_eq_iff map_of_eq_None_iff)

lemma smap_ok_emplace [simp, intro]: "smap_ok m \<Longrightarrow> smap_ok (emplace k v m)"
  by (simp add: emplace_def split: option.split)

lemma map_of_emplace:
  "map_of (emplace k v m) = (case map_of m k of None \<Rightarrow> (map_of m)(k \<mapsto> v) | Some _ \<Rightarrow> map_of m)"
  by (simp add: emplace_def split: option.split)

lemma smap_ok_put_or_erase [simp, intro]: "smap_ok m \<Longrightarrow> smap_ok (put_or_erase k v m)"
  by (simp add: put_or_erase_def split: option.split)

lemma map_of_put_or_erase [simp]:
  "smap_ok m \<Longrightarrow> map_of (put_or_erase k v m) = (map_of m)(k := v)"
  by (auto simp: put_or_erase_def split: option.split)

lemma apply_changes_Nil [simp]: "apply_changes [] m = m"
  by (simp add: apply_changes_def)

lemma apply_changes_Cons [simp]:
  "apply_changes ((k, v) # c) m = apply_changes c (put_or_erase k v m)"
  by (simp add: apply_changes_def)

lemma smap_ok_apply_changes [simp, intro]: "smap_ok m \<Longrightarrow> smap_ok (apply_changes c m)"
  by (induction c arbitrary: m) auto

lemma override_Nil [simp]: "override f [] = f"
  by (simp add: override_def)

lemma override_Cons:
  "smap_ok ((k, v) # c) \<Longrightarrow> override f ((k, v) # c) = override (f(k := v)) c"
  using map_of_below [of "(k, v)" c k] by (auto simp: override_def fun_eq_iff split: option.split)

lemma map_of_apply_changes:
  "smap_ok c \<Longrightarrow> smap_ok m \<Longrightarrow> map_of (apply_changes c m) = override (map_of m) c"
  by (induction c arbitrary: m) (auto simp: override_Cons simp del: fun_upd_apply)

text \<open>Two sorted association lists with the same contents are the same list.\<close>

lemma smap_ok_set: "smap_ok m \<Longrightarrow> set m = {(k, v). map_of m k = Some v}"
  by (auto dest: smap_ok_distinct map_of_SomeD)

lemma smap_ok_unique:
  assumes ok: "smap_ok m" "smap_ok n" and eq: "map_of m = map_of n"
  shows "m = n"
proof (rule map_sorted_distinct_set_unique [where f = fst])
  show "set m = set n" using assms by (simp add: smap_ok_set)
  then show "inj_on fst (set m \<union> set n)"
    using smap_ok_distinct [OF ok(1)] by (simp add: distinct_map)
qed (use ok in \<open>auto simp: smap_ok_def strict_sorted_iff\<close>)

text \<open>Scanning from \<open>p\<close> while keys have prefix \<open>p\<close> finds every key with that prefix.\<close>

lemma takeWhile_prefix:
  assumes "smap_ok m" and "\<forall>kv \<in> set m. p \<le> fst kv"
  shows "takeWhile (\<lambda>kv. prefix p (fst kv)) m = filter (\<lambda>kv. prefix p (fst kv)) m"
  using assms
proof (induction m)
  case (Cons x m)
  have "\<not> prefix p (fst y)" if "\<not> prefix p (fst x)" "y \<in> set m" for y
  proof
    assume "prefix p (fst y)"
    then obtain t where "fst y = p @ t" by (auto simp: prefix_def)
    moreover have "fst x < fst y" "p \<le> fst x" using Cons.prems that(2) by auto
    ultimately have "prefix p (fst x)" by (metis less_imp_le prefix_interval)
    with that(1) show False by blast
  qed
  with Cons show ?case by (auto simp: filter_empty_conv)
qed simp

section \<open>The interface of an ordered map\<close>

locale ordered_map =
  fixes contents :: "'m \<Rightarrow> ('k :: linorder, 'v) smap"
    and insert_or_assign :: "'k \<Rightarrow> 'v \<Rightarrow> 'm \<Rightarrow> 'm"
    and remove :: "'k \<Rightarrow> 'm \<Rightarrow> 'm"
    and lookup :: "'m \<Rightarrow> 'k \<Rightarrow> 'v option"
    and invar :: "'m \<Rightarrow> bool"
  assumes contents_ok: "invar m \<Longrightarrow> smap_ok (contents m)"
    and contents_insert: "invar m \<Longrightarrow> contents (insert_or_assign k v m) = put k v (contents m)"
    and contents_remove: "invar m \<Longrightarrow> contents (remove k m) = erase k (contents m)"
    and lookup_contents: "invar m \<Longrightarrow> lookup m k = map_of (contents m) k"
    and invar_insert: "invar m \<Longrightarrow> invar (insert_or_assign k v m)"
    and invar_remove: "invar m \<Longrightarrow> invar (remove k m)"
begin

definition set_or_remove :: "'k \<Rightarrow> 'v option \<Rightarrow> 'm \<Rightarrow> 'm" where
  "set_or_remove k v m = (case v of Some x \<Rightarrow> insert_or_assign k x m | None \<Rightarrow> remove k m)"

lemma contents_set_or_remove:
  "invar m \<Longrightarrow> contents (set_or_remove k v m) = put_or_erase k v (contents m)"
  by (auto simp: set_or_remove_def put_or_erase_def contents_insert contents_remove split: option.split)

lemma invar_set_or_remove: "invar m \<Longrightarrow> invar (set_or_remove k v m)"
  by (auto simp: set_or_remove_def invar_insert invar_remove split: option.split)

text \<open>A batch of changes folded into the map is the batch applied to its contents.\<close>

lemma batch:
  "invar m \<Longrightarrow> invar (fold (\<lambda>(k, v). set_or_remove k v) c m) \<and>
    contents (fold (\<lambda>(k, v). set_or_remove k v) c m) = apply_changes c (contents m)"
  by (induction c arbitrary: m)
     (auto simp: invar_set_or_remove contents_set_or_remove)

lemma lookup_batch:
  assumes "invar m" and "smap_ok c"
  shows "lookup (fold (\<lambda>(k, v). set_or_remove k v) c m) = override (lookup m) c"
proof -
  have "lookup m' = map_of (contents m')" if "invar m'" for m'
    using that by (simp add: fun_eq_iff lookup_contents)
  then show ?thesis
    using assms batch [OF assms(1), of c] by (simp add: map_of_apply_changes contents_ok)
qed

end

interpretation std: ordered_map "\<lambda>m. m" put erase map_of smap_ok
  by unfold_locales auto

end
