(* ===== verification/Checksum.thy ===== *)
theory Checksum
  imports Forkfs_Prelude
begin

text \<open>
  The CRC-32C of \<^verbatim>\<open>journal.cpp\<close> and \<^verbatim>\<open>container.cpp\<close> and the hash framing of \<^verbatim>\<open>journal.cpp\<close>.
  SHA-256 comes from the platform's crypto library: it is the parameter \<open>sha\<close> of every
  definition that hashes.
\<close>

unbundle bit_operations_syntax

section \<open>CRC-32C, bit by bit\<close>

definition crc_bit :: "u32 \<Rightarrow> u32" where
  "crc_bit c = drop_bit 1 c XOR (if c AND 1 \<noteq> 0 then 0x82f63b78 else 0)"

definition crc_byte :: "u32 \<Rightarrow> char \<Rightarrow> u32" where
  "crc_byte c p = (crc_bit ^^ 8) (c XOR of_char p)"

definition crc :: "bytes \<Rightarrow> u32" where
  "crc b = foldl crc_byte 0xffffffff b XOR 0xffffffff"

section \<open>Hash framing\<close>

text \<open>\<open>digest\<close> is the parameter itself; \<open>tagged\<close> and \<open>object_hash\<close> prefix their domain.\<close>

definition tagged :: "(bytes \<Rightarrow> oid) \<Rightarrow> string \<Rightarrow> bytes \<Rightarrow> oid" where
  "tagged sha tag b = sha (tag @ b)"

definition object_frame :: "bytes \<Rightarrow> bytes" where
  "object_frame v =
     ''forkfs.object.v0'' @ le_store 2 4 @ le_store 2 0 @ le_store 8 (length v) @ v"

definition object_hash :: "(bytes \<Rightarrow> oid) \<Rightarrow> bytes \<Rightarrow> oid" where
  "object_hash sha v = sha (object_frame v)"

section \<open>The checksum separates single-byte corruptions\<close>

lemma crc_bit_odd: "crc_bit c = drop_bit 1 c XOR (if odd c then 0x82f63b78 else 0)"
  by (simp add: crc_bit_def and_one_eq odd_iff_mod_2_eq_one)

text \<open>The polynomial has its top bit set, so the top bit of the result is the bit shifted out.\<close>

lemma crc_bit_top: "bit (crc_bit c) 31 \<longleftrightarrow> odd c"
proof -
  have "\<not> bit (drop_bit 1 c) 31"
    using bit_imp_le_length [of c 32] by (auto simp: bit_drop_bit_eq)
  moreover have "bit (0x82f63b78 :: u32) 31" by simp
  ultimately show ?thesis by (simp add: crc_bit_odd bit_xor_iff)
qed

lemma xor_cancel_right: "(a :: u32) XOR c = b XOR c \<longleftrightarrow> a = b"
proof
  assume "a XOR c = b XOR c"
  then have "(a XOR c) XOR c = (b XOR c) XOR c" by simp
  then show "a = b" by (simp add: xor.assoc)
qed simp

lemma xor_cancel_left: "(c :: u32) XOR a = c XOR b \<longleftrightarrow> a = b"
  by (simp add: xor_cancel_right xor.commute [of c])

lemma inj_crc_bit: "inj crc_bit"
proof (rule injI)
  fix c d assume eq: "crc_bit c = crc_bit d"
  then have odd: "odd c \<longleftrightarrow> odd d" by (simp flip: crc_bit_top)
  with eq have "drop_bit 1 c = drop_bit 1 d"
    by (simp add: crc_bit_odd xor_cancel_right)
  then have half: "c div 2 = d div 2" by (simp add: drop_bit_eq_div)
  have "c mod 2 = d mod 2" using odd by (simp add: mod_2_eq_odd)
  then have "c div 2 * 2 + c mod 2 = d div 2 * 2 + d mod 2" by (simp only: half)
  then show "c = d" by (simp only: div_mult_mod_eq)
qed

lemma inj_crc_bit_iter: "inj (crc_bit ^^ n)"
  by (rule inj_fn [OF inj_crc_bit])

lemma of_char_u32_inject: "(of_char a :: u32) = of_char b \<longleftrightarrow> a = b"
proof -
  have "unat (of_char c :: u32) = of_char c" for c
  proof -
    have "(of_char c :: u32) = of_nat (of_char c)" by (rule of_nat_of_char [symmetric])
    moreover have "of_char c < (2 :: nat) ^ 32" by (rule less_trans [OF nat_of_char_less_256]) simp
    ultimately show ?thesis by (simp add: unat_of_nat take_bit_nat_eq_self_iff)
  qed
  then show ?thesis by (metis of_char_eq_iff)
qed

lemma crc_byte_inject: "crc_byte c a = crc_byte d a \<longleftrightarrow> c = d"
  by (simp add: crc_byte_def inj_eq [OF inj_crc_bit_iter] xor_cancel_right)

lemma crc_byte_inject_byte: "crc_byte c a = crc_byte c b \<longleftrightarrow> a = b"
  by (simp add: crc_byte_def inj_eq [OF inj_crc_bit_iter] xor_cancel_left of_char_u32_inject)

lemma foldl_crc_inject: "foldl crc_byte c ys = foldl crc_byte d ys \<longleftrightarrow> c = d"
  by (induction ys arbitrary: c d) (simp_all add: crc_byte_inject)

text \<open>C25. The checksum of the journal, segment and anchor headers notices every corruption of a
  single byte: two buffers that differ in one byte have different checksums.\<close>

theorem crc_detects_byte: "crc (xs @ a # ys) = crc (xs @ b # ys) \<longleftrightarrow> a = b"
  by (simp add: crc_def xor_cancel_right foldl_crc_inject crc_byte_inject_byte)

section \<open>Framing is injective and domain-separated\<close>

text \<open>The bytes hashed for an object determine its payload, and are never the bytes hashed
  for a commit identity; an equality of identities is therefore a collision of the hash
  function itself.\<close>

lemma object_frame_inject [simp]: "object_frame v = object_frame w \<longleftrightarrow> v = w"
  by (auto simp: object_frame_def)

lemma object_frame_separates: "object_frame v \<noteq> ''forkfs.commit.v0'' @ b"
  by (auto simp: object_frame_def)

end
