(* ===== verification/Level_Store.thy ===== *)
theory Level_Store
  imports State_Exn Std_Map Checksum
begin

text \<open>
  \<^verbatim>\<open>daemon/level_store.cpp\<close>: one LevelDB database per repository. Keys \<^verbatim>\<open>O/<identity>\<close> hold immutable
  objects, \<^verbatim>\<open>R/<name>\<close> hold roots, \<^verbatim>\<open>M/...\<close> the sequence and the counts; a transaction is one
  synchronous write batch. LevelDB and its caches are third-party code: the record
  \<open>leveldb\<close> holds the operations the source calls, \<open>ldb_laws\<close> what their documentation promises
  about the abstract contents \<open>C d\<close> of a database \<open>d\<close>.
\<close>

section \<open>LevelDB as a parameter\<close>

datatype db_get = Found bytes | Not_found | Get_failed string

datatype batch_op = Put string bytes | Delete string

text \<open>\<open>Write\<close> returns the database afterwards and the message of a failed status; \<open>Seek\<close> the entries
  an iterator visits from a key on, and the message of its final status; the object cache is
  a map from which the library may evict.\<close>

record 'db leveldb =
  Get :: "'db \<Rightarrow> string \<Rightarrow> db_get"
  Write :: "'db \<Rightarrow> batch_op list \<Rightarrow> 'db \<times> string option"
  Seek :: "'db \<Rightarrow> string \<Rightarrow> (string \<times> bytes) list \<times> string option"
  Compact_range :: "'db \<Rightarrow> 'db"
  Cache_insert :: "(oid \<rightharpoonup> bytes) \<Rightarrow> oid \<Rightarrow> bytes \<Rightarrow> nat \<Rightarrow> (oid \<rightharpoonup> bytes)"
  Cache_prune :: "(oid \<rightharpoonup> bytes) \<Rightarrow> (oid \<rightharpoonup> bytes)"

fun batch_op_apply :: "batch_op \<Rightarrow> (string \<rightharpoonup> bytes) \<Rightarrow> (string \<rightharpoonup> bytes)" where
  "batch_op_apply (Put k v) m = m(k \<mapsto> v)"
| "batch_op_apply (Delete k) m = m(k := None)"

definition batch_apply :: "batch_op list \<Rightarrow> (string \<rightharpoonup> bytes) \<Rightarrow> (string \<rightharpoonup> bytes)" where
  "batch_apply ops m = fold batch_op_apply ops m"

definition ldb_laws :: "'db leveldb \<Rightarrow> ('db \<Rightarrow> string \<rightharpoonup> bytes) \<Rightarrow> bool" where
  "ldb_laws L C \<longleftrightarrow>
     (\<forall>d k v. Get L d k = Found v \<longrightarrow> C d k = Some v) \<and>
     (\<forall>d k. Get L d k = Not_found \<longrightarrow> C d k = None) \<and>
     (\<forall>d ops d'. Write L d ops = (d', None) \<longrightarrow> C d' = batch_apply ops (C d)) \<and>
     (\<forall>d k kvs. Seek L d k = (kvs, None) \<longrightarrow>
        smap_ok kvs \<and> (\<forall>x v. (x, v) \<in> set kvs \<longleftrightarrow> k \<le> x \<and> C d x = Some v)) \<and>
     (\<forall>d. C (Compact_range L d) = C d) \<and>
     (\<forall>c i b n. Cache_insert L c i b n \<subseteq>\<^sub>m c(i \<mapsto> b)) \<and>
     (\<forall>c. Cache_prune L c = Map.empty)"

section \<open>State\<close>

record mutation =
  m_key :: string
  m_value :: "bytes option"
  m_reference :: "oid option"

record 'db level_store =
  ls_db :: 'db
  ls_sequence :: u64
  ls_objects :: u64
  ls_roots :: u64
  ls_poisoned :: bool
  ls_repository :: string
  ls_root_cache_sequence :: u64
  ls_root_cache :: "(string, bool \<times> bytes) smap"
  ls_object_cache :: "oid \<rightharpoonup> bytes"
  ls_object_cache_bytes :: nat

text \<open>\<open>integer\<close> and \<open>number\<close> of the source: eight-byte little-endian counters.\<close>

definition number :: "bytes \<Rightarrow> u64 res" where
  "number b = need (length b = 8) ''invalid LevelDB counter'' (Inr (of_nat (le_load b)))"

definition oid_of_value :: "bytes \<Rightarrow> oid res" where
  "oid_of_value v = need (length v = 32) ''invalid object reference'' (Inr (oid_of_bytes v))"

abbreviation object_key :: "oid \<Rightarrow> string" where "object_key i \<equiv> CHR ''O'' # CHR ''/'' # oid_bytes i"
abbreviation root_name_key :: "string \<Rightarrow> string" where "root_name_key k \<equiv> CHR ''R'' # CHR ''/'' # k"

section \<open>Reads\<close>

text \<open>A cached fact: whether the name was found, and its value.\<close>

definition fact_value :: "bool \<times> bytes \<Rightarrow> bytes option" where
  "fact_value known = (if fst known then Some (snd known) else None)"

text \<open>\<open>read\<close> takes the root-cache lock twice: before the database read, to look up the name and to
  note the epoch, and after it, to install what it read if no commit came between.\<close>

definition root_cache_lookup ::
    "'db level_store \<Rightarrow> string \<Rightarrow> (bool \<times> bytes) option \<times> 'db level_store" where
  "root_cache_lookup s key =
     (let s1 = (if ls_root_cache_sequence s \<noteq> ls_sequence s
                then s\<lparr>ls_root_cache := [], ls_root_cache_sequence := ls_sequence s\<rparr> else s)
      in (map_of (ls_root_cache s1) key, s1))"

definition root_cache_install ::
    "u64 \<Rightarrow> string \<Rightarrow> bytes option \<Rightarrow> 'db level_store \<Rightarrow> 'db level_store" where
  "root_cache_install epoch key got s =
     (if length key \<le> 1026 \<and> (case got of None \<Rightarrow> True | Some v \<Rightarrow> length v = 32) \<and>
         ls_sequence s = epoch \<and> ls_root_cache_sequence s = epoch
      then let c = (if 4096 \<le> length (ls_root_cache s) then [] else ls_root_cache s) in
        s\<lparr>ls_root_cache := put key (case got of Some v \<Rightarrow> (True, v) | None \<Rightarrow> (False, [])) c\<rparr>
      else s)"

definition healthy :: "('db level_store, unit) op" where
  "healthy s = (if ls_poisoned s
     then (Inl (Runtime_error ''LevelDB store requires reopen after write failure''), s)
     else (Inr (), s))"

definition db_read :: "'db leveldb \<Rightarrow> string \<Rightarrow> ('db level_store, bytes option) op" where
  "db_read L key s = (case Get L (ls_db s) key of
       Found v \<Rightarrow> (Inr (Some v), s)
     | Not_found \<Rightarrow> (Inr None, s)
     | Get_failed m \<Rightarrow> (Inl (Runtime_error (''read LevelDB: '' @ m)), s))"

definition level_read :: "'db leveldb \<Rightarrow> string \<Rightarrow> ('db level_store, bytes option) op" where
  "level_read L key =
     bindS healthy (\<lambda>_.
       if prefix ''R/'' key then (\<lambda>s.
         case root_cache_lookup s key of
           (Some known, s1) \<Rightarrow> (Inr (fact_value known), s1)
         | (None, s1) \<Rightarrow>
             bindS (db_read L key) (\<lambda>got.
               bindS (modifyS (root_cache_install (ls_sequence s1) key got)) (\<lambda>_.
                 returnS got)) s1)
       else db_read L key)"

definition level_root :: "'db leveldb \<Rightarrow> string \<Rightarrow> ('db level_store, oid) op" where
  "level_root L key =
     bindS (level_read L (root_name_key key)) (\<lambda>got. case got of
         None \<Rightarrow> throwS (Runtime_error ''object root not found'')
       | Some v \<Rightarrow> liftS (oid_of_value v))"

definition level_contains :: "'db leveldb \<Rightarrow> string \<Rightarrow> ('db level_store, bool) op" where
  "level_contains L key =
     bindS (level_read L (root_name_key key)) (\<lambda>got. returnS (got \<noteq> None))"

text \<open>\<^verbatim>\<open>sizeof(Bytes)\<close> is three pointers; an object larger than one of the sixteen cache shards is
  not admitted.\<close>

definition level_object ::
    "(bytes \<Rightarrow> oid) \<Rightarrow> 'db leveldb \<Rightarrow> oid \<Rightarrow> ('db level_store, bytes) op" where
  "level_object sha L i =
     bindS healthy (\<lambda>_. bindS getS (\<lambda>s. case ls_object_cache s i of
         Some b \<Rightarrow> returnS b
       | None \<Rightarrow> bindS (level_read L (object_key i)) (\<lambda>got. case got of
             None \<Rightarrow> throwS (Runtime_error ''object not indexed'')
           | Some b \<Rightarrow> needS (object_hash sha b = i) ''LevelDB object hash mismatch'' (
               bindS (modifyS (\<lambda>t.
                   if length b + 24 + 32 \<le> ls_object_cache_bytes t div 16
                   then t\<lparr>ls_object_cache :=
                          Cache_insert L (ls_object_cache t) i b (length b + 24 + 32)\<rparr>
                   else t)) (\<lambda>_. returnS b)))))"

definition level_keys :: "'db leveldb \<Rightarrow> string \<Rightarrow> ('db level_store, string list) op" where
  "level_keys L p =
     bindS healthy (\<lambda>_. bindS getS (\<lambda>s.
       let (kvs, st) = Seek L (ls_db s) (root_name_key p);
           hits = takeWhile (\<lambda>kv. prefix (root_name_key p) (fst kv)) kvs
       in case st of None \<Rightarrow> returnS (map (\<lambda>kv. drop 2 (fst kv)) hits)
          | Some m \<Rightarrow> throwS (Runtime_error (''scan LevelDB roots: '' @ m))))"

section \<open>Transactions\<close>

text \<open>What the loop over the mutations accumulates.\<close>

record tx =
  tx_seen :: "string list"
  tx_values :: "(oid, bytes) smap"
  tx_updates :: "(string, oid option) smap"
  tx_total :: nat
  tx_roots :: u64

definition tx_mutation ::
    "(bytes \<Rightarrow> oid) \<Rightarrow> 'db leveldb \<Rightarrow> mutation \<Rightarrow> tx \<Rightarrow> ('db level_store, tx) op" where
  "tx_mutation sha L m t =
     needS (m_key m \<noteq> [] \<and> length (m_key m) \<le> 1024 \<and> m_key m \<notin> set (tx_seen t))
       ''invalid or duplicate root key'' (
     needS (\<not> (m_value m \<noteq> None \<and> m_reference m \<noteq> None))
       ''mutation has both value and reference'' (
     bindS (level_contains L (m_key m)) (\<lambda>present.
     let t1 = t\<lparr>tx_seen := m_key m # tx_seen t\<rparr> in
     case m_reference m of
       Some i \<Rightarrow> bindS (level_object sha L i) (\<lambda>_.
         returnS (t1\<lparr>tx_updates := put (m_key m) (Some i) (tx_updates t),
                     tx_roots := (if present then tx_roots t else tx_roots t + 1)\<rparr>))
     | None \<Rightarrow> (case m_value m of
         Some v \<Rightarrow>
           needS (length v \<le> 256 * 1024) ''object exceeds 256 KiB'' (
           let h = object_hash sha v;
               fresh = (map_of (tx_values t) h = None);
               total = (if fresh then tx_total t + length v else tx_total t)
           in needS (total \<le> 16 * 1024 * 1024) ''LevelDB batch exceeds 16 MiB'' (
              returnS (t1\<lparr>tx_values := emplace h v (tx_values t), tx_total := total,
                          tx_updates := put (m_key m) (Some h) (tx_updates t),
                          tx_roots := (if present then tx_roots t else tx_roots t + 1)\<rparr>)))
       | None \<Rightarrow>
           needS present ''cannot delete absent root'' (
           returnS (t1\<lparr>tx_updates := put (m_key m) None (tx_updates t),
                       tx_roots := tx_roots t - 1\<rparr>))))))"

text \<open>The second loop: objects already stored must be byte-identical, the others are put.\<close>

definition tx_object ::
    "'db leveldb \<Rightarrow> oid \<times> bytes \<Rightarrow> batch_op list \<times> u64 \<Rightarrow>
      ('db level_store, batch_op list \<times> u64) op" where
  "tx_object L = (\<lambda>(h, v) (batch, n).
     bindS (level_read L (object_key h)) (\<lambda>previous. case previous of
         Some old \<Rightarrow> needS (old = v) ''immutable object collision/corruption'' (
                      returnS (batch, n))
       | None \<Rightarrow> returnS (batch @ [Put (object_key h) v], n + 1)))"

definition update_op :: "string \<times> oid option \<Rightarrow> batch_op" where
  "update_op = (\<lambda>(k, h). case h of
       Some i \<Rightarrow> Put (root_name_key k) (oid_bytes i) | None \<Rightarrow> Delete (root_name_key k))"

definition counter_ops :: "u64 \<Rightarrow> u64 \<Rightarrow> u64 \<Rightarrow> batch_op list" where
  "counter_ops sequence n_objects n_roots =
     [Put ''M/sequence'' (store64 sequence), Put ''M/objects'' (store64 n_objects),
      Put ''M/roots'' (store64 n_roots)]"

text \<open>\<open>DB::Write\<close>: a failed status poisons the store, whatever became of the database.\<close>

definition db_commit ::
    "'db leveldb \<Rightarrow> string \<Rightarrow> batch_op list \<Rightarrow> ('db level_store, unit) op" where
  "db_commit L operation batch s = (case Write L (ls_db s) batch of
       (d, None) \<Rightarrow> (Inr (), s\<lparr>ls_db := d\<rparr>)
     | (d, Some m) \<Rightarrow> (Inl (Runtime_error (operation @ '': '' @ m)),
                       s\<lparr>ls_db := d, ls_poisoned := True\<rparr>))"

definition level_transact ::
    "(bytes \<Rightarrow> oid) \<Rightarrow> 'db leveldb \<Rightarrow> u64 \<Rightarrow> mutation list \<Rightarrow> ('db level_store, unit) op" where
  "level_transact sha L expected changes =
     bindS healthy (\<lambda>_. bindS getS (\<lambda>s0.
     needS (expected = ls_sequence s0) ''transaction conflict: sequence changed'' (
     needS (ls_sequence s0 \<noteq> - 1) ''transaction sequence exhausted'' (
     needS (changes \<noteq> [] \<and> length changes \<le> 4096)
       ''LevelDB batch requires 1..4096 mutations'' (
     bindS (foldS (tx_mutation sha L) changes
              \<lparr>tx_seen = [], tx_values = [], tx_updates = [], tx_total = 0,
               tx_roots = ls_roots s0\<rparr>) (\<lambda>t.
     bindS (foldS (tx_object L) (tx_values t) ([], ls_objects s0)) (\<lambda>(puts, n_objects).
     bindS (db_commit L ''commit LevelDB batch''
              (puts @ map update_op (tx_updates t)
                @ counter_ops (ls_sequence s0 + 1) n_objects (tx_roots t))) (\<lambda>_.
     modifyS (\<lambda>s. s\<lparr>ls_sequence := ls_sequence s + 1, ls_objects := n_objects,
                     ls_roots := tx_roots t\<rparr>)))))))))"

section \<open>Verification, compaction and physical collection\<close>

definition verify_entry ::
    "(bytes \<Rightarrow> oid) \<Rightarrow> 'db leveldb \<Rightarrow> string \<times> bytes \<Rightarrow> u64 \<times> u64 \<Rightarrow>
      ('db level_store, u64 \<times> u64) op" where
  "verify_entry sha L = (\<lambda>(key, v) (n_roots, n_objects).
     if prefix ''O/'' key then
       needS (length key = 34) ''invalid object key'' (
       bindS (liftS (oid_of_value (drop 2 key))) (\<lambda>i.
       needS (object_hash sha v = i) ''object checksum mismatch'' (
       returnS (n_roots, n_objects + 1))))
     else if prefix ''R/'' key then
       bindS (liftS (oid_of_value v)) (\<lambda>i.
       bindS (level_object sha L i) (\<lambda>_. returnS (n_roots + 1, n_objects)))
     else needS (key = ''M/format'' \<or> key = ''M/repository'' \<or> key = ''M/sequence'' \<or>
                 key = ''M/objects'' \<or> key = ''M/roots'') ''unknown metadata key'' (
       returnS (n_roots, n_objects)))"

definition level_verify :: "(bytes \<Rightarrow> oid) \<Rightarrow> 'db leveldb \<Rightarrow> ('db level_store, unit) op" where
  "level_verify sha L =
     bindS healthy (\<lambda>_. bindS getS (\<lambda>s.
       let (kvs, st) = Seek L (ls_db s) [] in
       bindS (foldS (verify_entry sha L) kvs (0, 0)) (\<lambda>(n_roots, n_objects).
       case st of
         Some m \<Rightarrow> throwS (Runtime_error (''verify LevelDB: '' @ m))
       | None \<Rightarrow> needS (n_roots = ls_roots s \<and> n_objects = ls_objects s) ''LevelDB count mismatch''
                   (returnS ()))))"

definition level_compact :: "(bytes \<Rightarrow> oid) \<Rightarrow> 'db leveldb \<Rightarrow> ('db level_store, unit) op" where
  "level_compact sha L =
     bindS healthy (\<lambda>_. bindS (modifyS (\<lambda>s. s\<lparr>ls_db := Compact_range L (ls_db s)\<rparr>)) (\<lambda>_.
       level_verify sha L))"

definition collect_object ::
    "oid set \<Rightarrow> string \<times> bytes \<Rightarrow> batch_op list \<times> nat \<Rightarrow> (batch_op list \<times> nat) res" where
  "collect_object live = (\<lambda>(key, v) (batch, removed).
     need (length key = 34) ''invalid object key'' (
     if oid_of_bytes (drop 2 key) \<in> live then Inr (batch, removed)
     else Inr (batch @ [Delete key], removed + 1)))"

definition level_collect ::
    "(bytes \<Rightarrow> oid) \<Rightarrow> 'db leveldb \<Rightarrow> u64 \<Rightarrow> oid list \<Rightarrow> string list \<Rightarrow> ('db level_store, nat) op" where
  "level_collect sha L expected live obsolete_roots =
     bindS healthy (\<lambda>_. bindS getS (\<lambda>s.
     needS (ls_sequence s = expected \<and> expected \<noteq> - 1) ''GC sequence conflict'' (
     bindS (foldS (\<lambda>h _. bindS (level_read L (object_key h)) (\<lambda>got.
              needS (got \<noteq> None) ''GC live object missing'' (returnS ()))) live ()) (\<lambda>_.
     let (kvs, st) = Seek L (ls_db s) ''O/'';
         found = takeWhile (\<lambda>kv. prefix ''O/'' (fst kv)) kvs in
     bindS (liftS (foldR (collect_object (set live)) found ([], 0))) (\<lambda>(deletes, removed).
     case st of Some m \<Rightarrow> throwS (Runtime_error (''scan GC objects: '' @ m)) | None \<Rightarrow>
     bindS (foldS (\<lambda>key _. bindS (level_contains L key) (\<lambda>present.
              needS present ''GC root disappeared'' (returnS ()))) obsolete_roots ()) (\<lambda>_.
     needS (removed \<le> unat (ls_objects s) \<and> length obsolete_roots \<le> unat (ls_roots s))
       ''invalid GC counters'' (
     let n_objects = ls_objects s - of_nat removed;
         n_roots = ls_roots s - of_nat (length obsolete_roots) in
     bindS (db_commit L ''commit GC''
              (deletes @ map (\<lambda>key. Delete (root_name_key key)) obsolete_roots
                @ counter_ops (expected + 1) n_objects n_roots)) (\<lambda>_.
     bindS (modifyS (\<lambda>t. t\<lparr>ls_sequence := expected + 1, ls_objects := n_objects,
                            ls_roots := n_roots,
                            ls_object_cache := Cache_prune L (ls_object_cache t)\<rparr>)) (\<lambda>_.
     returnS removed)))))))))"

section \<open>Opening\<close>

text \<open>The constructor. \<open>opened\<close> is the result of \<^verbatim>\<open>DB::Open\<close>; \<open>entropy\<close> the sixteen bytes read from the
  system when a repository is initialised.\<close>

definition closed_store :: "'db \<Rightarrow> nat \<Rightarrow> 'db level_store" where
  "closed_store d cache_bytes =
     \<lparr>ls_db = d, ls_sequence = 0, ls_objects = 0, ls_roots = 0, ls_poisoned = False,
      ls_repository = [], ls_root_cache_sequence = - 1, ls_root_cache = [],
      ls_object_cache = Map.empty, ls_object_cache_bytes = cache_bytes\<rparr>"

definition level_init :: "'db leveldb \<Rightarrow> bytes \<Rightarrow> ('db level_store, unit) op" where
  "level_init L entropy =
     db_commit L ''initialize LevelDB repository''
       (Put ''M/format'' ''FFLDB001'' # Put ''M/repository'' entropy # counter_ops 0 0 0)"

definition required :: "'db leveldb \<Rightarrow> string \<Rightarrow> string \<Rightarrow> ('db level_store, bytes) op" where
  "required L key message =
     bindS (level_read L key) (\<lambda>got. case got of
         None \<Rightarrow> throwS (Runtime_error message) | Some v \<Rightarrow> returnS v)"

definition level_load :: "'db leveldb \<Rightarrow> ('db level_store, unit) op" where
  "level_load L =
     bindS (required L ''M/format'' ''unsupported LevelDB repository format'') (\<lambda>v.
     needS (v = ''FFLDB001'') ''unsupported LevelDB repository format'' (
     bindS (required L ''M/repository'' ''invalid repository identity'') (\<lambda>v.
     needS (length v = 16) ''invalid repository identity'' (
     bindS (modifyS (\<lambda>s. s\<lparr>ls_repository := hex v\<rparr>)) (\<lambda>_.
     bindS (required L ''M/sequence'' ''missing sequence'') (\<lambda>v.
     bindS (liftS (number v)) (\<lambda>n. bindS (modifyS (\<lambda>s. s\<lparr>ls_sequence := n\<rparr>)) (\<lambda>_.
     bindS (required L ''M/objects'' ''missing object count'') (\<lambda>v.
     bindS (liftS (number v)) (\<lambda>n. bindS (modifyS (\<lambda>s. s\<lparr>ls_objects := n\<rparr>)) (\<lambda>_.
     bindS (required L ''M/roots'' ''missing root count'') (\<lambda>v.
     bindS (liftS (number v)) (\<lambda>n. modifyS (\<lambda>s. s\<lparr>ls_roots := n\<rparr>))))))))))))))"

definition level_open ::
    "'db leveldb \<Rightarrow> 'db res \<Rightarrow> bool \<Rightarrow> bytes \<Rightarrow> nat \<Rightarrow> 'db level_store res" where
  "level_open L opened initialize entropy cache_bytes =
     bindR opened (\<lambda>d.
       case bindS (if initialize then level_init L entropy else returnS ()) (\<lambda>_. level_load L)
              (closed_store d cache_bytes) of
         (Inl e, _) \<Rightarrow> Inl e
       | (Inr _, s) \<Rightarrow> Inr s)"

end
