(* ===== verification/Level_Store_Laws.thy ===== *)
theory Level_Store_Laws
  imports Level_Store
begin

text \<open>
  The level store implements a repository: a map from identities to immutable payloads, a map
  from names to identities, and a sequence number. The caches are invisible, a committed
  transaction is one atomic step of the specification, a failed one changes nothing or poisons
  the store.
\<close>

section \<open>The repository a store stands for\<close>

record repo =
  r_objects :: "oid \<rightharpoonup> bytes"
  r_roots :: "string \<rightharpoonup> oid"
  r_seq :: u64

definition level_repo :: "('db \<Rightarrow> string \<rightharpoonup> bytes) \<Rightarrow> 'db level_store \<Rightarrow> repo" where
  "level_repo C s =
     \<lparr>r_objects = (\<lambda>i. C (ls_db s) (object_key i)),
      r_roots = (\<lambda>k. map_option oid_of_bytes (C (ls_db s) (root_name_key k))),
      r_seq = ls_sequence s\<rparr>"

definition mutation_target :: "(bytes \<Rightarrow> oid) \<Rightarrow> mutation \<Rightarrow> oid option" where
  "mutation_target sha m = (case m_reference m of Some i \<Rightarrow> Some i
     | None \<Rightarrow> map_option (object_hash sha) (m_value m))"

definition new_values :: "(bytes \<Rightarrow> oid) \<Rightarrow> mutation list \<Rightarrow> (oid \<times> bytes) list" where
  "new_values sha ms = map (\<lambda>v. (object_hash sha v, v))
     (List.map_filter (\<lambda>m. if m_reference m = None then m_value m else None) ms)"

definition repo_commit :: "(bytes \<Rightarrow> oid) \<Rightarrow> mutation list \<Rightarrow> repo \<Rightarrow> repo" where
  "repo_commit sha ms r =
     \<lparr>r_objects = r_objects r ++ map_of (new_values sha ms),
      r_roots = override (r_roots r) (map (\<lambda>m. (m_key m, mutation_target sha m)) ms),
      r_seq = r_seq r + 1\<rparr>"

section \<open>The invariant\<close>

text \<open>Everything but the caches.\<close>

definition core :: "'db level_store \<Rightarrow> 'db \<times> u64 \<times> u64 \<times> u64 \<times> bool \<times> string" where
  "core s = (ls_db s, ls_sequence s, ls_objects s, ls_roots s, ls_poisoned s, ls_repository s)"

definition cache_ok :: "(bytes \<Rightarrow> oid) \<Rightarrow> ('db \<Rightarrow> string \<rightharpoonup> bytes) \<Rightarrow> 'db level_store \<Rightarrow> bool" where
  "cache_ok sha C s \<longleftrightarrow>
     (ls_root_cache_sequence s = ls_sequence s \<longrightarrow>
        (\<forall>k known. map_of (ls_root_cache s) k = Some known \<longrightarrow>
           C (ls_db s) k = fact_value known)) \<and>
     (ls_root_cache s = [] \<or> ls_root_cache_sequence s \<le> ls_sequence s) \<and>
     (\<forall>i b. ls_object_cache s i = Some b \<longrightarrow>
        C (ls_db s) (object_key i) = Some b \<and> object_hash sha b = i)"

definition disk_ok :: "(bytes \<Rightarrow> oid) \<Rightarrow> (string \<rightharpoonup> bytes) \<Rightarrow> bool" where
  "disk_ok sha m \<longleftrightarrow>
     finite (dom m) \<and>
     (\<forall>i b. m (object_key i) = Some b \<longrightarrow> object_hash sha b = i) \<and>
     (\<forall>k v. m (root_name_key k) = Some v \<longrightarrow> length v = 32 \<and> m (CHR ''O'' # CHR ''/'' # v) \<noteq> None) \<and>
     (\<forall>k. m (CHR ''O'' # CHR ''/'' # k) \<noteq> None \<longrightarrow> length k = 32)"

definition object_count :: "(string \<rightharpoonup> bytes) \<Rightarrow> nat" where
  "object_count m = card {i. m (object_key i) \<noteq> None}"

definition root_count :: "(string \<rightharpoonup> bytes) \<Rightarrow> nat" where
  "root_count m = card {k. m (root_name_key k) \<noteq> None}"

definition counts_ok :: "('db \<Rightarrow> string \<rightharpoonup> bytes) \<Rightarrow> 'db level_store \<Rightarrow> bool" where
  "counts_ok C s \<longleftrightarrow>
     C (ls_db s) ''M/sequence'' = Some (store64 (ls_sequence s)) \<and>
     C (ls_db s) ''M/objects'' = Some (store64 (ls_objects s)) \<and>
     C (ls_db s) ''M/roots'' = Some (store64 (ls_roots s)) \<and>
     ls_objects s = of_nat (object_count (C (ls_db s))) \<and>
     ls_roots s = of_nat (root_count (C (ls_db s)))"

definition level_inv :: "(bytes \<Rightarrow> oid) \<Rightarrow> ('db \<Rightarrow> string \<rightharpoonup> bytes) \<Rightarrow> 'db level_store \<Rightarrow> bool" where
  "level_inv sha C s \<longleftrightarrow> cache_ok sha C s \<and> disk_ok sha (C (ls_db s)) \<and> counts_ok C s"

section \<open>Reads are transparent\<close>

lemma ldb_lawsD:
  assumes "ldb_laws L C"
  shows ldb_found: "Get L d k = Found v \<Longrightarrow> C d k = Some v"
    and ldb_not_found: "Get L d k = Not_found \<Longrightarrow> C d k = None"
    and ldb_write: "Write L d ops = (d', None) \<Longrightarrow> C d' = batch_apply ops (C d)"
    and ldb_seek_ok: "Seek L d k = (kvs, None) \<Longrightarrow> smap_ok kvs"
    and ldb_seek: "Seek L d k = (kvs, None) \<Longrightarrow> (x, v) \<in> set kvs \<longleftrightarrow> k \<le> x \<and> C d x = Some v"
    and ldb_compact: "C (Compact_range L d) = C d"
    and ldb_cache_insert: "Cache_insert L c i b n j = Some b' \<Longrightarrow> (c(i \<mapsto> b)) j = Some b'"
    and ldb_cache_prune: "Cache_prune L c = Map.empty"
proof -
  show "Cache_insert L c i b n j = Some b' \<Longrightarrow> (c(i \<mapsto> b)) j = Some b'"
    using assms by (metis ldb_laws_def map_le_def domI)
qed (use assms in \<open>simp_all add: ldb_laws_def\<close>)

lemma fact_value_simps [simp]: "fact_value (True, v) = Some v" "fact_value (False, v) = None"
  by (simp_all add: fact_value_def)

lemma healthy_ok_iff [simp]: "healthy s = (Inr u, t) \<longleftrightarrow> \<not> ls_poisoned s \<and> t = s"
  by (auto simp: healthy_def)

lemma healthy_exn: "healthy s = (Inl e, t) \<Longrightarrow> ls_poisoned s \<and> t = s"
  by (auto simp: healthy_def split: if_splits)

lemma healthy_okE [okE]: "healthy s = (Inr u, t) \<Longrightarrow> (\<not> ls_poisoned s \<Longrightarrow> t = s \<Longrightarrow> P) \<Longrightarrow> P"
  by simp

lemma root_cache_lookup_ok:
  assumes "root_cache_lookup s k = (r, t)" and "cache_ok sha C s"
  shows "core t = core s" "cache_ok sha C t" "ls_root_cache_sequence t = ls_sequence t"
    "r = Some known \<Longrightarrow> C (ls_db s) k = fact_value known"
  using assms
  by (auto simp: root_cache_lookup_def core_def cache_ok_def Let_def simp del: split_paired_All
      split: if_splits)

lemma root_cache_install_ok:
  assumes "cache_ok sha C s" and "got = C (ls_db s) k"
  shows "core (root_cache_install e k got s) = core s"
    "cache_ok sha C (root_cache_install e k got s)"
  using assms
  by (auto simp: root_cache_install_def core_def cache_ok_def Let_def
      split: if_splits option.splits)

lemma db_read_ok:
  assumes "ldb_laws L C" and "db_read L k s = (r, t)"
  shows "t = s" "r = Inr got \<Longrightarrow> got = C (ls_db s) k"
  using assms
  by (auto simp: db_read_def dest: ldb_found ldb_not_found split: db_get.splits)

lemma level_read_ok:
  assumes L: "ldb_laws L C" and c: "cache_ok sha C s" and r: "level_read L k s = (r, t)"
  shows "core t = core s" "cache_ok sha C t" "r = Inr got \<Longrightarrow> got = C (ls_db s) k"
proof -
  have "core t = core s \<and> cache_ok sha C t \<and> (\<forall>got. r = Inr got \<longrightarrow> got = C (ls_db s) k)"
  proof (cases "ls_poisoned s \<or> \<not> prefix ''R/'' k")
    case True
    then show ?thesis
      using r c db_read_ok [OF L, of k s r t]
      by (auto simp: level_read_def bindS_def healthy_def split: if_splits)
  next
    case False
    obtain q s1 where q: "root_cache_lookup s k = (q, s1)" by (cases "root_cache_lookup s k")
    note lookup = root_cache_lookup_ok [OF q c]
    have db: "ls_db s1 = ls_db s" using lookup(1) by (simp add: core_def)
    show ?thesis
    proof (cases q)
      case (Some fv)
      then show ?thesis
        using r False q lookup
        by (auto simp: level_read_def bindS_def healthy_def)
    next
      case None
      obtain r1 s2 where d: "db_read L k s1 = (r1, s2)" by (cases "db_read L k s1")
      then have [simp]: "s2 = s1" by (rule db_read_ok [OF L])
      show ?thesis
        using r False q None d lookup(1,2) db_read_ok(2) [OF L d] db
          root_cache_install_ok [OF lookup(2)]
        by (auto simp: level_read_def bindS_def healthy_def split: sum.splits)
    qed
  qed
  then show "core t = core s" "cache_ok sha C t" "r = Inr got \<Longrightarrow> got = C (ls_db s) k"
    by blast+
qed

lemma level_contains_ok:
  assumes "ldb_laws L C" and "cache_ok sha C s" and "level_contains L k s = (r, t)"
  shows "core t = core s" "cache_ok sha C t"
    "r = Inr p \<Longrightarrow> p \<longleftrightarrow> C (ls_db s) (root_name_key k) \<noteq> None"
  using assms(3) level_read_ok [OF assms(1,2)]
  by (fastforce simp: level_contains_def bindS_def split: prod.splits sum.splits)+

lemma level_root_ok:
  assumes "ldb_laws L C" and "cache_ok sha C s" and "level_root L k s = (r, t)"
  shows "core t = core s" "cache_ok sha C t"
    "r = Inr i \<Longrightarrow> \<exists>v. C (ls_db s) (root_name_key k) = Some v \<and> length v = 32 \<and> i = oid_of_bytes v"
  using assms(3) level_read_ok [OF assms(1,2)]
  by (fastforce simp: level_root_def oid_of_value_def bindS_def
      split: prod.splits sum.splits option.splits if_splits)+

lemma cache_ok_insert:
  assumes "ldb_laws L C" and "cache_ok sha C s"
    and "C (ls_db s) (object_key i) = Some b" and "object_hash sha b = i"
  shows "cache_ok sha C (s\<lparr>ls_object_cache := Cache_insert L (ls_object_cache s) i b n\<rparr>)"
  using assms(2-4)
  by (auto simp: cache_ok_def dest!: ldb_cache_insert [OF assms(1)] split: if_splits)

lemma level_object_ok:
  assumes L: "ldb_laws L C" and c: "cache_ok sha C s" and r: "level_object sha L i s = (r, t)"
  shows "core t = core s" "cache_ok sha C t"
    "r = Inr b \<Longrightarrow> C (ls_db s) (object_key i) = Some b \<and> object_hash sha b = i"
proof -
  have "core t = core s \<and> cache_ok sha C t \<and>
    (\<forall>b. r = Inr b \<longrightarrow> C (ls_db s) (object_key i) = Some b \<and> object_hash sha b = i)"
  proof (cases "ls_poisoned s \<or> ls_object_cache s i \<noteq> None")
    case True
    then show ?thesis
      using r c by (auto simp: level_object_def bindS_def healthy_def cache_ok_def split: if_splits)
  next
    case False
    obtain r1 s1 where d: "level_read L (object_key i) s = (r1, s1)"
      by (cases "level_read L (object_key i) s")
    note rd = level_read_ok [OF L c d]
    have db: "ls_db s1 = ls_db s" using rd(1) by (simp add: core_def)
    show ?thesis
    proof (cases "\<exists>b. r1 = Inr (Some b) \<and> object_hash sha b = i")
      case True
      then obtain b where b: "r1 = Inr (Some b)" "object_hash sha b = i" by blast
      then have stored: "C (ls_db s) (object_key i) = Some b"
        using rd(3) [of "Some b"] by simp
      then have "C (ls_db s1) (object_key i) = Some b" by (simp add: db)
      from cache_ok_insert [OF L rd(2) this b(2)] show ?thesis
        using r False d b rd(1,2) stored
        by (auto simp: level_object_def bindS_def healthy_def core_def split: if_splits)
    next
      case False': False
      then show ?thesis
        using r False d rd(1,2)
        by (auto simp: level_object_def bindS_def healthy_def split: sum.splits option.splits)
    qed
  qed
  then show "core t = core s" "cache_ok sha C t"
    "r = Inr b \<Longrightarrow> C (ls_db s) (object_key i) = Some b \<and> object_hash sha b = i"
    by blast+
qed

section \<open>Write batches\<close>

fun op_entry :: "batch_op \<Rightarrow> string \<times> bytes option" where
  "op_entry (Put k v) = (k, Some v)"
| "op_entry (Delete k) = (k, None)"

lemma batch_op_apply_entry: "batch_op_apply x m = m(fst (op_entry x) := snd (op_entry x))"
  by (cases x) simp_all

lemma override_Cons_distinct:
  "k \<notin> fst ` set c \<Longrightarrow> override f ((k, v) # c) = override (f(k := v)) c"
  by (auto simp: override_def fun_eq_iff dest: map_of_eq_None_iff [THEN iffD2] split: option.split)

lemma batch_apply_override:
  "distinct (map (fst \<circ> op_entry) ops) \<Longrightarrow> batch_apply ops m = override m (map op_entry ops)"
proof (induction ops arbitrary: m)
  case Nil
  show ?case by (simp add: batch_apply_def)
next
  case (Cons x ops)
  then have "fst (op_entry x) \<notin> fst ` set (map op_entry ops)"
    by (auto simp: image_comp)
  from override_Cons_distinct [OF this, of m "snd (op_entry x)"] Cons show ?case
    by (simp add: batch_apply_def batch_op_apply_entry)
qed

lemma finite_dom_override:
  assumes "finite (dom f)"
  shows "finite (dom (override f c))"
proof (rule finite_subset)
  show "dom (override f c) \<subseteq> dom f \<union> dom (map_of c)"
    by (auto simp: override_def dom_def split: option.splits)
qed (simp add: assms finite_dom_map_of)

lemma override_append: "override f (a @ b) k = (case map_of a k of None \<Rightarrow> override f b k | Some v \<Rightarrow> v)"
  by (simp add: override_def map_add_def split: option.split)

text \<open>The batch of a transaction touches each key once: objects, then roots, then counters.\<close>

definition object_puts :: "(oid \<times> bytes) list \<Rightarrow> batch_op list" where
  "object_puts = map (\<lambda>(h, v). Put (object_key h) v)"

lemma op_entry_update [simp]:
  "op_entry (update_op (k, h)) = (root_name_key k, map_option oid_bytes h)"
  by (simp add: update_op_def split: option.split)

lemma map_of_object_puts [simp]:
  "map_of (map op_entry (object_puts xs)) (object_key i) = map_option Some (map_of xs i)"
  "map_of (map op_entry (object_puts xs)) (CHR ''R'' # k) = None"
  "map_of (map op_entry (object_puts xs)) (CHR ''M'' # k) = None"
  by (induction xs) (auto simp: object_puts_def)

lemma map_of_update_ops [simp]:
  "map_of (map (op_entry \<circ> update_op) us) (root_name_key k) =
    map_option (map_option oid_bytes) (map_of us k)"
  "map_of (map (op_entry \<circ> update_op) us) (CHR ''O'' # k) = None"
  "map_of (map (op_entry \<circ> update_op) us) (CHR ''M'' # k) = None"
  by (induction us) auto

lemma map_of_object_puts_other:
  "length k \<noteq> 32 \<Longrightarrow> map_of (map op_entry (object_puts xs)) (CHR ''O'' # CHR ''/'' # k) = None"
  by (induction xs) (auto simp: object_puts_def)

lemma distinct_tx_batch:
  assumes "distinct (map fst xs)" and "smap_ok us"
  shows "distinct (map (fst \<circ> op_entry) (object_puts xs @ map update_op us @ counter_ops q n r))"
proof -
  have "distinct (map (fst \<circ> op_entry) (object_puts xs))"
    using assms(1) by (induction xs) (force simp: object_puts_def)+
  moreover have "distinct (map (fst \<circ> op_entry \<circ> update_op) us)"
    using assms(2) by (induction us) fastforce+
  ultimately show ?thesis
    by (auto simp: object_puts_def counter_ops_def)
qed

section \<open>The loop over the mutations\<close>

text \<open>The names bound to a root after the mutations \<open>ms\<close>.\<close>

definition names_after :: "(bytes \<Rightarrow> oid) \<Rightarrow> mutation list \<Rightarrow> string set \<Rightarrow> string set" where
  "names_after sha ms R = fold (\<lambda>m S. if mutation_target sha m = None then S - {m_key m}
     else insert (m_key m) S) ms R"

definition tx_inv ::
    "(bytes \<Rightarrow> oid) \<Rightarrow> ('db \<Rightarrow> string \<rightharpoonup> bytes) \<Rightarrow> 'db level_store \<Rightarrow> mutation list \<Rightarrow> tx \<Rightarrow>
      'db level_store \<Rightarrow> bool" where
  "tx_inv sha C s0 ms t u \<longleftrightarrow>
     core u = core s0 \<and> cache_ok sha C u \<and>
     set (tx_seen t) = m_key ` set ms \<and> distinct (map m_key ms) \<and>
     smap_ok (tx_values t) \<and> map_of (tx_values t) = map_of (new_values sha ms) \<and>
     smap_ok (tx_updates t) \<and>
     map_of (tx_updates t) = map_of (map (\<lambda>m. (m_key m, mutation_target sha m)) ms) \<and>
     (\<forall>m \<in> set ms. \<forall>i. m_reference m = Some i \<longrightarrow> C (ls_db s0) (object_key i) \<noteq> None) \<and>
     tx_roots t = of_nat (card (names_after sha ms {k. C (ls_db s0) (root_name_key k) \<noteq> None}))"

lemma names_after_snoc [simp]:
  "names_after sha (ms @ [m]) R = (if mutation_target sha m = None
     then names_after sha ms R - {m_key m} else insert (m_key m) (names_after sha ms R))"
  by (simp add: names_after_def)

lemma finite_names_after: "finite R \<Longrightarrow> finite (names_after sha ms R)"
  by (induction ms rule: rev_induct) (simp_all add: names_after_def)

lemma names_after_untouched: "k \<notin> m_key ` set ms \<Longrightarrow> k \<in> names_after sha ms R \<longleftrightarrow> k \<in> R"
proof (induction ms rule: rev_induct)
  case Nil
  show ?case by (simp add: names_after_def)
qed auto

lemma card_insert_word:
  "finite S \<Longrightarrow> (of_nat (card (insert k S)) :: u64) = (if k \<in> S then of_nat (card S) else of_nat (card S) + 1)"
  by (simp add: insert_absorb)

lemma card_remove_word:
  "finite S \<Longrightarrow> k \<in> S \<Longrightarrow> (of_nat (card (S - {k})) :: u64) = of_nat (card S) - 1"
  by (metis add_diff_cancel_right' card_Suc_Diff1 of_nat_Suc add.commute)

lemma new_values_snoc:
  "new_values sha (ms @ [m]) = new_values sha ms @
     (case m_reference m of Some _ \<Rightarrow> [] | None \<Rightarrow>
        (case m_value m of None \<Rightarrow> [] | Some v \<Rightarrow> [(object_hash sha v, v)]))"
  by (simp add: new_values_def List.map_filter_def split: option.split)

lemma map_of_snoc: "map_of (xs @ [(k, v)]) = (case map_of xs k of None \<Rightarrow> (map_of xs)(k \<mapsto> v) | Some _ \<Rightarrow> map_of xs)"
  by (auto simp: map_add_def fun_eq_iff split: option.split)

lemma map_of_targets_snoc:
  assumes "m_key m \<notin> m_key ` set ms"
  shows "map_of (map (\<lambda>m. (m_key m, mutation_target sha m)) (ms @ [m])) =
    (map_of (map (\<lambda>m. (m_key m, mutation_target sha m)) ms))(m_key m \<mapsto> mutation_target sha m)"
proof -
  have "map_of (map (\<lambda>m. (m_key m, mutation_target sha m)) ms) (m_key m) = None"
    using assms by (auto simp: map_of_eq_None_iff)
  then show ?thesis by (simp add: map_of_snoc del: map_of_append)
qed

lemma tx_mutation_inv:
  assumes L: "ldb_laws L C" and fin: "finite {k. C (ls_db s0) (root_name_key k) \<noteq> None}"
    and inv: "tx_inv sha C s0 ms t u" and step: "tx_mutation sha L m t u = (Inr t', v)"
  shows "tx_inv sha C s0 (ms @ [m]) t' v"
proof -
  let ?R = "{k. C (ls_db s0) (root_name_key k) \<noteq> None}"
  have cu: "cache_ok sha C u" and core_u: "core u = core s0" using inv by (simp_all add: tx_inv_def)
  from step obtain present u1 where key: "m_key m \<notin> set (tx_seen t)"
    and present: "level_contains L (m_key m) u = (Inr present, u1)"
    by (auto simp: tx_mutation_def bindS_ok_iff split: if_splits)
  have fresh: "m_key m \<notin> m_key ` set ms" using key inv by (simp add: tx_inv_def)
  note c1 = level_contains_ok [OF L cu present]
  have db: "ls_db u = ls_db s0" using core_u by (simp add: core_def)
  have core1: "core u1 = core s0" and ok1: "cache_ok sha C u1" using c1 core_u by simp_all
  have in_names: "m_key m \<in> names_after sha ms ?R \<longleftrightarrow> present"
    using names_after_untouched [OF fresh, of sha ?R] c1(3) [OF refl] db by simp
  have finN: "finite (names_after sha ms ?R)" by (rule finite_names_after [OF fin])
  have db1: "ls_db u1 = ls_db s0" using core1 by (simp add: core_def)
  note facts = inv [unfolded tx_inv_def]
  show ?thesis
  proof (cases "m_reference m")
    case (Some i)
    then obtain b where ob: "level_object sha L i u1 = (Inr b, v)"
      and t': "t' = t\<lparr>tx_seen := m_key m # tx_seen t, tx_updates := put (m_key m) (Some i) (tx_updates t),
                 tx_roots := (if present then tx_roots t else tx_roots t + 1)\<rparr>"
      using step present by (auto simp: tx_mutation_def bindS_ok_iff Let_def split: if_splits)
    note o1 = level_object_ok [OF L ok1 ob]
    have tgt: "mutation_target sha m = Some i" using Some by (simp add: mutation_target_def)
    show ?thesis
      unfolding tx_inv_def map_of_targets_snoc [OF fresh] new_values_snoc
      using facts o1 core1 db1 tgt Some in_names fresh t' card_insert_word [OF finN, of "m_key m"]
      by (auto split: if_splits)
  next
    case None
    show ?thesis
    proof (cases "m_value m")
      case (Some w)
      then have v: "v = u1" and t': "t' = t\<lparr>tx_seen := m_key m # tx_seen t,
            tx_values := emplace (object_hash sha w) w (tx_values t),
            tx_total := (if map_of (tx_values t) (object_hash sha w) = None
                         then tx_total t + length w else tx_total t),
            tx_updates := put (m_key m) (Some (object_hash sha w)) (tx_updates t),
            tx_roots := (if present then tx_roots t else tx_roots t + 1)\<rparr>"
        using step present None by (auto simp: tx_mutation_def bindS_ok_iff Let_def split: if_splits)
      have tgt: "mutation_target sha m = Some (object_hash sha w)"
        using Some None by (simp add: mutation_target_def)
      have nv: "map_of (tx_values t') = map_of (new_values sha (ms @ [m]))"
        using facts Some None
        by (simp add: t' new_values_snoc map_of_snoc map_of_emplace del: map_of_append
            split: option.split)
      show ?thesis
        unfolding tx_inv_def map_of_targets_snoc [OF fresh] nv
        using facts core1 ok1 tgt None in_names fresh v card_insert_word [OF finN, of "m_key m"]
        by (auto simp: t' split: if_splits)
    next
      case None': None
      then have p: "present" and v: "v = u1" and t': "t' = t\<lparr>tx_seen := m_key m # tx_seen t,
            tx_updates := put (m_key m) None (tx_updates t), tx_roots := tx_roots t - 1\<rparr>"
        using step present None by (auto simp: tx_mutation_def bindS_ok_iff Let_def split: if_splits)
      have tgt: "mutation_target sha m = None" using None None' by (simp add: mutation_target_def)
      show ?thesis
        unfolding tx_inv_def map_of_targets_snoc [OF fresh] new_values_snoc
        using facts core1 ok1 tgt None None' in_names p fresh v t'
          card_remove_word [OF finN, of "m_key m"]
        by auto
    qed
  qed
qed

text \<open>A transaction's loops leave everything but the caches as it was.\<close>

definition same :: "(bytes \<Rightarrow> oid) \<Rightarrow> ('db \<Rightarrow> string \<rightharpoonup> bytes) \<Rightarrow> 'db level_store \<Rightarrow> 'db level_store \<Rightarrow> bool" where
  "same sha C s0 u \<longleftrightarrow> core u = core s0 \<and> cache_ok sha C u"

lemma same_refl: "cache_ok sha C s \<Longrightarrow> same sha C s s"
  by (simp add: same_def)

lemma same_db: "same sha C s0 u \<Longrightarrow> ls_db u = ls_db s0"
  by (simp add: same_def core_def)

lemma keeps_healthy [keeping]: "keeps P healthy"
  by (simp add: keeps_def healthy_def)

lemma keeps_level_reads [keeping]:
  assumes "ldb_laws L C"
  shows "keeps (same sha C s0) (level_read L k)" "keeps (same sha C s0) (level_contains L k)"
    "keeps (same sha C s0) (level_object sha L i)"
  by (rule keepsI, auto simp: same_def
      dest: level_read_ok(1,2) [OF assms] level_contains_ok(1,2) [OF assms]
        level_object_ok(1,2) [OF assms])+

lemma keeps_tx_mutation [keeping]:
  "ldb_laws L C \<Longrightarrow> keeps (same sha C s0) (tx_mutation sha L m t)"
  unfolding tx_mutation_def Let_def by (intro keeping) auto

lemma keeps_tx_object [keeping]:
  "ldb_laws L C \<Longrightarrow> keeps (same sha C s0) (tx_object L x r)"
  by (cases x; cases r) (simp add: tx_object_def, intro keeping, auto)

lemma names_after_iff:
  "distinct (map m_key ms) \<Longrightarrow> k \<in> names_after sha ms R \<longleftrightarrow>
    (case map_of (map (\<lambda>m. (m_key m, mutation_target sha m)) ms) k of
       None \<Rightarrow> k \<in> R | Some target \<Rightarrow> target \<noteq> None)"
proof (induction ms rule: rev_induct)
  case Nil
  show ?case by (simp add: names_after_def)
next
  case (snoc m ms)
  then have fresh: "m_key m \<notin> m_key ` set ms" by simp
  have "distinct (map m_key ms)" using snoc.prems by simp
  note IH = snoc.IH [OF this]
  show ?case
    unfolding map_of_targets_snoc [OF fresh] names_after_snoc by (simp add: IH)
qed

section \<open>The loop over the new objects\<close>

definition absent :: "(string \<rightharpoonup> bytes) \<Rightarrow> (oid \<times> bytes) list \<Rightarrow> (oid \<times> bytes) list" where
  "absent m xs = filter (\<lambda>(h, v). m (object_key h) = None) xs"

definition obj_inv ::
    "(bytes \<Rightarrow> oid) \<Rightarrow> ('db \<Rightarrow> string \<rightharpoonup> bytes) \<Rightarrow> 'db level_store \<Rightarrow> (oid \<times> bytes) list \<Rightarrow>
      batch_op list \<times> u64 \<Rightarrow> 'db level_store \<Rightarrow> bool" where
  "obj_inv sha C s0 xs r u \<longleftrightarrow>
     same sha C s0 u \<and>
     fst r = object_puts (absent (C (ls_db s0)) xs) \<and>
     snd r = ls_objects s0 + of_nat (length (absent (C (ls_db s0)) xs)) \<and>
     (\<forall>h v. (h, v) \<in> set xs \<longrightarrow>
        C (ls_db s0) (object_key h) = None \<or> C (ls_db s0) (object_key h) = Some v)"

lemma tx_object_inv:
  assumes L: "ldb_laws L C" and inv: "obj_inv sha C s0 xs r u"
    and step: "tx_object L x r u = (Inr r', v)"
  shows "obj_inv sha C s0 (xs @ [x]) r' v"
proof -
  obtain h w where x: "x = (h, w)" by (cases x)
  obtain batch n where r: "r = (batch, n)" by (cases r)
  have su: "same sha C s0 u" using inv by (simp add: obj_inv_def)
  then have cu: "cache_ok sha C u" by (simp add: same_def)
  have sv: "same sha C s0 v" using keepsD [OF keeps_tx_object [OF L] su step] .
  from step obtain got u1 where rd: "level_read L (object_key h) u = (Inr got, u1)"
    by (auto simp: tx_object_def x r bindS_ok_iff)
  have rest: "case got of Some old \<Rightarrow> old = w \<and> r' = (batch, n)
       | None \<Rightarrow> r' = (batch @ [Put (object_key h) w], n + 1)"
    using step rd by (cases got) (auto simp: tx_object_def x r bindS_ok_iff split: if_splits)
  have got: "got = C (ls_db s0) (object_key h)"
    using level_read_ok(3) [OF L cu rd refl] same_db [OF su] by simp
  show ?thesis
    using inv sv rest unfolding obj_inv_def x r got
    by (cases "C (ls_db s0) (object_key h)") (auto simp: absent_def object_puts_def)
qed

lemma map_of_absent: "map_of (absent m xs) i = (if m (object_key i) = None then map_of xs i else None)"
  by (induction xs) (auto simp: absent_def)

lemma distinct_absent: "smap_ok xs \<Longrightarrow> distinct (map fst (absent m xs))"
  unfolding absent_def by (intro smap_ok_distinct smap_ok_filter)

section \<open>The commit\<close>

text \<open>What the batch of a transaction does to the contents \<open>m\<close> of the database: \<open>xs\<close> the collected
  values, \<open>us\<close> the root updates.\<close>

definition tx_batch ::
    "(string \<rightharpoonup> bytes) \<Rightarrow> (oid \<times> bytes) list \<Rightarrow> (string, oid option) smap \<Rightarrow> u64 \<Rightarrow> u64 \<Rightarrow> u64 \<Rightarrow>
      batch_op list" where
  "tx_batch m xs us q n r = object_puts (absent m xs) @ map update_op us @ counter_ops q n r"

lemma tx_batch_after:
  assumes xs: "smap_ok xs" and us: "smap_ok us"
    and same_bytes: "\<forall>h v. (h, v) \<in> set xs \<longrightarrow> m (object_key h) = None \<or> m (object_key h) = Some v"
    and m': "m' = batch_apply (tx_batch m xs us q n r) m"
  shows after_object:
      "m' (object_key i) = (case map_of xs i of Some v \<Rightarrow> Some v | None \<Rightarrow> m (object_key i))"
    and after_root: "m' (root_name_key k) =
      (case map_of us k of None \<Rightarrow> m (root_name_key k) | Some h \<Rightarrow> map_option oid_bytes h)"
    and after_odd: "length k \<noteq> 32 \<Longrightarrow> m' (CHR ''O'' # CHR ''/'' # k) = m (CHR ''O'' # CHR ''/'' # k)"
    and after_counters: "m' ''M/sequence'' = Some (store64 q)" "m' ''M/objects'' = Some (store64 n)"
      "m' ''M/roots'' = Some (store64 r)"
    and after_header: "m' ''M/format'' = m ''M/format''" "m' ''M/repository'' = m ''M/repository''"
    and after_finite: "finite (dom m) \<Longrightarrow> finite (dom m')"
proof -
  have eq: "m' = override m (map op_entry (tx_batch m xs us q n r))"
    unfolding m' tx_batch_def
    by (rule batch_apply_override, rule distinct_tx_batch [OF distinct_absent [OF xs] us])
  then have at: "m' k = (case map_of (map op_entry (object_puts (absent m xs))) k of Some v \<Rightarrow> v
      | None \<Rightarrow> (case map_of (map (op_entry \<circ> update_op) us) k of Some v \<Rightarrow> v
      | None \<Rightarrow> override m (map op_entry (counter_ops q n r)) k))" for k
    by (simp add: tx_batch_def override_append split: option.split)
  have known: "m (object_key i) = Some v" if "map_of xs i = Some v" "m (object_key i) \<noteq> None" for v
    using that(2) same_bytes map_of_SomeD [OF that(1)] by metis
  show "m' (object_key i) = (case map_of xs i of Some v \<Rightarrow> Some v | None \<Rightarrow> m (object_key i))"
    using known unfolding at
    by (auto simp: map_of_absent counter_ops_def override_def split: option.split)
  show "m' (root_name_key k) =
      (case map_of us k of None \<Rightarrow> m (root_name_key k) | Some h \<Rightarrow> map_option oid_bytes h)"
    unfolding at by (simp add: counter_ops_def override_def split: option.split)
  show "m' (CHR ''O'' # CHR ''/'' # k) = m (CHR ''O'' # CHR ''/'' # k)" if "length k \<noteq> 32"
    using map_of_object_puts_other [OF that, of "absent m xs"]
    unfolding at by (simp add: counter_ops_def override_def)
  show "m' ''M/sequence'' = Some (store64 q)" "m' ''M/objects'' = Some (store64 n)"
      "m' ''M/roots'' = Some (store64 r)"
    by (simp_all add: at counter_ops_def override_def)
  show "m' ''M/format'' = m ''M/format''" "m' ''M/repository'' = m ''M/repository''"
    by (simp_all add: at counter_ops_def override_def)
  show "finite (dom m')" if "finite (dom m)"
    unfolding eq using that by (rule finite_dom_override)
qed

lemma db_commit_ok_iff:
  "db_commit L w ops s = (Inr u, t) \<longleftrightarrow> (\<exists>d. Write L (ls_db s) ops = (d, None) \<and> t = s\<lparr>ls_db := d\<rparr>)"
  by (auto simp: db_commit_def split: prod.splits option.splits)

lemma db_commit_okE [okE]:
  "db_commit L w ops s = (Inr u, t) \<Longrightarrow>
    (\<And>d. Write L (ls_db s) ops = (d, None) \<Longrightarrow> t = s\<lparr>ls_db := d\<rparr> \<Longrightarrow> P) \<Longrightarrow> P"
  by (auto simp: db_commit_ok_iff)

lemma db_commit_exn:
  "db_commit L w ops s = (Inl e, t) \<Longrightarrow> ls_poisoned t"
  by (auto simp: db_commit_def split: prod.splits option.splits)

lemma level_transact_ok:
  assumes run: "level_transact sha L e ms s = (Inr r, s')"
  obtains t u1 puts n u2 d where
    "foldS (tx_mutation sha L) ms \<lparr>tx_seen = [], tx_values = [], tx_updates = [], tx_total = 0,
       tx_roots = ls_roots s\<rparr> s = (Inr t, u1)"
    "foldS (tx_object L) (tx_values t) ([], ls_objects s) u1 = (Inr (puts, n), u2)"
    "Write L (ls_db u2) (puts @ map update_op (tx_updates t)
       @ counter_ops (ls_sequence s + 1) n (tx_roots t)) = (d, None)"
    "s' = u2\<lparr>ls_db := d, ls_sequence := ls_sequence u2 + 1, ls_objects := n, ls_roots := tx_roots t\<rparr>"
    "ls_sequence s \<noteq> - 1" "\<not> ls_poisoned s" "e = ls_sequence s" "ms \<noteq> []" "length ms \<le> 4096"
  using run
  apply (simp add: level_transact_def bindS_ok_iff db_commit_ok_iff needS_ok_iff
      cong: if_cong del: if_split)
  apply (elim exE conjE)
  apply (rule that, assumption, assumption, assumption, simp_all)
  done

lemma finite_roots: "disk_ok sha m \<Longrightarrow> finite {k. m (root_name_key k) \<noteq> None}"
  by (rule inj_on_finite [of root_name_key _ "dom m"]) (auto simp: disk_ok_def inj_on_def)

lemma transact_steps:
  assumes L: "ldb_laws L C" and inv: "level_inv sha C s"
    and run: "level_transact sha L e ms s = (Inr r, s')"
  obtains t u1 u2 n d where "tx_inv sha C s ms t u1"
    "obj_inv sha C s (tx_values t) (object_puts (absent (C (ls_db s)) (tx_values t)), n) u2"
    "Write L (ls_db s) (tx_batch (C (ls_db s)) (tx_values t) (tx_updates t)
       (ls_sequence s + 1) n (tx_roots t)) = (d, None)"
    "s' = u2\<lparr>ls_db := d, ls_sequence := ls_sequence s + 1, ls_objects := n, ls_roots := tx_roots t\<rparr>"
    "ls_sequence s \<noteq> - 1" "\<not> ls_poisoned s" "e = ls_sequence s" "ms \<noteq> []" "length ms \<le> 4096"
proof -
  let ?t0 = "\<lparr>tx_seen = [], tx_values = [], tx_updates = [], tx_total = 0, tx_roots = ls_roots s\<rparr>"
  from run obtain t u1 puts n u2 d where
      loop1: "foldS (tx_mutation sha L) ms ?t0 s = (Inr t, u1)"
    and loop2: "foldS (tx_object L) (tx_values t) ([], ls_objects s) u1 = (Inr (puts, n), u2)"
    and w: "Write L (ls_db u2) (puts @ map update_op (tx_updates t)
                @ counter_ops (ls_sequence s + 1) n (tx_roots t)) = (d, None)"
    and s': "s' = u2\<lparr>ls_db := d, ls_sequence := ls_sequence u2 + 1, ls_objects := n, ls_roots := tx_roots t\<rparr>"
    and guards: "ls_sequence s \<noteq> - 1" "\<not> ls_poisoned s" "e = ls_sequence s" "ms \<noteq> []" "length ms \<le> 4096"
    by (rule level_transact_ok)
  have fin: "finite {k. C (ls_db s) (root_name_key k) \<noteq> None}"
    using inv unfolding level_inv_def by (blast intro: finite_roots)
  have "tx_inv sha C s [] ?t0 s"
    using inv by (auto simp: tx_inv_def level_inv_def counts_ok_def root_count_def new_values_def
        names_after_def List.map_filter_def)
  from foldS_prefix [where P = "tx_inv sha C s", OF loop1 this tx_mutation_inv [OF L fin]]
  have t1: "tx_inv sha C s ms t u1" by simp
  then have "obj_inv sha C s [] ([], ls_objects s) u1"
    by (simp add: obj_inv_def same_def tx_inv_def absent_def object_puts_def)
  from foldS_prefix [where P = "obj_inv sha C s", OF loop2 this tx_object_inv [OF L]]
  have t2: "obj_inv sha C s (tx_values t) (puts, n) u2" by simp
  then have puts: "puts = object_puts (absent (C (ls_db s)) (tx_values t))"
    and "same sha C s u2" by (simp_all only: obj_inv_def fst_conv)
  then have "ls_db u2 = ls_db s" "ls_sequence u2 = ls_sequence s"
    by (simp_all add: same_def core_def)
  note eqs = puts this
  show thesis
  proof (rule that [OF t1])
    show "obj_inv sha C s (tx_values t) (object_puts (absent (C (ls_db s)) (tx_values t)), n) u2"
      using t2 by (simp only: eqs)
    show "Write L (ls_db s) (tx_batch (C (ls_db s)) (tx_values t) (tx_updates t)
       (ls_sequence s + 1) n (tx_roots t)) = (d, None)"
      using w by (simp only: eqs tx_batch_def)
    show "s' = u2\<lparr>ls_db := d, ls_sequence := ls_sequence s + 1, ls_objects := n,
        ls_roots := tx_roots t\<rparr>"
      using s' by (simp only: eqs)
  qed (use guards in simp_all)
qed

lemma new_values_hash: "map_of (new_values sha ms) h = Some v \<Longrightarrow> object_hash sha v = h"
  by (drule map_of_SomeD) (auto simp: new_values_def)

lemma new_values_dom:
  assumes "m \<in> set ms" "m_reference m = None" "m_value m = Some v"
  shows "map_of (new_values sha ms) (object_hash sha v) \<noteq> None"
proof -
  have "v \<in> set (List.map_filter (\<lambda>m. if m_reference m = None then m_value m else None) ms)"
    using assms by (auto simp: List.map_filter_def intro!: image_eqI [of _ _ m])
  then have "(object_hash sha v, v) \<in> set (new_values sha ms)" by (simp add: new_values_def)
  then show ?thesis by (auto dest: weak_map_of_SomeI)
qed

text \<open>The commit, as a step from the state \<open>s\<close> to the state \<open>s'\<close>.\<close>

lemma transact_disk:
  assumes L: "ldb_laws L C" and inv: "level_inv sha C s"
    and run: "level_transact sha L e ms s = (Inr r, s')"
  shows transact_objects: "C (ls_db s') (object_key i) =
      (case map_of (new_values sha ms) i of Some v \<Rightarrow> Some v | None \<Rightarrow> C (ls_db s) (object_key i))"
    and transact_roots: "C (ls_db s') (root_name_key k) =
      (case map_of (map (\<lambda>m. (m_key m, mutation_target sha m)) ms) k of
         None \<Rightarrow> C (ls_db s) (root_name_key k) | Some h \<Rightarrow> map_option oid_bytes h)"
    and transact_counters: "C (ls_db s') ''M/sequence'' = Some (store64 (ls_sequence s'))"
      "C (ls_db s') ''M/objects'' = Some (store64 (ls_objects s'))"
      "C (ls_db s') ''M/roots'' = Some (store64 (ls_roots s'))"
      "ls_sequence s' = ls_sequence s + 1" "ls_sequence s \<noteq> - 1"
    and transact_odd: "length x \<noteq> 32 \<Longrightarrow> C (ls_db s') (CHR ''O'' # CHR ''/'' # x) = C (ls_db s) (CHR ''O'' # CHR ''/'' # x)"
    and transact_header: "C (ls_db s') ''M/format'' = C (ls_db s) ''M/format''"
      "C (ls_db s') ''M/repository'' = C (ls_db s) ''M/repository''"
    and transact_finite: "finite (dom (C (ls_db s')))"
    and transact_cached: "\<exists>u. same sha C s u \<and> ls_root_cache s' = ls_root_cache u \<and>
      ls_root_cache_sequence s' = ls_root_cache_sequence u \<and> ls_object_cache s' = ls_object_cache u"
    and transact_seen: "\<forall>m \<in> set ms. \<forall>i. m_reference m = Some i \<longrightarrow> C (ls_db s) (object_key i) \<noteq> None"
    and transact_same_bytes: "map_of (new_values sha ms) h = Some v \<Longrightarrow>
      C (ls_db s) (object_key h) = None \<or> C (ls_db s) (object_key h) = Some v"
    and transact_n_objects: "\<exists>xs. ls_objects s' = ls_objects s + of_nat (length xs) \<and>
      distinct (map fst xs) \<and> (\<forall>i. map_of xs i =
        (if C (ls_db s) (object_key i) = None then map_of (new_values sha ms) i else None))"
    and transact_n_roots: "ls_roots s' =
      of_nat (card (names_after sha ms {k. C (ls_db s) (root_name_key k) \<noteq> None}))"
    and transact_distinct: "distinct (map m_key ms)"
proof -
  obtain t u1 u2 n d where t1: "tx_inv sha C s ms t u1"
    and t2: "obj_inv sha C s (tx_values t) (object_puts (absent (C (ls_db s)) (tx_values t)), n) u2"
    and w: "Write L (ls_db s) (tx_batch (C (ls_db s)) (tx_values t) (tx_updates t)
       (ls_sequence s + 1) n (tx_roots t)) = (d, None)"
    and s': "s' = u2\<lparr>ls_db := d, ls_sequence := ls_sequence s + 1, ls_objects := n,
       ls_roots := tx_roots t\<rparr>"
    and seq: "ls_sequence s \<noteq> - 1" and "\<not> ls_poisoned s" "e = ls_sequence s" "ms \<noteq> []"
      "length ms \<le> 4096"
    by (rule transact_steps [OF L inv run])
  note facts = t1 [unfolded tx_inv_def]
  have xs: "smap_ok (tx_values t)" and us: "smap_ok (tx_updates t)"
    and vals: "map_of (new_values sha ms) = map_of (tx_values t)"
    and upds: "map_of (map (\<lambda>m. (m_key m, mutation_target sha m)) ms) = map_of (tx_updates t)"
    using facts by simp_all
  have sb: "\<forall>h v. (h, v) \<in> set (tx_values t) \<longrightarrow>
      C (ls_db s) (object_key h) = None \<or> C (ls_db s) (object_key h) = Some v"
    using t2 unfolding obj_inv_def by blast
  have d: "C (ls_db s') = batch_apply (tx_batch (C (ls_db s)) (tx_values t) (tx_updates t)
       (ls_sequence s + 1) n (tx_roots t)) (C (ls_db s))"
    using ldb_write [OF L w] s' by simp
  note after = tx_batch_after [OF xs us sb d]
  show "C (ls_db s') (object_key i) = (case map_of (new_values sha ms) i of Some v \<Rightarrow> Some v
      | None \<Rightarrow> C (ls_db s) (object_key i))"
    unfolding vals by (rule after)
  show "C (ls_db s') (root_name_key k) = (case map_of (map (\<lambda>m. (m_key m, mutation_target sha m)) ms) k of
         None \<Rightarrow> C (ls_db s) (root_name_key k) | Some h \<Rightarrow> map_option oid_bytes h)"
    unfolding upds by (rule after)
  show "C (ls_db s') ''M/sequence'' = Some (store64 (ls_sequence s'))"
      "C (ls_db s') ''M/objects'' = Some (store64 (ls_objects s'))"
      "C (ls_db s') ''M/roots'' = Some (store64 (ls_roots s'))"
    unfolding after(4-6) by (simp_all add: s')
  show "C (ls_db s') ''M/format'' = C (ls_db s) ''M/format''"
      "C (ls_db s') ''M/repository'' = C (ls_db s) ''M/repository''"
    by (rule after)+
  show "ls_sequence s' = ls_sequence s + 1" "ls_sequence s \<noteq> - 1" using s' seq by simp_all
  show "C (ls_db s') (CHR ''O'' # CHR ''/'' # x) = C (ls_db s) (CHR ''O'' # CHR ''/'' # x)" if "length x \<noteq> 32"
    using that by (rule after)
  show "finite (dom (C (ls_db s')))"
    using inv by (intro after) (simp add: level_inv_def disk_ok_def)
  have "same sha C s u2" using t2 unfolding obj_inv_def by blast
  then show "\<exists>u. same sha C s u \<and> ls_root_cache s' = ls_root_cache u \<and>
      ls_root_cache_sequence s' = ls_root_cache_sequence u \<and> ls_object_cache s' = ls_object_cache u"
    unfolding s' by (intro exI [of _ u2]) simp
  show "\<forall>m \<in> set ms. \<forall>i. m_reference m = Some i \<longrightarrow> C (ls_db s) (object_key i) \<noteq> None"
    "distinct (map m_key ms)"
    using facts by blast+
  show "C (ls_db s) (object_key h) = None \<or> C (ls_db s) (object_key h) = Some v"
    if "map_of (new_values sha ms) h = Some v"
    using sb map_of_SomeD [OF that [unfolded vals]] by metis
  have "ls_objects s' = ls_objects s + of_nat (length (absent (C (ls_db s)) (tx_values t)))"
    using t2 unfolding obj_inv_def s' by simp
  then show "\<exists>xs. ls_objects s' = ls_objects s + of_nat (length xs) \<and>
      distinct (map fst xs) \<and> (\<forall>i. map_of xs i =
        (if C (ls_db s) (object_key i) = None then map_of (new_values sha ms) i else None))"
    unfolding vals using distinct_absent [OF xs] map_of_absent by blast
  show "ls_roots s' = of_nat (card (names_after sha ms {k. C (ls_db s) (root_name_key k) \<noteq> None}))"
    using facts unfolding s' by simp
qed

lemma repo_eq_iff: "(r :: repo) = r' \<longleftrightarrow>
    (\<forall>i. r_objects r i = r_objects r' i) \<and> (\<forall>k. r_roots r k = r_roots r' k) \<and> r_seq r = r_seq r'"
  by (cases r; cases r') (simp add: fun_eq_iff)

lemma transact_repo:
  assumes "ldb_laws L C" and "level_inv sha C s" and "level_transact sha L e ms s = (Inr r, s')"
  shows "level_repo C s' = repo_commit sha ms (level_repo C s)"
  unfolding repo_eq_iff
  by (simp add: level_repo_def repo_commit_def transact_objects [OF assms] transact_roots [OF assms]
      transact_counters [OF assms] override_def map_add_def option.map_comp comp_def option.map_ident
      split: option.split)

lemma transact_keeps_objects:
  assumes "ldb_laws L C" and "level_inv sha C s" and "level_transact sha L e ms s = (Inr r, s')"
    and stored: "C (ls_db s) (object_key i) = Some b"
  shows "C (ls_db s') (object_key i) = Some b"
  using transact_same_bytes [OF assms(1-3), of i] stored
  unfolding transact_objects [OF assms(1-3)] by (cases "map_of (new_values sha ms) i") auto

lemma transact_cache_ok:
  assumes asm: "ldb_laws L C" "level_inv sha C s" "level_transact sha L e ms s = (Inr r, s')"
  shows "cache_ok sha C s'"
proof -
  obtain u where u: "same sha C s u" and eqs: "ls_root_cache s' = ls_root_cache u"
    "ls_root_cache_sequence s' = ls_root_cache_sequence u" "ls_object_cache s' = ls_object_cache u"
    using transact_cached [OF asm] by metis
  have db: "ls_db u = ls_db s" "ls_sequence u = ls_sequence s" and c: "cache_ok sha C u"
    using u by (simp_all add: same_def core_def)
  have next_seq: "ls_sequence s < ls_sequence s'"
    using transact_counters(4,5) [OF asm] by (simp add: u64_less_succ)
  have rc: "ls_root_cache u = [] \<or> ls_root_cache_sequence u \<le> ls_sequence s"
    using c db by (simp add: cache_ok_def)
  have oc: "C (ls_db s) (object_key i) = Some b \<and> object_hash sha b = i"
    if "ls_object_cache u i = Some b" for i b
    using c that unfolding cache_ok_def db by metis
  show ?thesis
    unfolding cache_ok_def eqs
    using rc next_seq oc transact_keeps_objects [OF asm]
    by (auto simp del: append_Cons append_Nil)
qed

lemma transact_root_target:
  assumes asm: "ldb_laws L C" "level_inv sha C s" "level_transact sha L e ms s = (Inr r, s')"
    and v: "C (ls_db s') (root_name_key k) = Some v"
  shows "\<exists>i. v = oid_bytes i \<and> C (ls_db s') (object_key i) \<noteq> None"
proof (cases "map_of (map (\<lambda>m. (m_key m, mutation_target sha m)) ms) k")
  case None
  then have "C (ls_db s) (root_name_key k) = Some v" using v transact_roots [OF asm] by simp
  then have len: "length v = 32" and "C (ls_db s) (CHR ''O'' # CHR ''/'' # v) \<noteq> None"
    using asm(2) unfolding level_inv_def disk_ok_def by metis+
  with transact_keeps_objects [OF asm, of "oid_of_bytes v"] show ?thesis
    by (intro exI [of _ "oid_of_bytes v"]) (auto simp: oid_bytes_inverse)
next
  case (Some h)
  then obtain i where h: "h = Some i" "v = oid_bytes i" using v transact_roots [OF asm] by (cases h) auto
  then obtain m where m: "m \<in> set ms" "mutation_target sha m = Some i"
    using map_of_SomeD [OF Some] by auto
  have "C (ls_db s') (object_key i) \<noteq> None"
  proof (cases "m_reference m")
    case None
    with m obtain w where "m_value m = Some w" "object_hash sha w = i"
      by (auto simp: mutation_target_def)
    with new_values_dom [OF m(1) None, of w sha] show ?thesis
      unfolding transact_objects [OF asm] by auto
  next
    case (Some j)
    then have "C (ls_db s) (object_key i) \<noteq> None"
      using m transact_seen [OF asm] by (simp add: mutation_target_def)
    then show ?thesis using transact_keeps_objects [OF asm, of i] by auto
  qed
  with h show ?thesis by blast
qed

lemma transact_disk_ok:
  assumes asm: "ldb_laws L C" "level_inv sha C s" "level_transact sha L e ms s = (Inr r, s')"
  shows "disk_ok sha (C (ls_db s'))"
proof -
  have old: "disk_ok sha (C (ls_db s))" using asm(2) by (simp add: level_inv_def)
  show ?thesis
    unfolding disk_ok_def
  proof (intro conjI allI impI)
    show "finite (dom (C (ls_db s')))" by (rule transact_finite [OF asm])
    show "object_hash sha b = i" if "C (ls_db s') (object_key i) = Some b" for i b
      using that old new_values_hash [of sha ms i b] unfolding transact_objects [OF asm] disk_ok_def
      by (auto split: option.splits)
    show "length k = 32" if "C (ls_db s') (CHR ''O'' # CHR ''/'' # k) \<noteq> None" for k
      using that old transact_odd [OF asm, of k] unfolding disk_ok_def by metis
  next
    fix k v
    assume v: "C (ls_db s') (root_name_key k) = Some v"
    show "length v = 32" and "C (ls_db s') (CHR ''O'' # CHR ''/'' # v) \<noteq> None"
      using transact_root_target [OF asm v] by auto
  qed
qed

lemma transact_counts_ok:
  assumes asm: "ldb_laws L C" "level_inv sha C s" "level_transact sha L e ms s = (Inr r, s')"
  shows "counts_ok C s'"
proof -
  obtain xs where n: "ls_objects s' = ls_objects s + of_nat (length xs)" and d: "distinct (map fst xs)"
    and xs: "\<And>i. map_of xs i =
        (if C (ls_db s) (object_key i) = None then map_of (new_values sha ms) i else None)"
    using transact_n_objects [OF asm] by metis
  let ?O = "{i. C (ls_db s) (object_key i) \<noteq> None}"
  have "C (ls_db s') (object_key i) \<noteq> None \<longleftrightarrow> C (ls_db s) (object_key i) \<noteq> None \<or> map_of xs i \<noteq> None" for i
    unfolding transact_objects [OF asm] by (auto simp: xs split: option.split)
  then have "{i. C (ls_db s') (object_key i) \<noteq> None} = ?O \<union> dom (map_of xs)" by (auto simp: dom_def)
  moreover have "?O \<inter> dom (map_of xs) = {}" by (auto simp: xs split: if_splits)
  moreover have "card (dom (map_of xs)) = length xs"
    using d by (simp add: dom_map_of_conv_image_fst distinct_card flip: set_map)
  ultimately have objects: "object_count (C (ls_db s')) = object_count (C (ls_db s)) + length xs"
    unfolding object_count_def by (simp add: card_Un_disjoint)
  have "{k. C (ls_db s') (root_name_key k) \<noteq> None} =
      names_after sha ms {k. C (ls_db s) (root_name_key k) \<noteq> None}"
    unfolding transact_roots [OF asm]
    by (auto simp: names_after_iff [OF transact_distinct [OF asm]] split: option.splits)
  then have roots: "ls_roots s' = of_nat (root_count (C (ls_db s')))"
    unfolding root_count_def transact_n_roots [OF asm] by simp
  show ?thesis
    using asm(2) n roots transact_counters(1-3) [OF asm]
    by (simp add: counts_ok_def level_inv_def objects)
qed

lemma level_inv_same: "same sha C s u \<Longrightarrow> level_inv sha C s \<Longrightarrow> level_inv sha C u"
  by (simp add: same_def core_def level_inv_def counts_ok_def)

lemma db_commit_throws [throwing]:
  "throws_in P (\<lambda>t. Q t \<or> ls_poisoned t) (bindS (db_commit L w ops) (\<lambda>_. modifyS f))"
  unfolding throws_in_def bindS_exn_iff by (auto dest: db_commit_exn)

lemma transact_throws:
  assumes "ldb_laws L C"
  shows "throws_in (same sha C s) (\<lambda>t. same sha C s t \<or> ls_poisoned t) (level_transact sha L e ms)"
  unfolding level_transact_def
  by (intro throws_in_bind keeping throwing assms) auto

section \<open>Verification\<close>

definition entry_ok :: "(bytes \<Rightarrow> oid) \<Rightarrow> (string \<rightharpoonup> bytes) \<Rightarrow> string \<times> bytes \<Rightarrow> bool" where
  "entry_ok sha m = (\<lambda>(k, v).
     if prefix ''O/'' k then length k = 34 \<and> object_hash sha v = oid_of_bytes (drop 2 k)
     else if prefix ''R/'' k then length v = 32 \<and> m (CHR ''O'' # CHR ''/'' # v) \<noteq> None
     else k \<in> {''M/format'', ''M/repository'', ''M/sequence'', ''M/objects'', ''M/roots''})"

definition verify_inv ::
    "(bytes \<Rightarrow> oid) \<Rightarrow> ('db \<Rightarrow> string \<rightharpoonup> bytes) \<Rightarrow> 'db level_store \<Rightarrow> (string \<times> bytes) list \<Rightarrow>
      u64 \<times> u64 \<Rightarrow> 'db level_store \<Rightarrow> bool" where
  "verify_inv sha C s zs r u \<longleftrightarrow> same sha C s u \<and>
     fst r = of_nat (length (filter (\<lambda>kv. prefix ''R/'' (fst kv)) zs)) \<and>
     snd r = of_nat (length (filter (\<lambda>kv. prefix ''O/'' (fst kv)) zs)) \<and>
     list_all (entry_ok sha (C (ls_db s))) zs"

lemma prefix_O_not_R: "prefix ''O/'' k \<Longrightarrow> \<not> prefix ''R/'' k"
  by (cases k) auto

lemma verify_entry_inv:
  assumes L: "ldb_laws L C" and inv: "verify_inv sha C s zs r u"
    and step: "verify_entry sha L kv r u = (Inr r', v)"
  shows "verify_inv sha C s (zs @ [kv]) r' v"
proof -
  obtain k w where kv: "kv = (k, w)" by (cases kv)
  obtain nr no where r: "r = (nr, no)" by (cases r)
  have su: "same sha C s u" using inv by (simp add: verify_inv_def)
  then have cu: "cache_ok sha C u" and db: "ls_db u = ls_db s" by (simp_all add: same_def core_def)
  consider (object) "prefix ''O/'' k" | (root) "prefix ''R/'' k" "\<not> prefix ''O/'' k"
    | (other) "\<not> prefix ''O/'' k" "\<not> prefix ''R/'' k" by blast
  then show ?thesis
  proof cases
    case object
    then have "v = u" "r' = (nr, no + 1)" "length k = 34" "object_hash sha w = oid_of_bytes (drop 2 k)"
      using step by (auto simp: verify_entry_def kv r bindS_ok_iff needS_ok_iff oid_of_value_def)
    with inv object prefix_O_not_R [OF object] show ?thesis
      by (simp add: verify_inv_def kv r entry_ok_def)
  next
    case root
    then obtain b where ob: "level_object sha L (oid_of_bytes w) u = (Inr b, v)"
      and r': "r' = (nr + 1, no)" and len: "length w = 32"
      using step by (auto simp: verify_entry_def kv r bindS_ok_iff needS_ok_iff oid_of_value_def)
    have "same sha C s v" using keepsD [OF keeps_level_reads(3) [OF L] su ob] .
    moreover have "C (ls_db s) (CHR ''O'' # CHR ''/'' # w) \<noteq> None"
      using level_object_ok(3) [OF L cu ob refl] db len by (simp add: oid_bytes_inverse)
    ultimately show ?thesis
      using inv root r' len by (simp add: verify_inv_def kv r entry_ok_def)
  next
    case other
    then have "v = u" "r' = r" "k \<in> {''M/format'', ''M/repository'', ''M/sequence'', ''M/objects'', ''M/roots''}"
      using step by (auto simp: verify_entry_def kv r needS_ok_iff)
    with inv other show ?thesis by (simp add: verify_inv_def kv entry_ok_def)
  qed
qed

lemma card_keys:
  assumes "smap_ok kvs" and "\<And>x v. (x, v) \<in> set kvs \<longleftrightarrow> m x = Some v" and "inj f"
    and "\<And>k. m k \<noteq> None \<Longrightarrow> P k \<longleftrightarrow> k \<in> range f"
  shows "card {i. m (f i) \<noteq> None} = length (filter (\<lambda>kv. P (fst kv)) kvs)"
proof -
  let ?hits = "filter (\<lambda>kv. P (fst kv)) kvs"
  have "f ` {i. m (f i) \<noteq> None} = fst ` set ?hits"
  proof (intro set_eqI iffI)
    fix k assume "k \<in> f ` {i. m (f i) \<noteq> None}"
    then obtain v where "m k = Some v" "k \<in> range f" by auto
    then show "k \<in> fst ` set ?hits" using assms(2) [of k v] assms(4) [of k] by force
  next
    fix k assume "k \<in> fst ` set ?hits"
    then obtain v where "(k, v) \<in> set kvs" "P k" by auto
    then show "k \<in> f ` {i. m (f i) \<noteq> None}" using assms(2) [of k v] assms(4) [of k] by auto
  qed
  moreover have "card (fst ` set ?hits) = length ?hits"
    using smap_ok_distinct [OF smap_ok_filter [OF assms(1)]] by (metis distinct_card length_map set_map)
  moreover have "inj_on f {i. m (f i) \<noteq> None}" using assms(3) by (rule inj_on_subset) simp
  ultimately show ?thesis by (metis card_image)
qed

lemma entry_ok_object_key:
  assumes "entry_ok sha m (k, v)"
  shows "prefix ''O/'' k \<longleftrightarrow> k \<in> range object_key"
proof
  assume p: "prefix ''O/'' k"
  then obtain x where x: "k = CHR ''O'' # CHR ''/'' # x" by (auto simp: prefix_def)
  then have "x = oid_bytes (oid_of_bytes x)" using p assms by (simp add: entry_ok_def oid_bytes_inverse)
  then have "k = object_key (oid_of_bytes x)" using x by simp
  then show "k \<in> range object_key" by (rule range_eqI)
qed auto

lemma verified:
  assumes L: "ldb_laws L C" and c: "cache_ok sha C s" and run: "level_verify sha L s = (Inr r, s')"
  obtains kvs where "smap_ok kvs" "\<forall>x v. (x, v) \<in> set kvs \<longleftrightarrow> C (ls_db s) x = Some v"
    "verify_inv sha C s kvs (ls_roots s, ls_objects s) s'"
proof -
  obtain kvs st where seek: "Seek L (ls_db s) [] = (kvs, st)" by (cases "Seek L (ls_db s) []")
  from run obtain nr no where fold: "foldS (verify_entry sha L) kvs (0, 0) s = (Inr (nr, no), s')"
    and st: "st = None" and n: "nr = ls_roots s" "no = ls_objects s"
    by (auto simp: level_verify_def bindS_ok_iff seek needS_ok_iff split: option.splits)
  have "verify_inv sha C s [] (0, 0) s" using c by (simp add: verify_inv_def same_refl)
  from foldS_prefix [where P = "verify_inv sha C s", OF fold this verify_entry_inv [OF L]]
  have "verify_inv sha C s kvs (ls_roots s, ls_objects s) s'" using n by simp
  then show thesis
    using that [of kvs] ldb_seek_ok [OF L] ldb_seek [OF L] seek st by simp
qed

lemma verified_disk:
  assumes asm: "ldb_laws L C" "cache_ok sha C s" "level_verify sha L s = (Inr r, s')"
  shows "disk_ok sha (C (ls_db s))" "ls_objects s = of_nat (object_count (C (ls_db s)))"
    "ls_roots s = of_nat (root_count (C (ls_db s)))" "same sha C s s'"
proof -
  let ?m = "C (ls_db s)"
  obtain kvs where "smap_ok kvs" "\<forall>x v. (x, v) \<in> set kvs \<longleftrightarrow> ?m x = Some v"
    and inv: "verify_inv sha C s kvs (ls_roots s, ls_objects s) s'"
    by (rule verified [OF asm])
  note kvs = this(1) this(2) [rule_format]
  have ok: "entry_ok sha ?m (k, v)" if "?m k = Some v" for k v
    using inv kvs(2) that unfolding verify_inv_def list_all_iff by metis
  have "dom ?m \<subseteq> fst ` set kvs" using kvs(2) by force
  then have "finite (dom ?m)" by (rule finite_subset) simp
  then show "disk_ok sha ?m" unfolding disk_ok_def using ok by (fastforce simp: entry_ok_def)
  have "object_count ?m = length (filter (\<lambda>kv. prefix ''O/'' (fst kv)) kvs)"
    unfolding object_count_def
    by (rule card_keys [OF kvs]) (auto simp: inj_on_def dest!: ok entry_ok_object_key)
  moreover have "root_count ?m = length (filter (\<lambda>kv. prefix ''R/'' (fst kv)) kvs)"
    unfolding root_count_def by (rule card_keys [OF kvs]) (auto simp: inj_on_def prefix_def)
  ultimately show "ls_objects s = of_nat (object_count ?m)" "ls_roots s = of_nat (root_count ?m)"
    "same sha C s s'"
    using inv by (simp_all add: verify_inv_def)
qed

section \<open>Physical collection\<close>

lemma batch_apply_append: "batch_apply (a @ b) m = batch_apply b (batch_apply a m)"
  by (simp add: batch_apply_def)

lemma batch_apply_deletes:
  "batch_apply (map Delete ks) m = (\<lambda>k. if k \<in> set ks then None else m k)"
  by (induction ks arbitrary: m) (auto simp: batch_apply_def)

lemma batch_apply_root_deletes:
  "batch_apply (map (\<lambda>key. Delete (root_name_key key)) ks) m =
    (\<lambda>k. if k \<in> root_name_key ` set ks then None else m k)"
  by (induction ks arbitrary: m) (auto simp: batch_apply_def fun_eq_iff)

lemma batch_apply_counters:
  "batch_apply (counter_ops q n r) m = m(''M/sequence'' \<mapsto> store64 q, ''M/objects'' \<mapsto> store64 n,
     ''M/roots'' \<mapsto> store64 r)"
  by (simp add: batch_apply_def counter_ops_def)

definition dead :: "oid set \<Rightarrow> (string \<times> bytes) list \<Rightarrow> string list" where
  "dead live kvs = map fst (filter (\<lambda>kv. oid_of_bytes (drop 2 (fst kv)) \<notin> live) kvs)"

lemma collect_objects_fold:
  "foldR (collect_object live) kvs (ops, n) = Inr (ops', n') \<Longrightarrow>
    ops' = ops @ map Delete (dead live kvs) \<and> n' = n + length (dead live kvs) \<and>
    (\<forall>kv \<in> set kvs. length (fst kv) = 34)"
proof (induction kvs arbitrary: ops n)
  case (Cons kv kvs)
  obtain k v where kv: "kv = (k, v)" by (cases kv)
  show ?case
  proof (cases "oid_of_bytes (drop 2 k) \<in> live")
    case True
    with Cons.prems have "length k = 34" "foldR (collect_object live) kvs (ops, n) = Inr (ops', n')"
      by (auto simp: kv collect_object_def split: if_splits)
    with Cons.IH [of ops n] True show ?thesis by (simp add: kv dead_def)
  next
    case False
    with Cons.prems have "length k = 34"
      "foldR (collect_object live) kvs (ops @ [Delete k], n + 1) = Inr (ops', n')"
      by (auto simp: kv collect_object_def split: if_splits)
    with Cons.IH [of "ops @ [Delete k]" "n + 1"] False show ?thesis by (simp add: kv dead_def)
  qed
qed (simp add: dead_def)

lemma fold_checks:
  assumes "foldS (\<lambda>x _. bindS (f x) (\<lambda>got. needS (g got) msg (returnS ()))) xs () s = (Inr u, t)"
    and "P s" and "\<And>x. keeps P (f x)"
    and "\<And>x s got t. P s \<Longrightarrow> f x s = (Inr got, t) \<Longrightarrow> g got \<Longrightarrow> Q x"
  shows "P t \<and> (\<forall>x \<in> set xs. Q x)"
  using assms(1,2)
proof (induction xs arbitrary: s)
  case (Cons x xs)
  then obtain got t1 where x: "f x s = (Inr got, t1)" "g got"
    and rest: "foldS (\<lambda>x _. bindS (f x) (\<lambda>got. needS (g got) msg (returnS ()))) xs () t1 = (Inr u, t)"
    by (auto simp: bindS_ok_iff needS_ok_iff)
  from Cons.IH [OF rest keepsD [OF assms(3) Cons.prems(2) x(1)]] assms(4) [OF Cons.prems(2) x]
  show ?case by simp
qed simp

lemma level_collect_ok:
  assumes run: "level_collect sha L e live obsolete s = (Inr r, s')"
  obtains kvs x1 x2 u1 u2 ops d where
    "foldS (\<lambda>h _. bindS (level_read L (object_key h)) (\<lambda>got.
       needS (got \<noteq> None) ''GC live object missing'' (returnS ()))) live () s = (Inr x1, u1)"
    "foldR (collect_object (set live)) (takeWhile (\<lambda>kv. prefix ''O/'' (fst kv)) kvs) ([], 0) = Inr (ops, r)"
    "Seek L (ls_db s) ''O/'' = (kvs, None)"
    "foldS (\<lambda>key _. bindS (level_contains L key) (\<lambda>present.
       needS present ''GC root disappeared'' (returnS ()))) obsolete () u1 = (Inr x2, u2)"
    "r \<le> unat (ls_objects s)" "length obsolete \<le> unat (ls_roots s)"
    "Write L (ls_db u2) (ops @ map (\<lambda>key. Delete (root_name_key key)) obsolete
       @ counter_ops (ls_sequence s + 1) (ls_objects s - of_nat r) (ls_roots s - of_nat (length obsolete))) = (d, None)"
    "s' = u2\<lparr>ls_db := d, ls_sequence := ls_sequence s + 1, ls_objects := ls_objects s - of_nat r,
       ls_roots := ls_roots s - of_nat (length obsolete),
       ls_object_cache := Cache_prune L (ls_object_cache u2)\<rparr>"
    "e = ls_sequence s" "ls_sequence s \<noteq> - 1" "\<not> ls_poisoned s"
  using run unfolding level_collect_def Let_def
  apply (elim okE conjE)
  apply hypsubst
  apply (rule that)
  apply (assumption | (erule trans, simp (no_asm)))+
  done

lemma collect_steps:
  assumes L: "ldb_laws L C" and c: "cache_ok sha C s"
    and run: "level_collect sha L e live obsolete s = (Inr r, s')"
  obtains u d found where "same sha C s u" "\<forall>h \<in> set live. C (ls_db s) (object_key h) \<noteq> None"
    "\<forall>k \<in> set obsolete. C (ls_db s) (root_name_key k) \<noteq> None" "smap_ok found"
    "\<forall>x v. (x, v) \<in> set found \<longleftrightarrow> prefix ''O/'' x \<and> C (ls_db s) x = Some v"
    "\<forall>kv \<in> set found. length (fst kv) = 34" "r = length (dead (set live) found)"
    "r \<le> unat (ls_objects s)" "length obsolete \<le> unat (ls_roots s)"
    "C d = batch_apply (map Delete (dead (set live) found) @ map (\<lambda>key. Delete (root_name_key key)) obsolete
       @ counter_ops (e + 1) (ls_objects s - of_nat r) (ls_roots s - of_nat (length obsolete))) (C (ls_db s))"
    "s' = u\<lparr>ls_db := d, ls_sequence := e + 1, ls_objects := ls_objects s - of_nat r,
       ls_roots := ls_roots s - of_nat (length obsolete), ls_object_cache := Map.empty\<rparr>"
    "e = ls_sequence s" "e \<noteq> - 1" "\<not> ls_poisoned s"
proof -
  obtain kvs x1 x2 u1 u2 ops d where
      f1: "foldS (\<lambda>h _. bindS (level_read L (object_key h)) (\<lambda>got.
       needS (got \<noteq> None) ''GC live object missing'' (returnS ()))) live () s = (Inr x1, u1)"
    and f2: "foldR (collect_object (set live)) (takeWhile (\<lambda>kv. prefix ''O/'' (fst kv)) kvs) ([], 0) = Inr (ops, r)"
    and seek: "Seek L (ls_db s) ''O/'' = (kvs, None)"
    and f3: "foldS (\<lambda>key _. bindS (level_contains L key) (\<lambda>present.
       needS present ''GC root disappeared'' (returnS ()))) obsolete () u1 = (Inr x2, u2)"
    and le: "r \<le> unat (ls_objects s)" "length obsolete \<le> unat (ls_roots s)"
    and w: "Write L (ls_db u2) (ops @ map (\<lambda>key. Delete (root_name_key key)) obsolete
       @ counter_ops (ls_sequence s + 1) (ls_objects s - of_nat r) (ls_roots s - of_nat (length obsolete))) = (d, None)"
    and s': "s' = u2\<lparr>ls_db := d, ls_sequence := ls_sequence s + 1, ls_objects := ls_objects s - of_nat r,
       ls_roots := ls_roots s - of_nat (length obsolete),
       ls_object_cache := Cache_prune L (ls_object_cache u2)\<rparr>"
    and guards: "e = ls_sequence s" "ls_sequence s \<noteq> - 1" "\<not> ls_poisoned s"
    by (rule level_collect_ok [OF run])
  let ?found = "takeWhile (\<lambda>kv. prefix ''O/'' (fst kv)) kvs"
  have ok: "smap_ok kvs" and kvs: "\<And>x v. (x, v) \<in> set kvs \<longleftrightarrow> ''O/'' \<le> x \<and> C (ls_db s) x = Some v"
    using ldb_seek_ok [OF L seek] ldb_seek [OF L seek] by auto
  have flt: "?found = filter (\<lambda>kv. prefix ''O/'' (fst kv)) kvs"
    using ok kvs by (intro takeWhile_prefix) auto
  have r1: "same sha C s u1 \<and> (\<forall>h \<in> set live. C (ls_db s) (object_key h) \<noteq> None)"
  proof (rule fold_checks [OF f1 same_refl [OF c] keeps_level_reads(1) [OF L]])
    show "C (ls_db s) (object_key x) \<noteq> None"
      if "same sha C s t" "level_read L (object_key x) t = (Inr got, t')" "got \<noteq> None" for x t got t'
      using level_read_ok(3) [where sha = sha, OF L _ that(2) refl] that(1,3) same_db [OF that(1)]
      unfolding same_def by metis
  qed
  have r2: "same sha C s u2 \<and> (\<forall>k \<in> set obsolete. C (ls_db s) (root_name_key k) \<noteq> None)"
  proof (rule fold_checks [OF f3 _ keeps_level_reads(2) [OF L]])
    show "same sha C s u1" using r1 by blast
    show "C (ls_db s) (root_name_key x) \<noteq> None"
      if "same sha C s t" "level_contains L x t = (Inr got, t')" got for x t got t'
      using level_contains_ok(3) [where sha = sha, OF L _ that(2) refl] that(1,3) same_db [OF that(1)]
      unfolding same_def by metis
  qed
  note f2' = collect_objects_fold [OF f2]
  have db: "ls_db u2 = ls_db s" using r2 same_db by metis
  show thesis
  proof (rule that [of u2 ?found d])
    show "smap_ok ?found" unfolding flt by (rule smap_ok_filter [OF ok])
    show "\<forall>x v. (x, v) \<in> set ?found \<longleftrightarrow> prefix ''O/'' x \<and> C (ls_db s) x = Some v"
      unfolding flt using kvs prefix_le [of "''O/''"] by auto
    show "C d = batch_apply (map Delete (dead (set live) ?found) @ map (\<lambda>key. Delete (root_name_key key)) obsolete
       @ counter_ops (e + 1) (ls_objects s - of_nat r) (ls_roots s - of_nat (length obsolete))) (C (ls_db s))"
      using ldb_write [OF L w] f2' db guards by simp
    show "s' = u2\<lparr>ls_db := d, ls_sequence := e + 1, ls_objects := ls_objects s - of_nat r,
       ls_roots := ls_roots s - of_nat (length obsolete), ls_object_cache := Map.empty\<rparr>"
      unfolding s' ldb_cache_prune [OF L] guards ..
  qed (use r1 r2 f2' le guards in simp_all)
qed

lemma collect_disk:
  assumes L: "ldb_laws L C" and c: "cache_ok sha C s"
    and run: "level_collect sha L e live obsolete s = (Inr r, s')"
  shows collect_objects: "C (ls_db s') (object_key i) =
      (if i \<in> set live then C (ls_db s) (object_key i) else None)"
    and collect_roots: "C (ls_db s') (root_name_key k) =
      (if k \<in> set obsolete then None else C (ls_db s) (root_name_key k))"
    and collect_raw: "C (ls_db s') (CHR ''O'' # x) \<noteq> None \<Longrightarrow> C (ls_db s) (CHR ''O'' # x) \<noteq> None"
    and collect_counters: "C (ls_db s') ''M/sequence'' = Some (store64 (ls_sequence s'))"
      "C (ls_db s') ''M/objects'' = Some (store64 (ls_objects s'))"
      "C (ls_db s') ''M/roots'' = Some (store64 (ls_roots s'))"
      "ls_sequence s' = ls_sequence s + 1" "ls_sequence s \<noteq> - 1"
    and collect_cached: "\<exists>u. same sha C s u \<and> ls_root_cache s' = ls_root_cache u \<and>
      ls_root_cache_sequence s' = ls_root_cache_sequence u" "ls_object_cache s' = Map.empty"
    and collect_live: "h \<in> set live \<Longrightarrow> C (ls_db s) (object_key h) \<noteq> None"
    and collect_obsolete: "k \<in> set obsolete \<Longrightarrow> C (ls_db s) (root_name_key k) \<noteq> None"
    and collect_finite: "finite (dom (C (ls_db s))) \<Longrightarrow> finite (dom (C (ls_db s')))"
    and collect_count: "r = card {i. C (ls_db s) (object_key i) \<noteq> None \<and> i \<notin> set live}"
    and collect_counts: "ls_objects s' = ls_objects s - of_nat r" "r \<le> unat (ls_objects s)"
      "ls_roots s' = ls_roots s - of_nat (length obsolete)" "length obsolete \<le> unat (ls_roots s)"
proof -
  obtain u d found where su: "same sha C s u"
    and lv: "\<forall>h \<in> set live. C (ls_db s) (object_key h) \<noteq> None"
    and ob: "\<forall>k \<in> set obsolete. C (ls_db s) (root_name_key k) \<noteq> None"
    and ok: "smap_ok found"
    and found: "\<forall>x v. (x, v) \<in> set found \<longleftrightarrow> prefix ''O/'' x \<and> C (ls_db s) x = Some v"
    and len: "\<forall>kv \<in> set found. length (fst kv) = 34" and r: "r = length (dead (set live) found)"
    and le: "r \<le> unat (ls_objects s)" "length obsolete \<le> unat (ls_roots s)"
    and d: "C d = batch_apply (map Delete (dead (set live) found)
        @ map (\<lambda>key. Delete (root_name_key key)) obsolete
        @ counter_ops (e + 1) (ls_objects s - of_nat r) (ls_roots s - of_nat (length obsolete))) (C (ls_db s))"
    and s': "s' = u\<lparr>ls_db := d, ls_sequence := e + 1, ls_objects := ls_objects s - of_nat r,
       ls_roots := ls_roots s - of_nat (length obsolete), ls_object_cache := Map.empty\<rparr>"
    and seq: "e = ls_sequence s" "e \<noteq> - 1" and "\<not> ls_poisoned s"
    by (rule collect_steps [OF L c run])
  let ?dead = "dead (set live) found"
  have dead: "x \<in> set ?dead \<longleftrightarrow> prefix ''O/'' x \<and> C (ls_db s) x \<noteq> None \<and> oid_of_bytes (drop 2 x) \<notin> set live" for x
  proof -
    have "x \<in> set ?dead \<longleftrightarrow> (\<exists>v. (x, v) \<in> set found) \<and> oid_of_bytes (drop 2 x) \<notin> set live"
      by (force simp: dead_def)
    also have "(\<exists>v. (x, v) \<in> set found) \<longleftrightarrow> prefix ''O/'' x \<and> C (ls_db s) x \<noteq> None"
      unfolding found [rule_format] by blast
    finally show ?thesis by blast
  qed
  have at: "C (ls_db s') x = (if x = ''M/roots'' then Some (store64 (ls_roots s'))
      else if x = ''M/objects'' then Some (store64 (ls_objects s'))
      else if x = ''M/sequence'' then Some (store64 (ls_sequence s'))
      else if x \<in> set ?dead \<or> x \<in> root_name_key ` set obsolete then None else C (ls_db s) x)" for x
    by (simp add: s' d batch_apply_append batch_apply_deletes batch_apply_root_deletes
        batch_apply_counters)
  show "C (ls_db s') (object_key i) = (if i \<in> set live then C (ls_db s) (object_key i) else None)"
    by (auto simp: at dead)
  show "C (ls_db s') (root_name_key k) = (if k \<in> set obsolete then None else C (ls_db s) (root_name_key k))"
    by (auto simp: at dead)
  show "C (ls_db s) (CHR ''O'' # x) \<noteq> None" if "C (ls_db s') (CHR ''O'' # x) \<noteq> None"
    using that by (auto simp: at split: if_splits)
  show "C (ls_db s') ''M/sequence'' = Some (store64 (ls_sequence s'))"
      "C (ls_db s') ''M/objects'' = Some (store64 (ls_objects s'))"
      "C (ls_db s') ''M/roots'' = Some (store64 (ls_roots s'))"
    by (simp_all add: at)
  show "ls_sequence s' = ls_sequence s + 1" "ls_sequence s \<noteq> - 1" using s' seq by simp_all
  show "\<exists>u. same sha C s u \<and> ls_root_cache s' = ls_root_cache u \<and>
      ls_root_cache_sequence s' = ls_root_cache_sequence u" "ls_object_cache s' = Map.empty"
    using su unfolding s' by (auto intro!: exI [of _ u])
  show "h \<in> set live \<Longrightarrow> C (ls_db s) (object_key h) \<noteq> None"
    "k \<in> set obsolete \<Longrightarrow> C (ls_db s) (root_name_key k) \<noteq> None"
    using lv ob by blast+
  show "finite (dom (C (ls_db s')))" if "finite (dom (C (ls_db s)))"
  proof (rule finite_subset)
    show "dom (C (ls_db s')) \<subseteq> dom (C (ls_db s)) \<union> {''M/roots'', ''M/objects'', ''M/sequence''}"
      by (auto simp: at split: if_splits)
  qed (use that in simp)
  have "distinct ?dead" unfolding dead_def by (intro smap_ok_distinct smap_ok_filter ok)
  moreover have "set ?dead = object_key ` {i. C (ls_db s) (object_key i) \<noteq> None \<and> i \<notin> set live}"
  proof (intro set_eqI iffI)
    fix x assume x: "x \<in> set ?dead"
    then obtain v where "(x, v) \<in> set found" by (auto simp: dead_def)
    then have "length x = 34" "prefix ''O/'' x" using len found by fastforce+
    then obtain y where "x = CHR ''O'' # CHR ''/'' # y" "length y = 32" by (auto simp: prefix_def)
    then have "x = object_key (oid_of_bytes (drop 2 x))" by (simp add: oid_bytes_inverse)
    moreover have "C (ls_db s) x \<noteq> None \<and> oid_of_bytes (drop 2 x) \<notin> set live" using x dead by blast
    ultimately show "x \<in> object_key ` {i. C (ls_db s) (object_key i) \<noteq> None \<and> i \<notin> set live}"
      by (intro image_eqI [of _ _ "oid_of_bytes (drop 2 x)"]) simp_all
  qed (auto simp: dead)
  ultimately show "r = card {i. C (ls_db s) (object_key i) \<noteq> None \<and> i \<notin> set live}"
    using card_image [of object_key "{i. C (ls_db s) (object_key i) \<noteq> None \<and> i \<notin> set live}"]
    by (simp add: r inj_on_def flip: distinct_card)
  show "ls_objects s' = ls_objects s - of_nat r" "r \<le> unat (ls_objects s)"
      "ls_roots s' = ls_roots s - of_nat (length obsolete)" "length obsolete \<le> unat (ls_roots s)"
    using s' le by simp_all
qed

lemma collect_keeps_inv:
  assumes L: "ldb_laws L C" and inv: "level_inv sha C s"
    and run: "level_collect sha L e live obsolete s = (Inr r, s')"
    and closed: "\<forall>k v. k \<notin> set obsolete \<longrightarrow> C (ls_db s) (root_name_key k) = Some v \<longrightarrow> oid_of_bytes v \<in> set live"
    and d: "distinct obsolete"
  shows "level_inv sha C s'"
proof -
  have c: "cache_ok sha C s" and disk: "disk_ok sha (C (ls_db s))" and counts: "counts_ok C s"
    using inv by (simp_all add: level_inv_def)
  note asm = L c run
  note at = collect_objects [OF asm] collect_roots [OF asm]
  have "ls_sequence s < ls_sequence s'"
    using collect_counters(4,5) [OF asm] by (simp add: u64_less_succ)
  moreover obtain u where "same sha C s u" "ls_root_cache s' = ls_root_cache u"
    "ls_root_cache_sequence s' = ls_root_cache_sequence u" using collect_cached(1) [OF asm] by metis
  ultimately have "cache_ok sha C s'"
    using collect_cached(2) [OF asm] by (auto simp: cache_ok_def same_def core_def)
  moreover have "disk_ok sha (C (ls_db s'))"
    unfolding disk_ok_def
  proof (intro conjI allI impI)
    show "finite (dom (C (ls_db s')))"
      using collect_finite [OF asm] disk by (simp add: disk_ok_def)
    show "object_hash sha b = i" if "C (ls_db s') (object_key i) = Some b" for i b
      using that disk unfolding at disk_ok_def by (metis option.distinct(1))
    show "length k = 32" if "C (ls_db s') (CHR ''O'' # CHR ''/'' # k) \<noteq> None" for k
      using collect_raw [OF asm that] disk unfolding disk_ok_def by metis
  next
    fix k v
    assume "C (ls_db s') (root_name_key k) = Some v"
    then have k: "k \<notin> set obsolete" "C (ls_db s) (root_name_key k) = Some v"
      unfolding at by (auto split: if_splits)
    then have len: "length v = 32" and "C (ls_db s) (CHR ''O'' # CHR ''/'' # v) \<noteq> None"
      using disk unfolding disk_ok_def by metis+
    moreover have "oid_of_bytes v \<in> set live" using closed k by blast
    ultimately show "length v = 32" "C (ls_db s') (CHR ''O'' # CHR ''/'' # v) \<noteq> None"
      using at(1) [of "oid_of_bytes v"] by (simp_all add: oid_bytes_inverse)
  qed
  moreover have "counts_ok C s'"
  proof -
    let ?O = "{i. C (ls_db s) (object_key i) \<noteq> None}" and ?R = "{k. C (ls_db s) (root_name_key k) \<noteq> None}"
    have "object_count (C (ls_db s')) = card (?O - {i \<in> ?O. i \<notin> set live})"
      unfolding object_count_def at by (rule arg_cong [where f = card]) auto
    also have "\<dots> = object_count (C (ls_db s)) - r"
      unfolding object_count_def collect_count [OF asm] by (subst card_Diff_subset) auto
    finally have n: "object_count (C (ls_db s')) = object_count (C (ls_db s)) - r" .
    have "r \<le> object_count (C (ls_db s))"
      unfolding object_count_def collect_count [OF asm] by (rule card_mono) auto
    then have objs: "ls_objects s' = of_nat (object_count (C (ls_db s')))"
      using counts collect_counts(1) [OF asm] by (simp add: n counts_ok_def of_nat_diff)
    have fin: "finite ?R" using disk by (rule finite_roots)
    have sub: "set obsolete \<subseteq> ?R" using collect_obsolete [OF asm] by blast
    have "root_count (C (ls_db s')) = card (?R - set obsolete)"
      unfolding root_count_def at by (rule arg_cong [where f = card]) auto
    also have "\<dots> = root_count (C (ls_db s)) - length obsolete"
      unfolding root_count_def using sub d by (subst card_Diff_subset) (auto simp: distinct_card)
    finally have m: "root_count (C (ls_db s')) = root_count (C (ls_db s)) - length obsolete" .
    have "length obsolete \<le> root_count (C (ls_db s))"
      unfolding root_count_def using card_mono [OF fin sub] d by (simp add: distinct_card)
    then have "ls_roots s' = of_nat (root_count (C (ls_db s')))"
      using counts collect_counts(3) [OF asm] by (simp add: m counts_ok_def of_nat_diff)
    with objs show ?thesis
      using collect_counters(1-3) [OF asm] by (simp add: counts_ok_def)
  qed
  ultimately show ?thesis by (simp add: level_inv_def)
qed

lemma collect_throws:
  assumes "ldb_laws L C"
  shows "throws_in (same sha C s) (\<lambda>t. same sha C s t \<or> ls_poisoned t)
    (level_collect sha L e live obsolete)"
proof -
  have commit: "throws_in P (\<lambda>t. Q t \<or> ls_poisoned t)
      (bindS (db_commit L w ops) (\<lambda>_. bindS (modifyS f) (\<lambda>_. returnS x)))" for P Q w ops f and x :: nat
    unfolding throws_in_def bindS_exn_iff by (auto dest: db_commit_exn)
  show ?thesis
    unfolding level_collect_def Let_def
    by (rule commit throws_in_bind keeping throwing assms | simp)+
qed

end
