(* ===== verification/Level_Store_Props.thy ===== *)
theory Level_Store_Props
  imports Level_Store_Laws
begin

text \<open>
  The properties of the level store: commits refine the abstract repository, failures are
  atomic, verification is sound, collection removes exactly the dead objects, a repository
  reopens as it was, and the root cache is coherent under every interleaving of readers with
  the committing writer. An in-memory database stands for LevelDB in the witnesses.
\<close>

section \<open>An in-memory database\<close>

text \<open>A sorted association list; a list that is not sorted is a corrupt database, of which writes
  and scans report corruption.\<close>

definition mem_op :: "batch_op \<Rightarrow> (string, bytes) smap \<Rightarrow> (string, bytes) smap" where
  "mem_op x d = (case x of Put k v \<Rightarrow> put k v d | Delete k \<Rightarrow> erase k d)"

definition mem_ldb :: "(string, bytes) smap leveldb" where
  "mem_ldb =
     \<lparr>Get = (\<lambda>d k. case map_of d k of Some v \<Rightarrow> Found v | None \<Rightarrow> Not_found),
      Write = (\<lambda>d ops. if smap_ok d then (fold mem_op ops d, None) else (d, Some ''corruption'')),
      Seek = (\<lambda>d k. if smap_ok d then (filter (\<lambda>kv. k \<le> fst kv) d, None) else ([], Some ''corruption'')),
      Compact_range = (\<lambda>d. d),
      Cache_insert = (\<lambda>c i b n. c(i \<mapsto> b)),
      Cache_prune = (\<lambda>c. Map.empty)\<rparr>"

text \<open>A stand-in for the hash, and the store of a new repository.\<close>

definition toy_sha :: "bytes \<Rightarrow> oid" where
  "toy_sha b = of_nat (length b)"

definition toy_mutation :: "string \<Rightarrow> bytes option \<Rightarrow> mutation" where
  "toy_mutation k v = \<lparr>m_key = k, m_value = v, m_reference = None\<rparr>"

definition new_store :: "(string, bytes) smap level_store" where
  "new_store = closed_store [(''M/format'', ''FFLDB001''), (''M/objects'', store64 0),
     (''M/repository'', replicate 16 CHR ''r''), (''M/roots'', store64 0), (''M/sequence'', store64 0)] 65536"

text \<open>A store that holds one object no root refers to.\<close>

definition orphan_store :: "(string, bytes) smap level_store" where
  "orphan_store = (closed_store [(''M/format'', ''FFLDB001''), (''M/objects'', store64 1),
     (''M/repository'', replicate 16 CHR ''r''), (''M/roots'', store64 0), (''M/sequence'', store64 0),
     (object_key (object_hash toy_sha ''one''), ''one'')] 65536)\<lparr>ls_objects := 1\<rparr>"

section \<open>Readers and a committing writer\<close>

text \<open>\<open>LevelStore::read\<close> holds the cache lock twice and reads the database in between, without
  the writer's lock; a commit writes the database and only then advances the sequence. The
  phases of a reader, and the steps of the readers and of the one writer.\<close>

datatype phase = Idle | Looked u64 string | Fetched u64 string "bytes option"

record 'db shared =
  sh_store :: "'db level_store"
  sh_written :: bool
  sh_readers :: "nat \<Rightarrow> phase"

inductive rc_step :: "'db leveldb \<Rightarrow> 'db shared \<Rightarrow> 'db shared \<Rightarrow> bool" for L where
  look_hit: "sh_readers x i = Idle \<Longrightarrow> root_cache_lookup (sh_store x) k = (Some known, s) \<Longrightarrow>
    rc_step L x (x\<lparr>sh_store := s\<rparr>)"
| look_miss: "sh_readers x i = Idle \<Longrightarrow> root_cache_lookup (sh_store x) k = (None, s) \<Longrightarrow>
    rc_step L x (x\<lparr>sh_store := s, sh_readers := (sh_readers x)(i := Looked (ls_sequence s) k)\<rparr>)"
| fetch: "sh_readers x i = Looked e k \<Longrightarrow> db_read L k (sh_store x) = (Inr got, s) \<Longrightarrow>
    rc_step L x (x\<lparr>sh_readers := (sh_readers x)(i := Fetched e k got)\<rparr>)"
| install: "sh_readers x i = Fetched e k got \<Longrightarrow>
    rc_step L x (x\<lparr>sh_store := root_cache_install e k got (sh_store x),
                   sh_readers := (sh_readers x)(i := Idle)\<rparr>)"
| commit_write: "\<not> sh_written x \<Longrightarrow> ls_sequence (sh_store x) \<noteq> - 1 \<Longrightarrow>
    Write L (ls_db (sh_store x)) ops = (d, None) \<Longrightarrow>
    rc_step L x (x\<lparr>sh_store := (sh_store x)\<lparr>ls_db := d\<rparr>, sh_written := True\<rparr>)"
| commit_publish: "sh_written x \<Longrightarrow>
    rc_step L x (x\<lparr>sh_store := (sh_store x)\<lparr>ls_sequence := ls_sequence (sh_store x) + 1\<rparr>,
                   sh_written := False\<rparr>)"

inductive_cases rc_stepE: "rc_step L x y"

definition header_ok :: "(string \<rightharpoonup> bytes) \<Rightarrow> bool" where
  "header_ok m \<longleftrightarrow> m ''M/format'' = Some ''FFLDB001'' \<and>
     (\<exists>v. m ''M/repository'' = Some v \<and> length v = 16)"

text \<open>LevelDB without I/O failures.\<close>

definition ldb_total :: "'db leveldb \<Rightarrow> bool" where
  "ldb_total L \<longleftrightarrow> (\<forall>d k m. Get L d k \<noteq> Get_failed m)"

section \<open>Lemmas\<close>

lemma mem_op_ok: "smap_ok d \<Longrightarrow> smap_ok (mem_op x d)"
  by (simp add: mem_op_def split: batch_op.split)

lemma mem_op_apply: "smap_ok d \<Longrightarrow> map_of (mem_op x d) = batch_op_apply x (map_of d)"
  by (simp add: mem_op_def split: batch_op.split)

lemma mem_batch: "smap_ok d \<Longrightarrow> map_of (fold mem_op ops d) = batch_apply ops (map_of d)"
  by (induction ops arbitrary: d) (simp_all add: batch_apply_def mem_op_ok mem_op_apply)

lemma mem_ldb_laws: "ldb_laws mem_ldb map_of"
  unfolding ldb_laws_def mem_ldb_def
  by (auto simp: mem_batch smap_ok_filter smap_ok_set split: option.splits if_splits)

fun reader_ok :: "('db \<Rightarrow> string \<rightharpoonup> bytes) \<Rightarrow> 'db level_store \<Rightarrow> bool \<Rightarrow> phase \<Rightarrow> bool" where
  "reader_ok C s written Idle = True"
| "reader_ok C s written (Looked e k) = (e \<le> ls_sequence s)"
| "reader_ok C s written (Fetched e k got) =
     (e \<le> ls_sequence s \<and> (\<not> written \<and> e = ls_sequence s \<longrightarrow> got = C (ls_db s) k))"

definition facts_ok :: "('db \<Rightarrow> string \<rightharpoonup> bytes) \<Rightarrow> 'db level_store \<Rightarrow> bool \<Rightarrow> bool" where
  "facts_ok C s written \<longleftrightarrow>
     (ls_root_cache s = [] \<or> ls_root_cache_sequence s \<le> ls_sequence s) \<and>
     (\<not> written \<and> ls_root_cache_sequence s = ls_sequence s \<longrightarrow>
        (\<forall>k known. map_of (ls_root_cache s) k = Some known \<longrightarrow> C (ls_db s) k = fact_value known))"

definition rc_inv :: "('db \<Rightarrow> string \<rightharpoonup> bytes) \<Rightarrow> 'db shared \<Rightarrow> bool" where
  "rc_inv C x \<longleftrightarrow>
     facts_ok C (sh_store x) (sh_written x) \<and>
     (sh_written x \<longrightarrow> ls_sequence (sh_store x) \<noteq> - 1) \<and>
     (\<forall>i. reader_ok C (sh_store x) (sh_written x) (sh_readers x i))"

lemma reader_ok_cong:
  "ls_sequence t = ls_sequence s \<Longrightarrow> ls_db t = ls_db s \<Longrightarrow> reader_ok C t w ph = reader_ok C s w ph"
  by (cases ph) simp_all

lemma facts_ok_lookup:
  assumes "root_cache_lookup s k = (r, t)" and "facts_ok C s w"
  shows "facts_ok C t w" "ls_sequence t = ls_sequence s" "ls_db t = ls_db s"
  using assms by (auto simp: root_cache_lookup_def facts_ok_def Let_def simp del: split_paired_All
      split: if_splits)

lemma facts_ok_install:
  assumes "facts_ok C s w" and "reader_ok C s w (Fetched e k got)"
  shows "facts_ok C (root_cache_install e k got s) w"
    "ls_sequence (root_cache_install e k got s) = ls_sequence s"
    "ls_db (root_cache_install e k got s) = ls_db s"
  using assms by (auto simp: root_cache_install_def facts_ok_def Let_def split: if_splits option.splits)

lemma rc_inv_step:
  assumes L: "ldb_laws L C" and inv: "rc_inv C x" and step: "rc_step L x y"
  shows "rc_inv C y"
  using step
proof cases
  case (look_hit i k known s)
  then show ?thesis
    using inv facts_ok_lookup [of "sh_store x" k "Some known" s C "sh_written x"]
    by (auto simp: rc_inv_def reader_ok_cong [of s "sh_store x"])
next
  case (look_miss i k s)
  then show ?thesis
    using inv facts_ok_lookup [of "sh_store x" k None s C "sh_written x"]
    by (auto simp: rc_inv_def reader_ok_cong [of s "sh_store x"])
next
  case (fetch i e k got s)
  then have "got = C (ls_db (sh_store x)) k" using db_read_ok(2) [OF L] by blast
  moreover have "reader_ok C (sh_store x) (sh_written x) (Looked e k)"
    using inv fetch by (metis rc_inv_def)
  ultimately show ?thesis using inv fetch by (simp add: rc_inv_def)
next
  case (install i e k got)
  then have "reader_ok C (sh_store x) (sh_written x) (Fetched e k got)" using inv by (metis rc_inv_def)
  moreover have "facts_ok C (sh_store x) (sh_written x)" using inv by (simp add: rc_inv_def)
  ultimately show ?thesis
    using inv install facts_ok_install [of C "sh_store x" "sh_written x" e k got]
    by (simp add: rc_inv_def reader_ok_cong [of "root_cache_install e k got (sh_store x)" "sh_store x"])
next
  case (commit_write ops d)
  have "reader_ok C ((sh_store x)\<lparr>ls_db := d\<rparr>) True ph" if "reader_ok C (sh_store x) False ph" for ph
    using that by (cases ph) simp_all
  with commit_write show ?thesis using inv by (simp add: rc_inv_def facts_ok_def)
next
  case commit_publish
  let ?s = "sh_store x" and ?t = "(sh_store x)\<lparr>ls_sequence := ls_sequence (sh_store x) + 1\<rparr>"
  have less: "ls_sequence ?s < ls_sequence ?s + 1"
    using inv commit_publish by (simp add: rc_inv_def u64_less_succ)
  have "reader_ok C ?t False ph" if "reader_ok C ?s True ph" for ph
    using that less by (cases ph) auto
  moreover have "facts_ok C ?t False" if "facts_ok C ?s True"
    using that less by (auto simp: facts_ok_def)
  ultimately show ?thesis using inv commit_publish by (simp add: rc_inv_def)
qed

lemma rc_inv_steps: "(rc_step L)\<^sup>*\<^sup>* x y \<Longrightarrow> ldb_laws L C \<Longrightarrow> rc_inv C x \<Longrightarrow> rc_inv C y"
  by (induction rule: rtranclp_induct) (auto intro: rc_inv_step)

section \<open>Opening\<close>

lemma required_eval:
  assumes "ldb_laws L C" and "ldb_total L" and "C (ls_db s) k = Some v"
    and "\<not> prefix ''R/'' k" and "\<not> ls_poisoned s"
  shows "required L k msg s = (Inr v, s)"
proof -
  have "Get L (ls_db s) k = Found v"
    using assms(1-3) ldb_not_found [OF assms(1), of "ls_db s" k] ldb_found [OF assms(1), of "ls_db s" k]
    by (cases "Get L (ls_db s) k") (auto simp: ldb_total_def)
  then show ?thesis
    using assms(4,5) by (simp add: required_def level_read_def bindS_def healthy_def db_read_def)
qed

lemma number_store64 [simp]: "number (store64 w) = Inr w"
  by (simp add: number_def)

lemma level_load_eval:
  assumes "ldb_laws L C" and "ldb_total L" and "\<not> ls_poisoned s"
    and "C (ls_db s) ''M/format'' = Some ''FFLDB001''"
    and "C (ls_db s) ''M/repository'' = Some v" "length v = 16"
    and "C (ls_db s) ''M/sequence'' = Some (store64 q)" "C (ls_db s) ''M/objects'' = Some (store64 n)"
      "C (ls_db s) ''M/roots'' = Some (store64 r)"
  shows "level_load L s = (Inr (), s\<lparr>ls_repository := hex v, ls_sequence := q, ls_objects := n, ls_roots := r\<rparr>)"
  using assms(3-) by (simp add: level_load_def bindS_def required_eval [OF assms(1,2)])

lemma closed_store_simps [simp]:
  "ls_db (closed_store d n) = d" "\<not> ls_poisoned (closed_store d n)"
  "ls_root_cache (closed_store d n) = []" "ls_object_cache (closed_store d n) = Map.empty"
  by (simp_all add: closed_store_def)

lemma level_reopen:
  assumes L: "ldb_laws L C" "ldb_total L" and inv: "level_inv sha C s" and head: "header_ok (C (ls_db s))"
  obtains s' where "level_open L (Inr (ls_db s)) False entropy n = Inr s'"
    "level_repo C s' = level_repo C s" "level_inv sha C s'" "\<not> ls_poisoned s'"
proof -
  obtain v where v: "C (ls_db s) ''M/repository'' = Some v" "length v = 16"
    using head by (auto simp: header_ok_def)
  let ?s = "(closed_store (ls_db s) n)\<lparr>ls_repository := hex v, ls_sequence := ls_sequence s,
    ls_objects := ls_objects s, ls_roots := ls_roots s\<rparr>"
  have counts: "counts_ok C s" using inv by (simp add: level_inv_def)
  have load: "level_load L (closed_store (ls_db s) n) = (Inr (), ?s)"
    using head counts v by (intro level_load_eval [OF L]) (simp_all add: header_ok_def counts_ok_def)
  show thesis
  proof (rule that)
    show "level_open L (Inr (ls_db s)) False entropy n = Inr ?s"
      by (simp add: level_open_def load bindS_def)
    show "level_repo C ?s = level_repo C s" by (simp add: level_repo_def)
    show "level_inv sha C ?s" "\<not> ls_poisoned ?s"
      using inv by (simp_all add: level_inv_def cache_ok_def counts_ok_def)
  qed
qed

lemma level_create:
  assumes L: "ldb_laws L C" "ldb_total L" and empty: "C d = Map.empty" and len: "length entropy = 16"
    and w: "Write L d (Put ''M/format'' ''FFLDB001'' # Put ''M/repository'' entropy # counter_ops 0 0 0) = (d', None)"
  obtains s where "level_open L (Inr d) True entropy n = Inr s" "level_inv sha C s"
    "header_ok (C (ls_db s))" "level_repo C s = \<lparr>r_objects = Map.empty, r_roots = Map.empty, r_seq = 0\<rparr>"
    "\<not> ls_poisoned s"
proof -
  have d': "C d' = [''M/format'' \<mapsto> ''FFLDB001'', ''M/repository'' \<mapsto> entropy, ''M/sequence'' \<mapsto> store64 0,
      ''M/objects'' \<mapsto> store64 0, ''M/roots'' \<mapsto> store64 0]"
    unfolding ldb_write [OF L(1) w] empty by (simp add: batch_apply_def counter_ops_def)
  let ?s = "(closed_store d' n)\<lparr>ls_repository := hex entropy, ls_sequence := 0, ls_objects := 0, ls_roots := 0\<rparr>"
  have init: "level_init L entropy (closed_store d n) = (Inr (), closed_store d' n)"
    by (simp add: level_init_def db_commit_def w closed_store_def)
  have load: "level_load L (closed_store d' n) = (Inr (), ?s)"
    using len d' by (intro level_load_eval [OF L]) simp_all
  show thesis
  proof (rule that)
    show "level_open L (Inr d) True entropy n = Inr ?s"
      by (simp add: level_open_def load init bindS_def)
    show "header_ok (C (ls_db ?s))" using len by (simp add: header_ok_def d')
    show "level_repo C ?s = \<lparr>r_objects = Map.empty, r_roots = Map.empty, r_seq = 0\<rparr>"
      by (simp add: level_repo_def d' fun_eq_iff)
    show "level_inv sha C ?s"
      by (simp add: level_inv_def cache_ok_def counts_ok_def disk_ok_def object_count_def root_count_def d')
  qed simp
qed

lemma mem_ldb_total: "ldb_total mem_ldb"
  by (simp add: ldb_total_def mem_ldb_def split: option.split)

lemma new_store_inv: "level_inv sha map_of new_store" "header_ok (map_of (ls_db new_store))"
  by (auto simp: new_store_def closed_store_def level_inv_def cache_ok_def counts_ok_def disk_ok_def
      object_count_def root_count_def header_ok_def)

lemma poisoned_reads:
  "ls_poisoned s \<Longrightarrow> level_read L k s = (Inl (Runtime_error ''LevelDB store requires reopen after write failure''), s)"
  by (simp add: level_read_def bindS_def healthy_def)

lemma orphan_store_inv: "level_inv toy_sha map_of orphan_store"
proof -
  have "{i. i = object_hash toy_sha ''one''} = {object_hash toy_sha ''one''}" by blast
  then show ?thesis
    by (auto simp: orphan_store_def closed_store_def level_inv_def cache_ok_def counts_ok_def
        disk_ok_def object_count_def root_count_def header_ok_def)
qed

lemmas store_eval = level_transact_def tx_mutation_def tx_object_def level_contains_def level_read_def
  root_cache_lookup_def root_cache_install_def db_read_def db_commit_def healthy_def bindS_def
  update_op_def counter_ops_def mem_ldb_def mem_op_def toy_mutation_def Let_def emplace_def
  closed_store_def new_store_def

section \<open>Properties\<close>

text \<open>C1. A transaction that returns is one step of the abstract repository: every new value is
  stored under its identity, every named root moves to its target or disappears, the sequence
  advances by one, and the store invariant (caches, identities, references, counters) holds
  again.\<close>

theorem transact_refines_commit:
  assumes "ldb_laws L C" and "level_inv sha C s" and "level_transact sha L e ms s = (Inr u, s')"
  shows "level_repo C s' = repo_commit sha ms (level_repo C s) \<and> level_inv sha C s'"
  using transact_repo [OF assms] transact_cache_ok [OF assms] transact_disk_ok [OF assms]
    transact_counts_ok [OF assms] by (simp add: level_inv_def)

lemma demo_commit: "is_ok (fst (level_transact toy_sha mem_ldb 0 [toy_mutation ''a'' (Some ''one'')] new_store))"
  by (simp add: store_eval)

theorem transact_refines_commit_witness:
  "\<exists>s'. level_transact toy_sha mem_ldb 0 [toy_mutation ''a'' (Some ''one'')] new_store = (Inr (), s') \<and>
    level_repo map_of s' = repo_commit toy_sha [toy_mutation ''a'' (Some ''one'')] (level_repo map_of new_store)"
  using demo_commit transact_refines_commit [OF mem_ldb_laws new_store_inv(1)]
  by (cases "level_transact toy_sha mem_ldb 0 [toy_mutation ''a'' (Some ''one'')] new_store")
     (fastforce simp: is_ok_iff)

text \<open>C2. A transaction that throws leaves the repository as it was, with the invariant intact, or
  poisons the store, after which every read throws until the store is reopened.\<close>

theorem transact_fails_atomically:
  assumes "ldb_laws L C" and "level_inv sha C s" and "level_transact sha L e ms s = (Inl x, s')"
  shows "level_repo C s' = level_repo C s \<and> level_inv sha C s' \<or>
    (\<forall>k. level_read L k s' =
       (Inl (Runtime_error ''LevelDB store requires reopen after write failure''), s'))"
proof -
  have "same sha C s s" using assms(2) by (simp add: level_inv_def same_refl)
  from throws_inD [OF transact_throws [OF assms(1)] this assms(3)]
  consider "same sha C s s'" | "ls_poisoned s'" by blast
  then show ?thesis
  proof cases
    case 1
    with level_inv_same [OF 1 assms(2)] show ?thesis
      by (simp add: level_repo_def same_def core_def)
  qed (simp add: poisoned_reads)
qed

theorem transact_fails_atomically_witness:
  "level_repo map_of (snd (level_transact toy_sha mem_ldb 7 [toy_mutation ''a'' None] new_store)) =
    level_repo map_of new_store"
proof -
  have run: "level_transact toy_sha mem_ldb 7 [toy_mutation ''a'' None] new_store =
      (Inl (Runtime_error ''transaction conflict: sequence changed''), new_store)"
    by (simp add: store_eval)
  have "fst (level_read mem_ldb ''M/format'' new_store) = Inr (Some ''FFLDB001'')"
    by (simp add: store_eval)
  then show ?thesis
    using transact_fails_atomically [OF mem_ldb_laws new_store_inv(1) run] run
    by (metis fst_conv snd_conv sum.distinct(1))
qed

text \<open>C3. What a committed transaction wrote is what the next process finds: reopening the database
  of the store succeeds and yields the committed repository.\<close>

theorem commit_survives_reopen:
  assumes "ldb_laws L C" and "ldb_total L" and "level_inv sha C s" and "header_ok (C (ls_db s))"
    and "level_transact sha L e ms s = (Inr u, s')"
  shows "\<exists>t. level_open L (Inr (ls_db s')) False entropy n = Inr t \<and>
    level_repo C t = repo_commit sha ms (level_repo C s) \<and> level_inv sha C t"
proof -
  note asm = assms(1,3,5)
  have inv: "level_inv sha C s'"
    using transact_cache_ok [OF asm] transact_disk_ok [OF asm] transact_counts_ok [OF asm]
    by (simp add: level_inv_def)
  have head: "header_ok (C (ls_db s'))"
    using assms(4) transact_header [OF asm] by (simp add: header_ok_def)
  obtain t where "level_open L (Inr (ls_db s')) False entropy n = Inr t"
    "level_repo C t = level_repo C s'" "level_inv sha C t" "\<not> ls_poisoned t"
    by (rule level_reopen [OF assms(1,2) inv head])
  then show ?thesis using transact_repo [OF asm] by metis
qed

theorem commit_survives_reopen_witness:
  "\<exists>s' t. level_transact toy_sha mem_ldb 0 [toy_mutation ''a'' (Some ''one'')] new_store = (Inr (), s') \<and>
    level_open mem_ldb (Inr (ls_db s')) False [] 4096 = Inr t \<and> r_seq (level_repo map_of t) = 1"
proof -
  obtain s' where run: "level_transact toy_sha mem_ldb 0 [toy_mutation ''a'' (Some ''one'')] new_store = (Inr (), s')"
    using demo_commit
    by (cases "level_transact toy_sha mem_ldb 0 [toy_mutation ''a'' (Some ''one'')] new_store")
       (auto simp: is_ok_iff)
  have "r_seq (repo_commit toy_sha ms (level_repo map_of new_store)) = 1" for ms
    by (simp add: repo_commit_def level_repo_def new_store_def closed_store_def)
  then show ?thesis
    using run commit_survives_reopen [OF mem_ldb_laws mem_ldb_total new_store_inv run, of "[]" 4096]
    by metis
qed

text \<open>C6. Verification is sound: when it returns, every object hashes to its key, every root is a
  32-byte reference to a stored object, and the counters in memory are the numbers of objects
  and roots on disk.\<close>

theorem verify_sound:
  assumes "ldb_laws L C" and "cache_ok sha C s" and "level_verify sha L s = (Inr u, s')"
  shows "disk_ok sha (C (ls_db s)) \<and> ls_objects s = of_nat (object_count (C (ls_db s))) \<and>
    ls_roots s = of_nat (root_count (C (ls_db s))) \<and> level_repo C s' = level_repo C s"
  using verified_disk [OF assms] by (simp add: level_repo_def same_def core_def)

theorem verify_sound_witness: "disk_ok toy_sha (map_of (ls_db orphan_store))"
proof -
  have "cache_ok toy_sha map_of orphan_store" using orphan_store_inv by (simp add: level_inv_def)
  moreover have "level_verify toy_sha mem_ldb orphan_store = (Inr (), orphan_store)"
    by (simp add: level_verify_def verify_entry_def orphan_store_def store_eval oid_of_value_def)
  ultimately show ?thesis using verify_sound [OF mem_ldb_laws] by blast
qed

text \<open>C5. Physical collection removes exactly the objects outside the live set and the named
  obsolete roots, returns how many objects it removed, forgets every cached payload (no
  deleted object is served again), and keeps the invariant when the live set covers the
  remaining roots.\<close>

theorem collect_exact:
  assumes "ldb_laws L C" and "level_inv sha C s" and "distinct obsolete"
    and "level_collect sha L e live obsolete s = (Inr removed, s')"
    and "\<forall>k i. k \<notin> set obsolete \<longrightarrow> r_roots (level_repo C s) k = Some i \<longrightarrow> i \<in> set live"
  shows "r_objects (level_repo C s') = (\<lambda>i. if i \<in> set live then r_objects (level_repo C s) i else None) \<and>
    r_roots (level_repo C s') = (\<lambda>k. if k \<in> set obsolete then None else r_roots (level_repo C s) k) \<and>
    removed = card (dom (r_objects (level_repo C s)) - set live) \<and>
    ls_object_cache s' = Map.empty \<and> level_inv sha C s'"
proof -
  have c: "cache_ok sha C s" using assms(2) by (simp add: level_inv_def)
  note asm = assms(1) c assms(4)
  have "level_inv sha C s'"
    using assms(5) by (intro collect_keeps_inv [OF assms(1,2,4) _ assms(3)]) (simp add: level_repo_def)
  moreover have "dom (r_objects (level_repo C s)) - set live =
      {i. C (ls_db s) (object_key i) \<noteq> None \<and> i \<notin> set live}"
    by (auto simp: level_repo_def)
  ultimately show ?thesis
    using collect_count [OF asm] collect_cached(2) [OF asm]
    by (simp add: level_repo_def collect_objects [OF asm] collect_roots [OF asm] fun_eq_iff)
qed

theorem collect_exact_witness:
  "\<exists>s'. level_collect toy_sha mem_ldb 0 [] [] orphan_store = (Inr 1, s') \<and>
    dom (r_objects (level_repo map_of s')) = {}"
proof -
  have "fst (level_collect toy_sha mem_ldb 0 [] [] orphan_store) = Inr 1"
    by (simp add: level_collect_def collect_object_def orphan_store_def store_eval)
  then obtain s' where run: "level_collect toy_sha mem_ldb 0 [] [] orphan_store = (Inr 1, s')"
    by (metis prod.collapse)
  have "r_roots (level_repo map_of orphan_store) = Map.empty"
    by (simp add: level_repo_def orphan_store_def fun_eq_iff)
  then show ?thesis
    using run collect_exact [OF mem_ldb_laws orphan_store_inv _ run] by (simp add: dom_def)
qed

text \<open>C4. The root cache is coherent: from a state with no reader in flight and an empty cache,
  however readers interleave with commits, a cache hit taken while no commit is between its
  database write and the publication of its sequence returns what the database holds.\<close>

theorem root_cache_coherent:
  assumes "ldb_laws L C" and "(rc_step L)\<^sup>*\<^sup>* x y"
    and "ls_root_cache (sh_store x) = []" and "sh_readers x = (\<lambda>i. Idle)" and "\<not> sh_written x"
    and "\<not> sh_written y" and "root_cache_lookup (sh_store y) k = (Some known, s)"
  shows "fact_value known = C (ls_db (sh_store y)) k"
proof -
  have "rc_inv C x" using assms(3-5) by (simp add: rc_inv_def facts_ok_def)
  then have "rc_inv C y" by (rule rc_inv_steps [OF assms(2,1)])
  then have "facts_ok C (sh_store y) False" using assms(6) by (simp add: rc_inv_def)
  then show ?thesis
    using assms(7) by (auto simp: facts_ok_def root_cache_lookup_def Let_def simp del: split_paired_All
        split: if_splits)
qed

theorem root_cache_coherent_witness:
  "\<exists>y. (rc_step mem_ldb)\<^sup>*\<^sup>* \<lparr>sh_store = new_store, sh_written = False, sh_readers = (\<lambda>i. Idle)\<rparr> y \<and>
     fst (root_cache_lookup (sh_store y) ''R/a'') = Some (False, []) \<and>
     map_of (ls_db (sh_store y)) ''R/a'' = None"
proof -
  let ?x = "\<lparr>sh_store = new_store, sh_written = False, sh_readers = (\<lambda>i. Idle)\<rparr>"
  let ?s = "new_store\<lparr>ls_root_cache_sequence := 0\<rparr>"
  let ?x1 = "?x\<lparr>sh_store := ?s, sh_readers := (\<lambda>i. Idle)(0 := Looked 0 ''R/a'')\<rparr>"
  let ?x2 = "?x1\<lparr>sh_readers := (\<lambda>i. Idle)(0 := Fetched 0 ''R/a'' None)\<rparr>"
  let ?y = "?x2\<lparr>sh_store := ?s\<lparr>ls_root_cache := [(''R/a'', (False, []))]\<rparr>,
    sh_readers := (\<lambda>i. Idle)(0 := Idle)\<rparr>"
  have "rc_step mem_ldb ?x ?x1"
    using look_miss [of ?x 0 "''R/a''" ?s mem_ldb] by (simp add: store_eval)
  moreover have "rc_step mem_ldb ?x1 ?x2"
    using fetch [of ?x1 0 0 "''R/a''" mem_ldb None ?s] by (simp add: store_eval)
  moreover have "rc_step mem_ldb ?x2 ?y"
    using install [of ?x2 0 0 "''R/a''" None mem_ldb] by (simp add: store_eval)
  ultimately have steps: "(rc_step mem_ldb)\<^sup>*\<^sup>* ?x ?y"
    by (meson converse_rtranclp_into_rtranclp rtranclp.rtrancl_refl)
  have hit: "root_cache_lookup (sh_store ?y) ''R/a'' = (Some (False, []), sh_store ?y)"
    by (simp add: store_eval)
  have "fact_value (False, []) = map_of (ls_db (sh_store ?y)) ''R/a''"
    by (rule root_cache_coherent [OF mem_ldb_laws steps _ _ _ _ hit]) (simp_all add: store_eval)
  with steps hit show ?thesis by (metis fact_value_simps(2) fst_conv)
qed



end
