(* ===== verification/Repository.thy ===== *)
theory Repository
  imports Level_Store
begin

text \<open>
  What a \<^verbatim>\<open>Journal\<close> (\<^verbatim>\<open>daemon/journal.h\<close>) promises to the layers above it, whichever backend it runs
  on: named retention roots, immutable objects named by their hash, and atomic batches guarded
  by the expected sequence. The LevelDB backend is \<^verbatim>\<open>Level_Store\<close>, the single-file backend is
  \<^verbatim>\<open>File_Journal\<close>; a failure of the medium is a matter of those theories, here a batch either
  fails its checks and changes nothing or commits.
\<close>

section \<open>State and reads\<close>

record journal =
  j_leveldb :: bool
  j_sequence :: u64
  j_roots :: "(string, oid) smap"
  j_objects :: "(oid, bytes) smap"

definition j_root_object :: "journal \<Rightarrow> string \<Rightarrow> oid res" where
  "j_root_object j key = (case map_of (j_roots j) key of
       None \<Rightarrow> Inl (Runtime_error ''object root not found'') | Some i \<Rightarrow> Inr i)"

definition j_get_object :: "journal \<Rightarrow> oid \<Rightarrow> bytes res" where
  "j_get_object j i = (case map_of (j_objects j) i of
       None \<Rightarrow> Inl (Runtime_error ''object not indexed'') | Some b \<Rightarrow> Inr b)"

definition j_contains :: "journal \<Rightarrow> string \<Rightarrow> bool" where
  "j_contains j key \<longleftrightarrow> map_of (j_roots j) key \<noteq> None"

text \<open>\<^verbatim>\<open>lower_bound\<close>, then as long as the prefix matches.\<close>

definition j_keys :: "journal \<Rightarrow> string \<Rightarrow> string list" where
  "j_keys j p = takeWhile (prefix p) (dropWhile (\<lambda>k. k < p) (map fst (j_roots j)))"

definition j_get :: "journal \<Rightarrow> string \<Rightarrow> bytes res" where
  "j_get j key = bindR (j_root_object j key) (j_get_object j)"

section \<open>Batches\<close>

record jbatch =
  jb_changes :: "(string, oid option) smap"
  jb_values :: "(oid, bytes) smap"
  jb_total :: nat

abbreviation empty_batch :: jbatch where
  "empty_batch \<equiv> \<lparr>jb_changes = [], jb_values = [], jb_total = 0\<rparr>"

definition add_change :: "string \<Rightarrow> oid option \<Rightarrow> jbatch \<Rightarrow> jbatch" where
  "add_change key i t = t\<lparr>jb_changes := put key i (jb_changes t)\<rparr>"

definition add_value :: "(bytes \<Rightarrow> oid) \<Rightarrow> bytes \<Rightarrow> jbatch \<Rightarrow> jbatch" where
  "add_value sha v t = (let h = object_hash sha v in
     if map_of (jb_values t) h = None
     then t\<lparr>jb_values := put h v (jb_values t), jb_total := jb_total t + length v\<rparr> else t)"

definition level_mutation :: "(bytes \<Rightarrow> oid) \<Rightarrow> journal \<Rightarrow> mutation \<Rightarrow> jbatch \<Rightarrow> jbatch res" where
  "level_mutation sha j m t =
     need (m_key m \<noteq> [] \<and> length (m_key m) \<le> 1024 \<and> map_of (jb_changes t) (m_key m) = None)
       ''invalid or duplicate root key'' (
     need (\<not> (m_value m \<noteq> None \<and> m_reference m \<noteq> None)) ''mutation has both value and reference'' (
     case m_reference m of
       Some i \<Rightarrow> bindR (j_get_object j i) (\<lambda>_. Inr (add_change (m_key m) (Some i) t))
     | None \<Rightarrow> (case m_value m of
         Some v \<Rightarrow>
           need (length v \<le> 256 * 1024) ''object exceeds 256 KiB'' (
           let t1 = add_value sha v t in
           need (jb_total t1 \<le> 16 * 1024 * 1024) ''LevelDB batch exceeds 16 MiB'' (
           Inr (add_change (m_key m) (Some (object_hash sha v)) t1)))
       | None \<Rightarrow>
           need (j_contains j (m_key m)) ''cannot delete absent root'' (
           Inr (add_change (m_key m) None t)))))"

definition level_object_check :: "journal \<Rightarrow> oid \<times> bytes \<Rightarrow> unit \<Rightarrow> unit res" where
  "level_object_check j = (\<lambda>(h, v) _. case map_of (j_objects j) h of
       None \<Rightarrow> Inr () | Some old \<Rightarrow> need (old = v) ''immutable object collision/corruption'' (Inr ()))"

definition file_mutation :: "(bytes \<Rightarrow> oid) \<Rightarrow> journal \<Rightarrow> mutation \<Rightarrow> jbatch \<Rightarrow> jbatch res" where
  "file_mutation sha j m t =
     need (m_key m \<noteq> [] \<and> length (m_key m) \<le> 1024) ''root name must be 1..1024 bytes'' (
     need (map_of (jb_changes t) (m_key m) = None) ''duplicate mutation key'' (
     need (\<not> (m_value m \<noteq> None \<and> m_reference m \<noteq> None)) ''mutation has both value and reference'' (
     case m_reference m of
       Some i \<Rightarrow> need (map_of (j_objects j) i \<noteq> None) ''reference object not committed'' (
                  Inr (add_change (m_key m) (Some i) t))
     | None \<Rightarrow> (case m_value m of
         Some v \<Rightarrow>
           need (length v \<le> 256 * 1024) ''object exceeds 256 KiB'' (
           let t1 = add_value sha v t in
           need (jb_total t1 \<le> 1024 * 1024) ''batch values exceed 1 MiB'' (
           Inr (add_change (m_key m) (Some (object_hash sha v)) t1)))
       | None \<Rightarrow>
           need (j_contains j (m_key m)) ''cannot delete absent root'' (
           Inr (add_change (m_key m) None t))))))"

text \<open>The encoded size of a record with an \<open>n\<close>-byte payload, and of a batch.\<close>

definition record_size :: "nat \<Rightarrow> nat" where
  "record_size n = (64 + n + 7) div 8 * 8 + 16"

definition batch_size :: "jbatch \<Rightarrow> nat" where
  "batch_size t = (\<Sum>(_, v) \<leftarrow> jb_values t. record_size (4 + length v)) +
     record_size (44 + (\<Sum>(k, _) \<leftarrow> jb_changes t. 40 + length k))"

definition j_commit :: "jbatch \<Rightarrow> journal \<Rightarrow> journal" where
  "j_commit t j = j\<lparr>j_sequence := j_sequence j + 1,
     j_roots := apply_changes (jb_changes t) (j_roots j),
     j_objects := fold (\<lambda>(h, v). if j_leveldb j then emplace h v else put h v) (jb_values t) (j_objects j)\<rparr>"

definition j_transact :: "(bytes \<Rightarrow> oid) \<Rightarrow> u64 \<Rightarrow> mutation list \<Rightarrow> journal \<Rightarrow> journal res" where
  "j_transact sha expected ms j =
     need (expected = j_sequence j) ''transaction conflict: sequence changed'' (
     need (j_sequence j \<noteq> - 1) ''transaction sequence exhausted'' (
     if j_leveldb j then
       need (ms \<noteq> [] \<and> length ms \<le> 4096) ''LevelDB batch requires 1..4096 mutations'' (
       bindR (foldR (level_mutation sha j) ms empty_batch) (\<lambda>t.
       bindR (foldR (level_object_check j) (jb_values t) ()) (\<lambda>_.
       Inr (j_commit t j))))
     else
       need (ms \<noteq> [] \<and> length ms \<le> 64) ''batch requires 1..64 mutations'' (
       bindR (foldR (file_mutation sha j) ms empty_batch) (\<lambda>t.
       need (batch_size t \<le> 2 * 1024 * 1024) ''transaction batch too large'' (
       Inr (j_commit t j))))))"

end
