(* ===== verification/Treap.thy ===== *)
theory Treap
  imports Std_Map "HOL-Library.Tree"
begin

text \<open>
  The mathematical treap behind \<^verbatim>\<open>daemon/metadata_tree.cpp\<close>: binary search trees of entries that
  are heaps for a strict linear order on keys. Such a tree is determined by its contents, so the
  shape of a metadata tree does not depend on the order of the edits. The locale
  \<open>priority_order\<close> is the interface to the priorities; \<^verbatim>\<open>Metadata_Tree\<close> interprets it on the
  content-derived priorities of the source.
\<close>

section \<open>Reference definitions\<close>

type_synonym ('k, 'v) treap = "('k \<times> 'v) tree"

fun heaped :: "('k \<Rightarrow> 'k \<Rightarrow> bool) \<Rightarrow> ('k, 'v) treap \<Rightarrow> bool" where
  "heaped hi Leaf = True"
| "heaped hi (Node l x r) =
     (heaped hi l \<and> heaped hi r \<and> (\<forall>y \<in> set_tree l \<union> set_tree r. hi (fst x) (fst y)))"

definition treap :: "('k \<Rightarrow> 'k \<Rightarrow> bool) \<Rightarrow> ('k :: linorder, 'v) treap \<Rightarrow> bool" where
  "treap hi t \<longleftrightarrow> heaped hi t \<and> smap_ok (inorder t)"

fun tree_lookup :: "('k :: linorder, 'v) treap \<Rightarrow> 'k \<Rightarrow> 'v option" where
  "tree_lookup Leaf k = None"
| "tree_lookup (Node l x r) k =
     (if k = fst x then Some (snd x) else if k < fst x then tree_lookup l k else tree_lookup r k)"

fun treap_merge :: "('k \<Rightarrow> 'k \<Rightarrow> bool) \<Rightarrow> ('k, 'v) treap \<Rightarrow> ('k, 'v) treap \<Rightarrow> ('k, 'v) treap" where
  "treap_merge hi Leaf r = r"
| "treap_merge hi l Leaf = l"
| "treap_merge hi (Node a x b) (Node c y d) =
     (if hi (fst x) (fst y) then Node a x (treap_merge hi b (Node c y d))
      else Node (treap_merge hi (Node a x b) c) y d)"

definition fix_left where
  "fix_left hi l x r = (case l of
       Node a y b \<Rightarrow> if hi (fst y) (fst x) then Node a y (Node b x r) else Node l x r
     | Leaf \<Rightarrow> Node Leaf x r)"

definition fix_right where
  "fix_right hi l x r = (case r of
       Node a y b \<Rightarrow> if hi (fst y) (fst x) then Node (Node l x a) y b else Node l x r
     | Leaf \<Rightarrow> Node l x Leaf)"

fun treap_set :: "('k \<Rightarrow> 'k \<Rightarrow> bool) \<Rightarrow> 'k :: linorder \<Rightarrow> 'v option \<Rightarrow> ('k, 'v) treap \<Rightarrow> ('k, 'v) treap" where
  "treap_set hi k v Leaf = (case v of None \<Rightarrow> Leaf | Some w \<Rightarrow> Node Leaf (k, w) Leaf)"
| "treap_set hi k v (Node l x r) =
     (if k = fst x then (case v of None \<Rightarrow> treap_merge hi l r | Some w \<Rightarrow> Node l (k, w) r)
      else if k < fst x then fix_left hi (treap_set hi k v l) x r
      else fix_right hi l x (treap_set hi k v r))"

locale priority_order =
  fixes hi :: "'k :: linorder \<Rightarrow> 'k \<Rightarrow> bool"
  assumes hi_irrefl: "\<not> hi a a"
    and hi_trans: "hi a b \<Longrightarrow> hi b c \<Longrightarrow> hi a c"
    and hi_total: "a \<noteq> b \<Longrightarrow> hi a b \<or> hi b a"

section \<open>Contents\<close>

lemma smap_ok_Node:
  "smap_ok (inorder l @ x # inorder r) \<longleftrightarrow> smap_ok (inorder l) \<and> smap_ok (inorder r) \<and>
    (\<forall>y \<in> set_tree l. fst y < fst x) \<and> (\<forall>y \<in> set_tree r. fst x < fst y)"
  by (auto simp: smap_ok_append) (metis fst_conv less_trans)

lemma put_left: "\<forall>y \<in> set a. fst y < fst x \<Longrightarrow> k < fst x \<Longrightarrow> put k v (a @ x # b) = put k v a @ x # b"
  by (induction a) auto

lemma put_right: "\<forall>y \<in> set a. fst y < fst x \<Longrightarrow> fst x < k \<Longrightarrow> put k v (a @ x # b) = a @ x # put k v b"
  by (induction a) auto

lemma put_here: "\<forall>y \<in> set a. fst y < k \<Longrightarrow> fst x = k \<Longrightarrow> put k v (a @ x # b) = a @ (k, v) # b"
  by (induction a) auto

lemma erase_left: "\<forall>y \<in> set (x # b). k < fst y \<Longrightarrow> erase k (a @ x # b) = erase k a @ x # b"
proof (induction a)
  case Nil
  have "erase k c = c" if "\<forall>y \<in> set c. k < fst y" for c
    using that by (induction c) auto
  with Nil show ?case by auto
qed auto

lemma erase_right: "\<forall>y \<in> set a. fst y < fst x \<Longrightarrow> fst x < k \<Longrightarrow> erase k (a @ x # b) = a @ x # erase k b"
  by (induction a) auto

lemma erase_here: "\<forall>y \<in> set a. fst y < k \<Longrightarrow> fst x = k \<Longrightarrow> erase k (a @ x # b) = a @ b"
  by (induction a) auto

lemma tree_lookup_inorder: "smap_ok (inorder t) \<Longrightarrow> tree_lookup t k = map_of (inorder t) k"
proof (induction t)
  case (Node l x r)
  then have ok: "smap_ok (inorder l)" "smap_ok (inorder r)" and l: "\<forall>y \<in> set_tree l. fst y < fst x"
    and r: "\<forall>y \<in> set_tree r. fst x < fst y"
    by (auto simp: smap_ok_Node)
  have "map_of (inorder l) k = None" if "fst x \<le> k"
    using l that by (fastforce simp: map_of_eq_None_iff set_inorder)
  moreover have "map_of (inorder r) k = None" if "k < fst x"
    using r that by (fastforce simp: map_of_eq_None_iff set_inorder)
  ultimately show ?case
    using Node.IH ok by (cases x) (auto simp: map_add_def split: option.split)
qed simp

lemma inorder_fix [simp]:
  "inorder (fix_left hi l x r) = inorder l @ x # inorder r"
  "inorder (fix_right hi l x r) = inorder l @ x # inorder r"
  by (simp_all add: fix_left_def fix_right_def split: tree.split)

lemma inorder_merge [simp]: "inorder (treap_merge hi l r) = inorder l @ inorder r"
  by (induction hi l r rule: treap_merge.induct) auto

lemma inorder_set: "smap_ok (inorder t) \<Longrightarrow> inorder (treap_set hi k v t) = put_or_erase k v (inorder t)"
proof (induction t)
  case Leaf
  show ?case by (simp add: put_or_erase_def split: option.split)
next
  case (Node l x r)
  then have ok: "smap_ok (inorder l)" "smap_ok (inorder r)" and l: "\<forall>y \<in> set (inorder l). fst y < fst x"
    and r: "\<forall>y \<in> set (inorder r). fst x < fst y"
    by (auto simp: smap_ok_Node set_inorder)
  consider "k = fst x" | "k < fst x" | "fst x < k" by (rule linorder_cases)
  then show ?case
  proof cases
    case 1
    have "put k w (inorder l @ x # inorder r) = inorder l @ (k, w) # inorder r" for w
      by (rule put_here) (use l 1 in simp_all)
    moreover have "erase k (inorder l @ x # inorder r) = inorder l @ inorder r"
      by (rule erase_here) (use l 1 in simp_all)
    ultimately show ?thesis using 1 by (cases v) (simp_all add: put_or_erase_def)
  next
    case 2
    then have "k \<noteq> fst x" by simp
    moreover have "\<forall>y \<in> set (x # inorder r). k < fst y" using 2 r by auto
    ultimately show ?thesis
      using 2 Node.IH(1) [OF ok(1)] l by (cases v) (simp_all add: put_or_erase_def put_left erase_left)
  next
    case 3
    then have "k \<noteq> fst x" "\<not> k < fst x" by auto
    then show ?thesis
      using 3 Node.IH(2) [OF ok(2)] l by (cases v) (simp_all add: put_or_erase_def put_right erase_right)
  qed
qed

section \<open>The heap order\<close>

context priority_order
begin

lemma heap_root: "heaped hi (Node l x r) \<Longrightarrow> y \<in> set_tree (Node l x r) \<Longrightarrow> y = x \<or> hi (fst x) (fst y)"
  by auto

lemma heap_mono: "hi a (fst x) \<Longrightarrow> heaped hi (Node l x r) \<Longrightarrow> y \<in> set_tree (Node l x r) \<Longrightarrow> hi a (fst y)"
  using hi_trans by auto

lemma set_tree_merge [simp]: "set_tree (treap_merge hi l r) = set_tree l \<union> set_tree r"
  by (simp flip: set_inorder)

lemma heap_merge:
  "heaped hi l \<Longrightarrow> heaped hi r \<Longrightarrow> \<forall>x \<in> set_tree l. \<forall>y \<in> set_tree r. fst x \<noteq> fst y \<Longrightarrow> heaped hi (treap_merge hi l r)"
proof (induction "size l + size r" arbitrary: l r rule: less_induct)
  case less
  show ?case
  proof (cases "l = Leaf \<or> r = Leaf")
    case True
    then show ?thesis using less.prems by (cases l; cases r) auto
  next
    case False
    then obtain a x b c y d where l: "l = Node a x b" and r: "r = Node c y d" by (metis tree.exhaust)
    have ne: "fst x \<noteq> fst y" using less.prems(3) l r by auto
    show ?thesis
    proof (cases "hi (fst x) (fst y)")
      case True
      have "heaped hi (treap_merge hi b r)" using less.prems by (intro less.hyps) (auto simp: l)
      moreover have "\<forall>z \<in> set_tree r. hi (fst x) (fst z)"
        using heap_mono [OF True] less.prems(2) r by blast
      ultimately show ?thesis using True less.prems(1) by (auto simp: l r)
    next
      case False
      then have yx: "hi (fst y) (fst x)" using ne hi_total by blast
      have "heaped hi (treap_merge hi l c)" using less.prems by (intro less.hyps) (auto simp: r)
      moreover have "\<forall>z \<in> set_tree l. hi (fst y) (fst z)"
        using heap_mono [OF yx] less.prems(1) l by blast
      ultimately show ?thesis using False less.prems(2) by (auto simp: l r)
    qed
  qed
qed

lemma set_tree_set:
  assumes "smap_ok (inorder t)"
  shows "set_tree (treap_set hi k v t) \<subseteq> {y \<in> set_tree t. fst y \<noteq> k} \<union> {(k, w) | w. v = Some w}"
proof -
  have ok: "smap_ok (inorder (treap_set hi k v t))" using assms by (simp add: inorder_set)
  have "map_of (inorder (treap_set hi k v t)) = (map_of (inorder t))(k := v)"
    using assms by (simp add: inorder_set)
  then show ?thesis
    unfolding set_inorder [symmetric] smap_ok_set [OF ok] smap_ok_set [OF assms]
    by (auto split: if_splits)
qed

lemma heap_fix_left:
  assumes "heaped hi l'" and "heaped hi r" and "\<forall>y \<in> set_tree r. hi (fst x) (fst y)"
    and "\<forall>y \<in> set_tree l'. fst y \<noteq> fst x" and "smap_ok (inorder l')"
    and "\<forall>y \<in> set_tree l'. fst y = k \<or> hi (fst x) (fst y)"
  shows "heaped hi (fix_left hi l' x r)"
proof (cases l')
  case Leaf
  then show ?thesis using assms by (simp add: fix_left_def)
next
  case (Node a y b)
  show ?thesis
  proof (cases "hi (fst y) (fst x)")
    case True
    then have k: "fst y = k" using assms(6) Node hi_irrefl hi_trans by (metis UnCI insertI1 tree.set(2) tree.set_intros(2))
    have "fst z \<noteq> k" if "z \<in> set_tree a \<union> set_tree b" for z
      using that assms(5) Node k by (auto simp: smap_ok_Node)
    then have "\<forall>z \<in> set_tree a \<union> set_tree b. hi (fst x) (fst z)" using assms(6) Node by auto
    moreover have "hi (fst y) (fst z)" if "hi (fst x) (fst z)" for z using hi_trans [OF True that] .
    ultimately show ?thesis using True assms(1-3) Node by (auto simp: fix_left_def)
  next
    case False
    then have "hi (fst x) (fst y)" using assms(4) Node hi_total by auto
    then have "\<forall>z \<in> set_tree l'. hi (fst x) (fst z)" using heap_mono assms(1) Node by metis
    then show ?thesis using False assms(1-3) Node by (auto simp: fix_left_def)
  qed
qed

lemma heap_fix_right:
  assumes "heaped hi r'" and "heaped hi l" and "\<forall>y \<in> set_tree l. hi (fst x) (fst y)"
    and "\<forall>y \<in> set_tree r'. fst y \<noteq> fst x" and "smap_ok (inorder r')"
    and "\<forall>y \<in> set_tree r'. fst y = k \<or> hi (fst x) (fst y)"
  shows "heaped hi (fix_right hi l x r')"
proof (cases r')
  case Leaf
  then show ?thesis using assms by (simp add: fix_right_def)
next
  case (Node a y b)
  show ?thesis
  proof (cases "hi (fst y) (fst x)")
    case True
    then have k: "fst y = k" using assms(6) Node hi_irrefl hi_trans by (metis UnCI insertI1 tree.set(2) tree.set_intros(2))
    have "fst z \<noteq> k" if "z \<in> set_tree a \<union> set_tree b" for z
      using that assms(5) Node k by (auto simp: smap_ok_Node)
    then have "\<forall>z \<in> set_tree a \<union> set_tree b. hi (fst x) (fst z)" using assms(6) Node by auto
    moreover have "hi (fst y) (fst z)" if "hi (fst x) (fst z)" for z using hi_trans [OF True that] .
    ultimately show ?thesis using True assms(1-3) Node by (auto simp: fix_right_def)
  next
    case False
    then have "hi (fst x) (fst y)" using assms(4) Node hi_total by auto
    then have "\<forall>z \<in> set_tree r'. hi (fst x) (fst z)" using heap_mono assms(1) Node by metis
    then show ?thesis using False assms(1-3) Node by (auto simp: fix_right_def)
  qed
qed

lemma heap_set: "treap hi t \<Longrightarrow> heaped hi (treap_set hi k v t)"
proof (induction t)
  case Leaf
  show ?case by (simp split: option.split)
next
  case (Node l x r)
  then have h: "heaped hi l" "heaped hi r" "\<forall>y \<in> set_tree l \<union> set_tree r. hi (fst x) (fst y)"
    and ok: "smap_ok (inorder l)" "smap_ok (inorder r)"
    and lt: "\<forall>y \<in> set_tree l. fst y < fst x" "\<forall>y \<in> set_tree r. fst x < fst y"
    by (auto simp: treap_def smap_ok_Node)
  have IH: "heaped hi (treap_set hi k v l)" "heaped hi (treap_set hi k v r)"
    using Node.IH h ok by (auto simp: treap_def)
  have ok': "smap_ok (inorder (treap_set hi k v l))" "smap_ok (inorder (treap_set hi k v r))"
    using ok by (auto simp: inorder_set)
  have sl: "\<forall>y \<in> set_tree (treap_set hi k v l). fst y = k \<or> y \<in> set_tree l"
    and sr: "\<forall>y \<in> set_tree (treap_set hi k v r). fst y = k \<or> y \<in> set_tree r"
    using set_tree_set [OF ok(1), of k v] set_tree_set [OF ok(2), of k v] by auto
  consider "k = fst x" | "k < fst x" | "fst x < k" by (rule linorder_cases)
  then show ?case
  proof cases
    case 1
    have "\<forall>y \<in> set_tree l. \<forall>z \<in> set_tree r. fst y \<noteq> fst z" using lt by force
    then show ?thesis using 1 h heap_merge [OF h(1,2)] by (auto split: option.split)
  next
    case 2
    have ne: "\<forall>y \<in> set_tree (treap_set hi k v l). fst y \<noteq> fst x" using sl lt(1) 2 by fastforce
    have "heaped hi (fix_left hi (treap_set hi k v l) x r)"
      by (rule heap_fix_left [OF IH(1) h(2) _ ne ok'(1)]) (use sl h(3) in blast)+
    then show ?thesis using 2 by auto
  next
    case 3
    have ne: "\<forall>y \<in> set_tree (treap_set hi k v r). fst y \<noteq> fst x" using sr lt(2) 3 by fastforce
    have "heaped hi (fix_right hi l x (treap_set hi k v r))"
      by (rule heap_fix_right [OF IH(2) h(1) _ ne ok'(2)]) (use sr h(3) in blast)+
    then show ?thesis using 3 by auto
  qed
qed

lemma treap_set_treap: "treap hi t \<Longrightarrow> treap hi (treap_set hi k v t)"
  using heap_set by (auto simp: treap_def inorder_set)

text \<open>A treap is determined by its contents.\<close>

lemma treap_unique: "treap hi t \<Longrightarrow> treap hi u \<Longrightarrow> inorder t = inorder u \<Longrightarrow> t = u"
proof (induction t arbitrary: u)
  case Leaf
  then show ?case by (cases u) auto
next
  case (Node l x r)
  then obtain l' x' r' where u: "u = Node l' x' r'" by (cases u) auto
  have sets: "set_tree (Node l x r) = set_tree u" using Node.prems(3) by (metis set_inorder)
  have "x = x'"
  proof (rule ccontr)
    assume ne: "x \<noteq> x'"
    then have "hi (fst x') (fst x)" "hi (fst x) (fst x')"
      using Node.prems(1,2) sets u heap_root unfolding treap_def
      by (metis UnI1 insertI1 insert_is_Un tree.set(2) Un_commute)+
    then show False using hi_trans hi_irrefl by blast
  qed
  moreover have "inorder l = inorder l' \<and> inorder r = inorder r'"
  proof -
    have d: "distinct (inorder l @ x # inorder r)"
      using Node.prems(1) smap_ok_distinct by (fastforce simp: treap_def distinct_map)
    then show ?thesis
      using Node.prems(3) \<open>x = x'\<close> u append_Cons_eq_iff [of x "inorder l" "inorder r" "inorder l'" "inorder r'"]
      by auto
  qed
  ultimately show ?case
    using Node u by (auto simp: treap_def smap_ok_Node)
qed

text \<open>Applying a batch of changes, in any order of edits, gives the treap of the new contents.\<close>

lemma treap_inorder_set: "treap hi t \<Longrightarrow> inorder (treap_set hi k v t) = put_or_erase k v (inorder t)"
  by (simp add: treap_def inorder_set)

lemma treap_fold:
  "treap hi t \<Longrightarrow> treap hi (fold (\<lambda>(k, v). treap_set hi k v) c t) \<and>
    inorder (fold (\<lambda>(k, v). treap_set hi k v) c t) = apply_changes c (inorder t)"
proof (induction c arbitrary: t)
  case (Cons x c)
  then show ?case using Cons.IH [OF treap_set_treap [OF Cons.prems]]
    by (cases x) (simp add: treap_inorder_set)
qed simp

end

end
