(* ===== verification/Metadata_Tree.thy ===== *)
theory Metadata_Tree
  imports State_Exn Treap Checksum
begin

text \<open>
  \<^verbatim>\<open>daemon/metadata_tree.cpp\<close>: the copy-on-write treap of namespace metadata. Nodes are immutable
  objects named by the hash of their bytes. An editor reads nodes of the store (the parameter
  \<open>get\<close>, \<^verbatim>\<open>Journal::get_object\<close>) through a memo, keeps the nodes it makes as pending objects, and
  returns a plan: a manifest that names the new root, and the new objects reachable from it.
\<close>

section \<open>Nodes\<close>

record tnode =
  n_key :: string
  n_value :: oid
  n_left :: oid
  n_right :: oid

record editor =
  te_root :: oid
  te_cache :: "(oid, tnode) smap"
  te_heights :: "(oid, nat) smap"
  te_pending :: "(oid, bytes) smap"

record plan =
  p_manifest :: bytes
  p_objects :: "bytes list"

definition open_editor :: "oid \<Rightarrow> editor" where
  "open_editor root = \<lparr>te_root = root, te_cache = [], te_heights = [], te_pending = []\<rparr>"

abbreviation forkfs_prefix :: string where "forkfs_prefix \<equiv> CHR 0x00 # ''forkfs/''"
abbreviation namespace_root :: string where "namespace_root \<equiv> CHR 0x00 # ''forkfs/root''"

definition valid_key :: "string \<Rightarrow> bool" where
  "valid_key key \<longleftrightarrow> 8 \<le> length key \<and> length key \<le> 1024 \<and> prefix forkfs_prefix key"

definition priority :: "(bytes \<Rightarrow> oid) \<Rightarrow> string \<Rightarrow> oid" where
  "priority sha key = object_hash sha (''forkfs.metadata.priority.v1'' @ key)"

definition node_parse :: "bytes \<Rightarrow> tnode res" where
  "node_parse b =
     need (108 \<le> length b \<and> slice 0 8 b = ''FFTRNO01'') ''invalid metadata tree node'' (
     let n = load_at b 8 4 in
     need (8 \<le> n \<and> n \<le> 1024 \<and> length b = 108 + n) ''invalid metadata node length'' (
     let key = drop 108 b in
     need (valid_key key) ''invalid metadata node key'' (
     let x = oid_at b 12 in
     need (x \<noteq> 0) ''zero metadata value reference'' (
     Inr \<lparr>n_key = key, n_value = x, n_left = oid_at b 44, n_right = oid_at b 76\<rparr>))))"

definition tree_node :: "(oid \<Rightarrow> bytes res) \<Rightarrow> oid \<Rightarrow> (editor, tnode) op" where
  "tree_node get i = (\<lambda>e. case map_of (te_cache e) i of
       Some n \<Rightarrow> (Inr n, e)
     | None \<Rightarrow> bindS (liftS (get i)) (\<lambda>b. bindS (liftS (node_parse b)) (\<lambda>n.
         bindS (modifyS (\<lambda>e. e\<lparr>te_cache := emplace i n (te_cache e)\<rparr>)) (\<lambda>_. returnS n))) e)"

definition higher :: "(bytes \<Rightarrow> oid) \<Rightarrow> tnode \<Rightarrow> tnode \<Rightarrow> bool" where
  "higher sha a b = (let pa = priority sha (n_key a); pb = priority sha (n_key b) in
     if pa = pb then n_key b < n_key a else pb < pa)"

definition node_bytes :: "tnode \<Rightarrow> bytes" where
  "node_bytes n = ''FFTRNO01'' @ le_store 4 (length (n_key n)) @ oid_bytes (n_value n)
     @ oid_bytes (n_left n) @ oid_bytes (n_right n) @ n_key n"

definition make_node :: "(bytes \<Rightarrow> oid) \<Rightarrow> tnode \<Rightarrow> (editor, oid) op" where
  "make_node sha n =
     needS (valid_key (n_key n) \<and> n_value n \<noteq> 0) ''invalid metadata node'' (
     let b = node_bytes n; i = object_hash sha b in
     bindS (modifyS (\<lambda>e. e\<lparr>te_cache := put i n (te_cache e),
                           te_pending := emplace i b (te_pending e)\<rparr>)) (\<lambda>_. returnS i))"

section \<open>Heights\<close>

function tree_height :: "(oid \<Rightarrow> bytes res) \<Rightarrow> nat \<Rightarrow> oid \<Rightarrow> (editor, nat) op" where
  "tree_height get depth root e =
     (if root = 0 then (Inr 0, e)
      else if \<not> depth < 256 then (Inl (Runtime_error ''metadata tree depth limit''), e)
      else case map_of (te_heights e) root of
        Some h \<Rightarrow> needS (h \<le> 256 - depth) ''metadata tree depth limit'' (returnS h) e
      | None \<Rightarrow> bindS (tree_node get root) (\<lambda>n.
          bindS (tree_height get (depth + 1) (n_left n)) (\<lambda>hl.
          bindS (tree_height get (depth + 1) (n_right n)) (\<lambda>hr.
          bindS (modifyS (\<lambda>e. e\<lparr>te_heights := emplace root (1 + max hl hr) (te_heights e)\<rparr>)) (\<lambda>_.
          returnS (1 + max hl hr))))) e)"
  by pat_completeness auto
termination
  by (relation "measure (\<lambda>(get, depth, root, e). 256 - depth)") auto

declare tree_height.simps [simp del]

section \<open>Merging and editing\<close>

text \<open>Both edits walk down with a stack of copied nodes and a set of visited identities, then
  rebuild upwards. The stack is a list with its top first.\<close>

lemma unvisited: "(i :: oid) \<notin> set visited \<Longrightarrow> 0 < card (UNIV - set visited)"
  by (auto simp: card_gt_0_iff)

function merge_loop ::
    "(bytes \<Rightarrow> oid) \<Rightarrow> (oid \<Rightarrow> bytes res) \<Rightarrow> oid list \<Rightarrow> (tnode \<times> bool) list \<Rightarrow> oid \<Rightarrow> oid \<Rightarrow>
      (editor, (tnode \<times> bool) list \<times> oid) op" where
  "merge_loop sha get visited path lt rt e =
     (if lt = 0 \<or> rt = 0 then (Inr (path, if lt = 0 then rt else lt), e)
      else bindS (tree_node get lt) (\<lambda>a. bindS (tree_node get rt) (\<lambda>b.
        if higher sha a b then
          (if lt \<in> set visited then throwS (Runtime_error ''metadata tree cycle'')
           else merge_loop sha get (lt # visited) ((a, True) # path) (n_right a) rt)
        else
          (if rt \<in> set visited then throwS (Runtime_error ''metadata tree cycle'')
           else merge_loop sha get (rt # visited) ((b, False) # path) lt (n_left b)))) e)"
  by pat_completeness auto
termination
  by (relation "measure (\<lambda>(sha, get, visited, path, lt, rt, e). card (UNIV - set visited))")
     (auto dest: unvisited)

declare merge_loop.simps [simp del]

definition merge_step :: "(bytes \<Rightarrow> oid) \<Rightarrow> tnode \<times> bool \<Rightarrow> oid \<Rightarrow> (editor, oid) op" where
  "merge_step sha = (\<lambda>(n, replace_right) below.
     make_node sha (if replace_right then n\<lparr>n_right := below\<rparr> else n\<lparr>n_left := below\<rparr>))"

definition tree_merge :: "(bytes \<Rightarrow> oid) \<Rightarrow> (oid \<Rightarrow> bytes res) \<Rightarrow> oid \<Rightarrow> oid \<Rightarrow> (editor, oid) op" where
  "tree_merge sha get lt rt =
     bindS (merge_loop sha get [] [] lt rt) (\<lambda>(path, below). foldS (merge_step sha) path below)"

text \<open>The walk down of \<open>set\<close> ends with the unchanged root, or with the replacement of the subtree
  at which it stopped.\<close>

datatype set_outcome = Unchanged | Changed "(tnode \<times> bool) list" oid

function set_loop ::
    "(bytes \<Rightarrow> oid) \<Rightarrow> (oid \<Rightarrow> bytes res) \<Rightarrow> string \<Rightarrow> oid option \<Rightarrow> oid list \<Rightarrow> (tnode \<times> bool) list \<Rightarrow> oid \<Rightarrow>
      (editor, set_outcome) op" where
  "set_loop sha get key val visited path current e =
     (if current = 0 then (case val of
          None \<Rightarrow> (Inr Unchanged, e)
        | Some w \<Rightarrow> bindS (make_node sha \<lparr>n_key = key, n_value = w, n_left = 0, n_right = 0\<rparr>)
            (\<lambda>i. returnS (Changed path i)) e)
      else if current \<in> set visited then (Inl (Runtime_error ''metadata tree cycle''), e)
      else bindS (tree_node get current) (\<lambda>n.
        if key = n_key n then (case val of
            Some w \<Rightarrow> if n_value n = w then returnS Unchanged
                     else bindS (make_node sha (n\<lparr>n_value := w\<rparr>)) (\<lambda>i. returnS (Changed path i))
          | None \<Rightarrow> bindS (tree_merge sha get (n_left n) (n_right n)) (\<lambda>i. returnS (Changed path i)))
        else set_loop sha get key val (current # visited) ((n, key < n_key n) # path)
               (if key < n_key n then n_left n else n_right n)) e)"
  by pat_completeness auto
termination
  by (relation "measure (\<lambda>(sha, get, key, val, visited, path, current, e). card (UNIV - set visited))")
     (auto dest: unvisited)

declare set_loop.simps [simp del]

text \<open>One step up: the copied node takes its new child, and a child of higher priority is rotated
  above it.\<close>

definition set_step ::
    "(bytes \<Rightarrow> oid) \<Rightarrow> (oid \<Rightarrow> bytes res) \<Rightarrow> tnode \<times> bool \<Rightarrow> oid \<Rightarrow> (editor, oid) op" where
  "set_step sha get = (\<lambda>(n, went_left) below.
     if went_left then
       (let n1 = n\<lparr>n_left := below\<rparr> in
        if below = 0 then make_node sha n1
        else bindS (tree_node get below) (\<lambda>top.
          if higher sha top n1 then
            bindS (make_node sha (n1\<lparr>n_left := n_right top\<rparr>)) (\<lambda>i.
            make_node sha (top\<lparr>n_right := i\<rparr>))
          else make_node sha n1))
     else
       (let n1 = n\<lparr>n_right := below\<rparr> in
        if below = 0 then make_node sha n1
        else bindS (tree_node get below) (\<lambda>top.
          if higher sha top n1 then
            bindS (make_node sha (n1\<lparr>n_right := n_left top\<rparr>)) (\<lambda>i.
            make_node sha (top\<lparr>n_left := i\<rparr>))
          else make_node sha n1)))"

definition tree_set ::
    "(bytes \<Rightarrow> oid) \<Rightarrow> (oid \<Rightarrow> bytes res) \<Rightarrow> oid \<Rightarrow> string \<Rightarrow> oid option \<Rightarrow> (editor, oid) op" where
  "tree_set sha get root key val =
     bindS (set_loop sha get key val [] [] root) (\<lambda>outcome. case outcome of
         Unchanged \<Rightarrow> returnS root
       | Changed path below \<Rightarrow> foldS (set_step sha get) path below)"

section \<open>Reads\<close>

function lookup_loop :: "(oid \<Rightarrow> bytes res) \<Rightarrow> string \<Rightarrow> nat \<Rightarrow> oid \<Rightarrow> (editor, oid option) op" where
  "lookup_loop get key depth current e =
     (if current = 0 then (Inr None, e)
      else if \<not> depth < 256 then (Inl (Runtime_error ''metadata tree depth limit''), e)
      else bindS (tree_node get current) (\<lambda>n.
        if key = n_key n then returnS (Some (n_value n))
        else lookup_loop get key (depth + 1) (if key < n_key n then n_left n else n_right n)) e)"
  by pat_completeness auto
termination
  by (relation "measure (\<lambda>(get, key, depth, current, e). 256 - depth)") auto

declare lookup_loop.simps [simp del]

definition lookup_key :: "(oid \<Rightarrow> bytes res) \<Rightarrow> string \<Rightarrow> (editor, oid option) op" where
  "lookup_key get key = (\<lambda>e. lookup_loop get key 0 (te_root e) e)"

text \<open>The least string above every string with a prefix, when there is one: the last byte below
  255 is incremented and what follows is cut.\<close>

fun upper_rev :: "string \<Rightarrow> string option" where
  "upper_rev [] = None"
| "upper_rev (c # cs) = (if c = CHR 0xFF then upper_rev cs
     else Some (rev (char_of (of_char c + 1 :: nat) # cs)))"

definition upper_bound :: "string \<Rightarrow> string option" where
  "upper_bound p = upper_rev (rev p)"

definition below_upper :: "string \<Rightarrow> string \<Rightarrow> bool" where
  "below_upper p key = (case upper_bound p of None \<Rightarrow> True | Some upper \<Rightarrow> key < upper)"

function keys_walk ::
    "(oid \<Rightarrow> bytes res) \<Rightarrow> string \<Rightarrow> nat \<Rightarrow> oid \<Rightarrow> string list \<Rightarrow> (editor, string list) op" where
  "keys_walk get p depth i out e =
     (if i = 0 then (Inr out, e)
      else if \<not> depth < 256 then (Inl (Runtime_error ''metadata tree depth limit''), e)
      else bindS (tree_node get i) (\<lambda>n.
        bindS (if p \<le> n_key n then keys_walk get p (depth + 1) (n_left n) out else returnS out) (\<lambda>out1.
        let out2 = (if prefix p (n_key n) then out1 @ [n_key n] else out1) in
        if below_upper p (n_key n) then keys_walk get p (depth + 1) (n_right n) out2
        else returnS out2)) e)"
  by pat_completeness auto
termination
  by (relation "measure (\<lambda>(get, p, depth, i, out, e). 256 - depth)") auto

declare keys_walk.simps [simp del]

definition tree_keys :: "(oid \<Rightarrow> bytes res) \<Rightarrow> string \<Rightarrow> (editor, string list) op" where
  "tree_keys get p = (\<lambda>e. keys_walk get p 0 (te_root e) [] e)"

function page_walk ::
    "(oid \<Rightarrow> bytes res) \<Rightarrow> string \<Rightarrow> string \<Rightarrow> nat \<Rightarrow> nat \<Rightarrow> oid \<Rightarrow> string list \<Rightarrow> (editor, string list) op" where
  "page_walk get p after limit depth i out e =
     (if i = 0 \<or> length out = limit then (Inr out, e)
      else if \<not> depth < 256 then (Inl (Runtime_error ''metadata tree depth limit''), e)
      else bindS (tree_node get i) (\<lambda>n.
        bindS (if (if after = [] then p else after) < n_key n
               then page_walk get p after limit (depth + 1) (n_left n) out else returnS out) (\<lambda>out1.
        if length out1 = limit then returnS out1
        else let out2 = (if prefix p (n_key n) \<and> (after = [] \<or> after < n_key n)
                         then out1 @ [n_key n] else out1) in
          if length out2 < limit \<and> below_upper p (n_key n)
          then page_walk get p after limit (depth + 1) (n_right n) out2
          else returnS out2)) e)"
  by pat_completeness auto
termination
  by (relation "measure (\<lambda>(get, p, after, limit, depth, i, out, e). 256 - depth)") auto

declare page_walk.simps [simp del]

definition tree_page :: "(oid \<Rightarrow> bytes res) \<Rightarrow> string \<Rightarrow> string \<Rightarrow> nat \<Rightarrow> (editor, string list) op" where
  "tree_page get p after limit =
     needS (0 < limit \<and> limit \<le> 1025 \<and> (after = [] \<or> prefix p after)) ''invalid metadata page request'' (
     \<lambda>e. page_walk get p after limit 0 (te_root e) [] e)"

function entries_walk ::
    "(bytes \<Rightarrow> oid) \<Rightarrow> (oid \<Rightarrow> bytes res) \<Rightarrow> string option \<Rightarrow> string option \<Rightarrow> nat \<Rightarrow> oid \<Rightarrow>
      oid list \<times> (string, oid) smap \<Rightarrow> (editor, oid list \<times> (string, oid) smap) op" where
  "entries_walk sha get lo hi depth i acc e =
     (if i = 0 then (Inr acc, e)
      else if \<not> (depth < 256 \<and> i \<notin> set (fst acc)) then (Inl (Runtime_error ''metadata tree cycle/depth''), e)
      else bindS (tree_node get i) (\<lambda>n.
        needS ((case lo of None \<Rightarrow> True | Some x \<Rightarrow> x < n_key n) \<and>
               (case hi of None \<Rightarrow> True | Some x \<Rightarrow> n_key n < x)) ''metadata tree ordering mismatch'' (
        bindS (if n_left n = 0 then returnS ()
               else bindS (tree_node get (n_left n)) (\<lambda>c.
                 needS (\<not> higher sha c n) ''metadata tree heap mismatch'' (returnS ()))) (\<lambda>_.
        bindS (if n_right n = 0 then returnS ()
               else bindS (tree_node get (n_right n)) (\<lambda>c.
                 needS (\<not> higher sha c n) ''metadata tree heap mismatch'' (returnS ()))) (\<lambda>_.
        bindS (entries_walk sha get lo (Some (n_key n)) (depth + 1) (n_left n) (i # fst acc, snd acc)) (\<lambda>acc1.
        entries_walk sha get (Some (n_key n)) hi (depth + 1) (n_right n)
          (fst acc1, emplace (n_key n) (n_value n) (snd acc1))))))) e)"
  by pat_completeness auto
termination
  by (relation "measure (\<lambda>(sha, get, lo, hi, depth, i, acc, e). 256 - depth)") auto

declare entries_walk.simps [simp del]

definition tree_entries :: "(bytes \<Rightarrow> oid) \<Rightarrow> (oid \<Rightarrow> bytes res) \<Rightarrow> (editor, (string, oid) smap) op" where
  "tree_entries sha get =
     (\<lambda>e. bindS (entries_walk sha get None None 0 (te_root e) ([], [])) (\<lambda>acc. returnS (snd acc)) e)"

section \<open>Publication plans\<close>

text \<open>The recursion of \<open>collect\<close> visits each pending node once, so its depth is at most their
  number; the fuel is one more.\<close>

fun collect_walk ::
    "nat \<Rightarrow> (oid \<Rightarrow> bytes res) \<Rightarrow> oid \<Rightarrow> oid list \<times> bytes list \<Rightarrow> (editor, oid list \<times> bytes list) op" where
  "collect_walk 0 get i acc = throwS (Runtime_error ''out of fuel'')"
| "collect_walk (Suc fuel) get i acc = (\<lambda>e. case map_of (te_pending e) i of
       None \<Rightarrow> (Inr acc, e)
     | Some b \<Rightarrow> if i \<in> set (fst acc) then (Inr acc, e)
         else bindS (tree_node get i) (\<lambda>n.
           bindS (collect_walk fuel get (n_left n) (i # fst acc, snd acc)) (\<lambda>acc1.
           bindS (collect_walk fuel get (n_right n) acc1) (\<lambda>acc2.
           returnS (fst acc2, snd acc2 @ [b])))) e)"

definition check_change :: "string \<times> oid option \<Rightarrow> unit \<Rightarrow> unit res" where
  "check_change = (\<lambda>(key, val) _.
     need (valid_key key) ''invalid metadata change key'' (
     need (val \<noteq> Some 0) ''zero metadata value reference'' (
     need (key \<noteq> namespace_root \<or> val \<noteq> None) ''cannot delete namespace root'' (Inr ()))))"

definition manifest_of :: "oid \<Rightarrow> bytes" where
  "manifest_of root = ''FFTREE01'' @ oid_bytes root"

definition tree_apply ::
    "(bytes \<Rightarrow> oid) \<Rightarrow> (oid \<Rightarrow> bytes res) \<Rightarrow> (string, oid option) smap \<Rightarrow> (editor, plan) op" where
  "tree_apply sha get changes =
     bindS (liftS (foldR check_change changes ())) (\<lambda>_.
     bindS (if map_of changes namespace_root \<noteq> None then returnS True
            else bindS (lookup_key get namespace_root) (\<lambda>r. returnS (r \<noteq> None))) (\<lambda>rooted.
     needS rooted ''metadata tree missing namespace root'' (
     bindS getS (\<lambda>e0.
     bindS (foldS (\<lambda>(key, val) candidate. tree_set sha get candidate key val) changes (te_root e0)) (\<lambda>candidate.
     bindS (if candidate \<noteq> te_root e0 then tree_height get 0 candidate else returnS 0) (\<lambda>_.
     bindS getS (\<lambda>e1.
     bindS (collect_walk (Suc (length (te_pending e1))) get candidate ([], [])) (\<lambda>acc.
     bindS (modifyS (\<lambda>e. e\<lparr>te_root := candidate\<rparr>)) (\<lambda>_.
     returnS \<lparr>p_manifest = manifest_of candidate, p_objects = snd acc\<rparr>)))))))))"

end
