(* ===== verification/Namespace_View.thy ===== *)
theory Namespace_View
  imports Repository Metadata_Tree
begin

text \<open>
  \<^verbatim>\<open>daemon/metadata_view.cpp\<close>: one version of a namespace, a map from metadata keys to objects. A
  version is the root of a metadata tree (LevelDB), a list of immutable sorted runs, newest
  first, or the flat roots of the journal. Reads go through memos that hold decoded immutable
  objects; since \<^verbatim>\<open>get_object\<close> is a function of the identity, the memos are left out and each read
  decodes anew.
\<close>

section \<open>Names\<close>

abbreviation history :: string where "history \<equiv> CHR 0x00 # ''forkfs-history/''"
abbreviation allocations :: string where "allocations \<equiv> CHR 0x00 # ''forkfs/allocated/''"

definition between :: "char \<Rightarrow> char \<Rightarrow> char \<Rightarrow> bool" where
  "between lo hi c \<longleftrightarrow> lo \<le> c \<and> c \<le> hi"

definition name_char :: "char \<Rightarrow> bool" where
  "name_char c \<longleftrightarrow> between (CHR ''a'') (CHR ''z'') c \<or> between (CHR ''A'') (CHR ''Z'') c \<or>
     between (CHR ''0'') (CHR ''9'') c \<or> c \<in> set ''_-.''"

definition valid_name :: "string \<Rightarrow> unit res" where
  "valid_name name = need (name \<noteq> [] \<and> length name \<le> 64 \<and> name \<noteq> ''.'' \<and> name \<noteq> ''..'' \<and> list_all name_char name)
     ''invalid World/revision name'' (Inr ())"

section \<open>Sorted runs\<close>

type_synonym delta = "(string, oid option) smap"

definition meta_u32 :: "bytes \<Rightarrow> nat \<Rightarrow> nat res" where
  "meta_u32 b at = need (at \<le> length b \<and> 4 \<le> length b - at) ''truncated metadata integer'' (Inr (load_at b at 4))"

definition magic :: "bytes \<Rightarrow> string \<Rightarrow> bool" where
  "magic b text \<longleftrightarrow> 12 \<le> length b \<and> slice 0 8 b = text"

text \<open>The decoding loop: entries still to read, index, position, previous key, entries so far.\<close>

primrec decode_entries ::
    "nat \<Rightarrow> bool \<Rightarrow> bytes \<Rightarrow> nat \<Rightarrow> nat \<Rightarrow> string \<Rightarrow> delta \<Rightarrow> (nat \<times> delta) res" where
  "decode_entries 0 full b i at previous result = Inr (at, result)"
| "decode_entries (Suc todo) full b i at previous result =
     bindR (if full then Inr 1 else meta_u32 b at) (\<lambda>op.
     let at = (if full then at else at + 4) in
     bindR (meta_u32 b at) (\<lambda>n.
     let at = at + 4 in
     need ((op = 1 \<or> op = 2) \<and> 8 \<le> n \<and> n \<le> 1024 \<and> n + 32 \<le> length b - at) ''invalid run entry'' (
     let key = slice at n b; at = at + n; target = oid_at b at; at = at + 32 in
     need (prefix forkfs_prefix key \<and> (i = 0 \<or> previous < key)) ''unordered run keys'' (
     if op = 1 then
       need (target \<noteq> 0) ''zero PUT reference'' (
       decode_entries todo full b (i + 1) at key (emplace key (Some target) result))
     else
       need (target = 0) ''nonzero tombstone reference'' (
       decode_entries todo full b (i + 1) at key (emplace key None result))))))"

definition decode_run :: "bytes \<Rightarrow> delta res" where
  "decode_run b =
     (let full = magic b ''FFMAN001'' in
     need (full \<or> magic b ''FFRUN001'') ''unsupported sorted run'' (
     bindR (meta_u32 b 8) (\<lambda>count.
     need (0 < count \<and> count \<le> (length b - 12) div (if full then 44 else 48)) ''invalid sorted run count'' (
     bindR (decode_entries count full b 0 12 [] []) (\<lambda>(at, result).
     need (at = length b) ''unexpected sorted run suffix'' (Inr result))))))"

definition encode_entry :: "string \<times> oid option \<Rightarrow> bytes" where
  "encode_entry = (\<lambda>(key, i). le_store 4 (if i = None then 2 else 1) @ le_store 4 (length key) @ key @
     (case i of Some x \<Rightarrow> oid_bytes x | None \<Rightarrow> replicate 32 (CHR 0x00)))"

definition run_key_check :: "string \<times> oid option \<Rightarrow> nat \<Rightarrow> nat res" where
  "run_key_check = (\<lambda>(key, _) n. need (prefix forkfs_prefix key \<and> length key \<le> 1024) ''invalid run key''
     (Inr (n + 40 + length key)))"

definition encode_run :: "delta \<Rightarrow> bytes res" where
  "encode_run changes =
     need (changes \<noteq> []) ''cannot encode empty run'' (
     bindR (foldR run_key_check changes 12) (\<lambda>n.
     need (n \<le> 256 * 1024) ''sorted run exceeds 256 KiB'' (
     Inr (''FFRUN001'' @ le_store 4 (length changes) @ concat (map encode_entry changes)))))"

definition encode_manifest :: "oid list \<Rightarrow> bytes res" where
  "encode_manifest runs =
     need (runs \<noteq> [] \<and> length runs \<le> 32) ''manifest run count exceeds prototype limit'' (
     Inr (''FFMAN002'' @ le_store 4 (length runs) @ concat (map oid_bytes runs)))"

section \<open>Opening a version\<close>

datatype nview = Legacy | Tree oid | Runs "oid list"

primrec decode_run_ids :: "nat \<Rightarrow> bytes \<Rightarrow> nat \<Rightarrow> oid list \<Rightarrow> oid list res" where
  "decode_run_ids 0 b i runs = Inr runs"
| "decode_run_ids (Suc todo) b i runs =
     (let id = oid_at b (12 + i * 32) in
      need (id \<noteq> 0 \<and> id \<notin> set runs) ''duplicate or zero run reference'' (
      decode_run_ids todo b (i + 1) (runs @ [id])))"

definition parse_manifest :: "oid \<Rightarrow> bytes \<Rightarrow> nview res" where
  "parse_manifest manifest b =
     (if length b = 40 \<and> slice 0 8 b = ''FFTREE01'' then
        let root = oid_at b 8 in need (root \<noteq> 0) ''empty metadata tree root'' (Inr (Tree root))
      else if magic b ''FFMAN001'' then Inr (Runs [manifest])
      else
        need (magic b ''FFMAN002'') ''unsupported namespace manifest'' (
        bindR (meta_u32 b 8) (\<lambda>n.
        need (0 < n \<and> n \<le> 32 \<and> length b = 12 + n * 32) ''invalid manifest run count'' (
        bindR (decode_run_ids n b 0 []) (\<lambda>runs. Inr (Runs runs))))))"

definition view_run :: "journal \<Rightarrow> oid \<Rightarrow> delta res" where
  "view_run j i = bindR (j_get_object j i) decode_run"

fun runs_lookup :: "journal \<Rightarrow> oid list \<Rightarrow> string \<Rightarrow> oid option res" where
  "runs_lookup j [] key = Inr None"
| "runs_lookup j (i # runs) key = bindR (view_run j i) (\<lambda>entries. case map_of entries key of
       Some x \<Rightarrow> Inr x | None \<Rightarrow> runs_lookup j runs key)"

definition view_lookup :: "journal \<Rightarrow> nview \<Rightarrow> string \<Rightarrow> oid option res" where
  "view_lookup j v key = (case v of
       Tree root \<Rightarrow> fst (lookup_key (j_get_object j) key (open_editor root))
     | Legacy \<Rightarrow> (if j_contains j key then bindR (j_root_object j key) (\<lambda>i. Inr (Some i)) else Inr None)
     | Runs runs \<Rightarrow> runs_lookup j runs key)"

definition load_view :: "journal \<Rightarrow> oid \<Rightarrow> bool \<Rightarrow> nview res" where
  "load_view j manifest validate_root =
     bindR (j_get_object j manifest) (\<lambda>b.
     bindR (parse_manifest manifest b) (\<lambda>v.
     if validate_root then bindR (view_lookup j v namespace_root) (\<lambda>r.
       need (r \<noteq> None) ''manifest missing namespace root'' (Inr v))
     else Inr v))"

definition open_view :: "journal \<Rightarrow> string \<Rightarrow> bool \<Rightarrow> bool \<Rightarrow> nview res" where
  "open_view j name revision validate_root =
     bindR (valid_name name) (\<lambda>_.
     if name = ''main'' \<and> \<not> revision \<and> \<not> j_contains j (history @ ''world/main'') then Inr Legacy
     else bindR (if revision then
            bindR (j_get j (history @ ''revision/'' @ name)) (\<lambda>descriptor.
            need (length descriptor = 80 \<and> slice 0 8 descriptor = ''FFREV001'') ''invalid revision record'' (
            Inr (oid_at descriptor 8)))
          else j_root_object j (history @ ''world/'' @ name)) (\<lambda>manifest.
     load_view j manifest validate_root))"

section \<open>Reads\<close>

definition view_contains :: "journal \<Rightarrow> nview \<Rightarrow> string \<Rightarrow> bool res" where
  "view_contains j v key =
     (if prefix allocations key \<and> (j_contains j key \<or>
           j_contains j (history @ ''allocated/'' @ drop (length allocations) key))
      then Inr True
      else bindR (view_lookup j v key) (\<lambda>r. Inr (r \<noteq> None)))"

definition view_get :: "journal \<Rightarrow> nview \<Rightarrow> string \<Rightarrow> bytes res" where
  "view_get j v key = bindR (view_lookup j v key) (\<lambda>r. case r of
       None \<Rightarrow> Inl (Runtime_error ''namespace key not found'') | Some i \<Rightarrow> j_get_object j i)"

definition select_run :: "string \<Rightarrow> delta \<Rightarrow> delta \<Rightarrow> delta" where
  "select_run p entries selected = fold (\<lambda>(k, v). emplace k v)
     (takeWhile (\<lambda>x. prefix p (fst x)) (dropWhile (\<lambda>x. fst x < p) entries)) selected"

definition view_keys :: "journal \<Rightarrow> nview \<Rightarrow> string \<Rightarrow> string list res" where
  "view_keys j v p = (case v of
       Tree root \<Rightarrow> fst (tree_keys (j_get_object j) p (open_editor root))
     | Legacy \<Rightarrow> Inr (j_keys j p)
     | Runs runs \<Rightarrow> bindR (foldR (\<lambda>i selected. bindR (view_run j i) (\<lambda>entries. Inr (select_run p entries selected))) runs [])
         (\<lambda>selected. Inr (map fst (filter (\<lambda>(k, i). i \<noteq> None) selected))))"

definition view_page :: "journal \<Rightarrow> nview \<Rightarrow> string \<Rightarrow> string \<Rightarrow> nat \<Rightarrow> string list res" where
  "view_page j v p after limit = (case v of
       Tree root \<Rightarrow> fst (tree_page (j_get_object j) p after limit (open_editor root))
     | _ \<Rightarrow> Inl (Runtime_error ''paged directory enumeration requires a CoW tree''))"

definition view_references :: "(bytes \<Rightarrow> oid) \<Rightarrow> journal \<Rightarrow> nview \<Rightarrow> (string, oid) smap res" where
  "view_references sha j v = (case v of
       Tree root \<Rightarrow> fst (tree_entries sha (j_get_object j) (open_editor root))
     | Legacy \<Rightarrow> foldR (\<lambda>key result. bindR (j_root_object j key) (\<lambda>i. Inr (put key i result))) (j_keys j forkfs_prefix) []
     | Runs runs \<Rightarrow> foldR (\<lambda>i result. bindR (view_run j i) (\<lambda>c. Inr (apply_changes c result))) (rev runs) [])"

definition view_run_count :: "nview \<Rightarrow> nat" where
  "view_run_count v = (case v of Tree _ \<Rightarrow> 1 | Legacy \<Rightarrow> 0 | Runs runs \<Rightarrow> length runs)"

section \<open>Plans\<close>

record vplan =
  vp_objects :: "bytes list"
  vp_manifest :: bytes
  vp_run_count :: nat

text \<open>The partition of a complete map into image runs: runs and payloads so far, the open part
  and its encoded size.\<close>

record parts =
  pt_runs :: "oid list"
  pt_objects :: "bytes list"
  pt_part :: delta
  pt_bytes :: nat

definition flush :: "(bytes \<Rightarrow> oid) \<Rightarrow> parts \<Rightarrow> parts res" where
  "flush sha p = (if pt_part p = [] then Inr p
     else bindR (encode_run (pt_part p)) (\<lambda>b. Inr \<lparr>pt_runs = pt_runs p @ [object_hash sha b],
       pt_objects = pt_objects p @ [b], pt_part = [], pt_bytes = 12\<rparr>))"

definition add_part :: "(bytes \<Rightarrow> oid) \<Rightarrow> string \<times> oid \<Rightarrow> parts \<Rightarrow> parts res" where
  "add_part sha = (\<lambda>(key, i) p.
     bindR (if pt_bytes p + 40 + length key > 64 * 1024 then flush sha p else Inr p) (\<lambda>p.
     Inr (p\<lparr>pt_part := emplace key (Some i) (pt_part p), pt_bytes := pt_bytes p + 40 + length key\<rparr>)))"

definition partition_runs :: "(bytes \<Rightarrow> oid) \<Rightarrow> (string, oid) smap \<Rightarrow> parts res" where
  "partition_runs sha whole =
     bindR (foldR (add_part sha) whole \<lparr>pt_runs = [], pt_objects = [], pt_part = [], pt_bytes = 12\<rparr>) (flush sha)"

definition finish_plan :: "oid list \<Rightarrow> bytes list \<Rightarrow> vplan res" where
  "finish_plan runs objects = bindR (encode_manifest runs) (\<lambda>m.
     Inr \<lparr>vp_objects = objects, vp_manifest = m, vp_run_count = length runs\<rparr>)"

definition image_plan :: "(bytes \<Rightarrow> oid) \<Rightarrow> (string, oid) smap \<Rightarrow> vplan res" where
  "image_plan sha whole =
     need (map_of whole namespace_root \<noteq> None) ''compaction would lose namespace root'' (
     bindR (partition_runs sha whole) (\<lambda>p. finish_plan (pt_runs p) (pt_objects p)))"

definition tree_plan :: "(bytes \<Rightarrow> oid) \<Rightarrow> journal \<Rightarrow> nview \<Rightarrow> delta \<Rightarrow> vplan res" where
  "tree_plan sha j v changes =
     bindR (case v of Tree _ \<Rightarrow> Inr changes
            | _ \<Rightarrow> bindR (view_references sha j v) (\<lambda>refs.
                Inr (fold (\<lambda>(key, i) all. if map_of all key = None then put key (Some i) all else all) refs changes))) (\<lambda>all.
     bindR (fst (tree_apply sha (j_get_object j) all (open_editor (case v of Tree root \<Rightarrow> root | _ \<Rightarrow> 0)))) (\<lambda>p.
     Inr \<lparr>vp_objects = p_objects p, vp_manifest = p_manifest p, vp_run_count = 1\<rparr>))"

definition delta_plan :: "(bytes \<Rightarrow> oid) \<Rightarrow> oid list \<Rightarrow> delta \<Rightarrow> vplan res" where
  "delta_plan sha runs changes =
     (if changes = [] then finish_plan runs []
      else bindR (encode_run changes) (\<lambda>b.
        let id = object_hash sha b in
        if runs = [] \<or> hd runs \<noteq> id then finish_plan (id # removeAll id runs) [b]
        else finish_plan runs []))"

definition view_plan :: "(bytes \<Rightarrow> oid) \<Rightarrow> journal \<Rightarrow> nview \<Rightarrow> delta \<Rightarrow> bool \<Rightarrow> vplan res" where
  "view_plan sha j v changes compact =
     (if j_leveldb j then tree_plan sha j v changes
      else if v = Legacy \<or> compact then
        bindR (view_references sha j v) (\<lambda>refs. image_plan sha (apply_changes changes refs))
      else delta_plan sha (case v of Runs runs \<Rightarrow> runs | _ \<Rightarrow> []) changes)"

record frozen =
  fz_flat :: "(string, oid) smap"
  fz_runs :: "bytes list"

definition freeze :: "(bytes \<Rightarrow> oid) \<Rightarrow> journal \<Rightarrow> nview \<Rightarrow> frozen res" where
  "freeze sha j v = (case v of
       Legacy \<Rightarrow> bindR (view_references sha j v) (\<lambda>refs. Inr \<lparr>fz_flat = refs, fz_runs = []\<rparr>)
     | Runs runs \<Rightarrow> bindR (mapR (j_get_object j) runs) (\<lambda>payloads. Inr \<lparr>fz_flat = [], fz_runs = payloads\<rparr>)
     | Tree _ \<Rightarrow> Inr \<lparr>fz_flat = [], fz_runs = []\<rparr>)"

definition compact_frozen :: "(bytes \<Rightarrow> oid) \<Rightarrow> frozen \<Rightarrow> vplan res" where
  "compact_frozen sha input =
     bindR (foldR (\<lambda>b whole. bindR (decode_run b) (\<lambda>c. Inr (apply_changes c whole))) (rev (fz_runs input)) (fz_flat input))
       (image_plan sha)"

end
