(* ===== verification/Metadata_Tree_Laws.thy ===== *)
theory Metadata_Tree_Laws
  imports Metadata_Tree
begin

text \<open>
  The metadata tree implements the mathematical treap: node identities are Merkle identities of
  treaps, each edit of the copy-on-write tree computes the identity of the edited treap, and a
  plan contains every object the new tree needs. The hash is assumed collision free on a set
  \<open>E\<close> of trees, those an edit reads and makes.
\<close>

section \<open>Merkle identities\<close>

definition key_higher :: "(bytes \<Rightarrow> oid) \<Rightarrow> string \<Rightarrow> string \<Rightarrow> bool" where
  "key_higher sha a b = (if priority sha a = priority sha b then b < a
     else priority sha b < priority sha a)"

type_synonym mtree = "(string, oid) treap"

fun tid :: "(bytes \<Rightarrow> oid) \<Rightarrow> mtree \<Rightarrow> oid" where
  "tid sha Leaf = 0"
| "tid sha (Node l x r) = object_hash sha (node_bytes
     \<lparr>n_key = fst x, n_value = snd x, n_left = tid sha l, n_right = tid sha r\<rparr>)"

fun node_of :: "(bytes \<Rightarrow> oid) \<Rightarrow> mtree \<Rightarrow> tnode" where
  "node_of sha (Node l x r) = \<lparr>n_key = fst x, n_value = snd x, n_left = tid sha l, n_right = tid sha r\<rparr>"
| "node_of sha Leaf = \<lparr>n_key = [], n_value = 0, n_left = 0, n_right = 0\<rparr>"

definition enc :: "(bytes \<Rightarrow> oid) \<Rightarrow> mtree \<Rightarrow> bytes" where
  "enc sha t = node_bytes (node_of sha t)"

definition universe :: "(bytes \<Rightarrow> oid) \<Rightarrow> mtree set \<Rightarrow> mtree set" where
  "universe sha E = {t. treap (key_higher sha) t \<and> subtrees t \<subseteq> insert Leaf E}"

definition collision_free :: "(bytes \<Rightarrow> oid) \<Rightarrow> mtree set \<Rightarrow> bool" where
  "collision_free sha E \<longleftrightarrow>
     (\<forall>t \<in> E. \<forall>x \<in> set_tree t. valid_key (fst x) \<and> snd x \<noteq> 0) \<and> inj_on (tid sha) (insert Leaf E)"

interpretation pri: priority_order "key_higher sha" for sha
  by unfold_locales (auto simp: key_higher_def split: if_splits)

lemma higher_key: "higher sha a b = key_higher sha (n_key a) (n_key b)"
  by (simp add: higher_def key_higher_def Let_def)

lemma tid_enc: "t \<noteq> Leaf \<Longrightarrow> tid sha t = object_hash sha (enc sha t)"
  by (cases t) (simp_all add: enc_def)

lemma node_of_simps [simp]:
  "n_key (node_of sha (Node l x r)) = fst x" "n_value (node_of sha (Node l x r)) = snd x"
  "n_left (node_of sha (Node l x r)) = tid sha l" "n_right (node_of sha (Node l x r)) = tid sha r"
  by simp_all

section \<open>The node codec\<close>

lemma node_parse_bytes:
  assumes "valid_key (n_key n)" and "n_value n \<noteq> 0"
  shows "node_parse (node_bytes n) = Inr n"
proof -
  have len: "8 \<le> length (n_key n)" "length (n_key n) \<le> 1024" using assms(1) by (auto simp: valid_key_def)
  then have "load_at (node_bytes n) 8 4 = length (n_key n)"
    by (simp add: load_at_def node_bytes_def slices)
  moreover have "oid_at (node_bytes n) 12 = n_value n" "oid_at (node_bytes n) 44 = n_left n"
      "oid_at (node_bytes n) 76 = n_right n"
    by (simp_all add: oid_at_def node_bytes_def slices)
  moreover have "length (node_bytes n) = 108 + length (n_key n)" "drop 108 (node_bytes n) = n_key n"
      "slice 0 8 (node_bytes n) = ''FFTRNO01''"
    by (simp_all add: node_bytes_def slices)
  ultimately show ?thesis using assms len by (simp add: node_parse_def)
qed

section \<open>Treaps of the universe\<close>

lemma universe_Leaf [simp]: "Leaf \<in> universe sha E"
  by (simp add: universe_def treap_def)

lemma universe_Node:
  "Node l x r \<in> universe sha E \<Longrightarrow> l \<in> universe sha E \<and> r \<in> universe sha E"
  by (auto simp: universe_def treap_def smap_ok_Node)

lemma universe_entry:
  "collision_free sha E \<Longrightarrow> Node l x r \<in> universe sha E \<Longrightarrow> valid_key (fst x) \<and> snd x \<noteq> 0"
  by (auto simp: universe_def collision_free_def)

lemma universe_member: "t \<in> universe sha E \<Longrightarrow> t \<in> insert Leaf E"
  by (cases t) (auto simp: universe_def)

lemma universe_subtree: "t \<in> universe sha E \<Longrightarrow> u \<in> subtrees t \<Longrightarrow> u \<in> universe sha E"
  by (induction t) (auto dest: universe_Node)

lemma tid_inject:
  "collision_free sha E \<Longrightarrow> t \<in> universe sha E \<Longrightarrow> u \<in> universe sha E \<Longrightarrow> tid sha t = tid sha u \<longleftrightarrow> t = u"
  using universe_member by (metis collision_free_def inj_onD)

lemma tid_zero: "collision_free sha E \<Longrightarrow> t \<in> universe sha E \<Longrightarrow> tid sha t = 0 \<longleftrightarrow> t = Leaf"
  using tid_inject [of sha E t Leaf] by simp

lemma universe_parse:
  assumes "collision_free sha E" and "t \<in> universe sha E" and "t \<noteq> Leaf"
  shows "node_parse (enc sha t) = Inr (node_of sha t)"
proof -
  obtain l x r where t: "t = Node l x r" using assms(3) by (cases t) auto
  then have "valid_key (fst x) \<and> snd x \<noteq> 0" using assms(1,2) universe_entry by blast
  then show ?thesis unfolding enc_def t by (intro node_parse_bytes) simp_all
qed

section \<open>Editor states\<close>

definition persisted :: "(bytes \<Rightarrow> oid) \<Rightarrow> (oid \<Rightarrow> bytes res) \<Rightarrow> mtree \<Rightarrow> bool" where
  "persisted sha get t \<longleftrightarrow> (\<forall>u \<in> subtrees t. u \<noteq> Leaf \<longrightarrow> get (tid sha u) = Inr (enc sha u))"

fun stored :: "(bytes \<Rightarrow> oid) \<Rightarrow> (oid \<Rightarrow> bytes res) \<Rightarrow> editor \<Rightarrow> mtree \<Rightarrow> bool" where
  "stored sha get e Leaf = True"
| "stored sha get e (Node l x r) = (persisted sha get (Node l x r) \<or>
     map_of (te_pending e) (tid sha (Node l x r)) \<noteq> None \<and> stored sha get e l \<and> stored sha get e r)"

definition ed_ok :: "(bytes \<Rightarrow> oid) \<Rightarrow> mtree set \<Rightarrow> editor \<Rightarrow> bool" where
  "ed_ok sha E e \<longleftrightarrow>
     (\<forall>i n. map_of (te_cache e) i = Some n \<longrightarrow>
        (\<exists>t \<in> universe sha E. t \<noteq> Leaf \<and> tid sha t = i \<and> n = node_of sha t)) \<and>
     (\<forall>i b. map_of (te_pending e) i = Some b \<longrightarrow> map_of (te_cache e) i \<noteq> None \<and>
        (\<exists>t \<in> universe sha E. t \<noteq> Leaf \<and> tid sha t = i \<and> b = enc sha t)) \<and>
     (\<forall>i h. map_of (te_heights e) i = Some h \<longrightarrow>
        (\<exists>t \<in> universe sha E. t \<noteq> Leaf \<and> tid sha t = i \<and> h = height t))"

definition ext :: "editor \<Rightarrow> editor \<Rightarrow> bool" where
  "ext e e' \<longleftrightarrow> te_root e' = te_root e \<and> map_of (te_pending e) \<subseteq>\<^sub>m map_of (te_pending e')"

text \<open>\<open>m\<close> returns from \<open>e\<close>, in a good state, with a result satisfying \<open>Q\<close>.\<close>

definition edits ::
    "(bytes \<Rightarrow> oid) \<Rightarrow> mtree set \<Rightarrow> editor \<Rightarrow> (editor, 'a) op \<Rightarrow> ('a \<Rightarrow> editor \<Rightarrow> bool) \<Rightarrow> bool" where
  "edits sha E e m Q \<longleftrightarrow> (\<exists>x e'. m e = (Inr x, e') \<and> ed_ok sha E e' \<and> ext e e' \<and> Q x e')"

lemma ext_refl [simp]: "ext e e"
  by (simp add: ext_def)

lemma ext_trans: "ext a b \<Longrightarrow> ext b c \<Longrightarrow> ext a c"
  by (auto simp: ext_def intro: map_le_trans)

lemma edits_return: "ed_ok sha E e \<Longrightarrow> Q x e \<Longrightarrow> edits sha E e (returnS x) Q"
  by (simp add: edits_def)

lemma edits_bind:
  assumes "edits sha E e m P"
    and "\<And>x e'. ed_ok sha E e' \<Longrightarrow> ext e e' \<Longrightarrow> P x e' \<Longrightarrow> edits sha E e' (f x) Q"
  shows "edits sha E e (bindS m f) Q"
  using assms unfolding edits_def bindS_def by (fastforce intro: ext_trans)

lemma edits_mono: "edits sha E e m P \<Longrightarrow> (\<And>x e'. ed_ok sha E e' \<Longrightarrow> ext e e' \<Longrightarrow> P x e' \<Longrightarrow> Q x e') \<Longrightarrow> edits sha E e m Q"
  unfolding edits_def by blast

lemma stored_ext: "stored sha get e t \<Longrightarrow> ext e e' \<Longrightarrow> stored sha get e' t"
proof (induction t)
  case (Node l x r)
  have "map_of (te_pending e') i \<noteq> None" if "map_of (te_pending e) i \<noteq> None" for i
    using that Node.prems(2) by (auto simp: ext_def map_le_def dom_def)
  then show ?case using Node by auto
qed simp

lemma persisted_subtrees: "persisted sha get (Node l x r) \<Longrightarrow> persisted sha get l \<and> persisted sha get r"
  by (auto simp: persisted_def)

lemma persisted_stored: "persisted sha get t \<Longrightarrow> stored sha get e t"
  by (cases t) auto

lemma stored_children: "stored sha get e (Node l x r) \<Longrightarrow> stored sha get e l \<and> stored sha get e r"
  by (auto dest: persisted_subtrees intro: persisted_stored)

lemma edits_node:
  assumes cf: "collision_free sha E" and e: "ed_ok sha E e" and t: "t \<in> universe sha E" "t \<noteq> Leaf"
    and st: "stored sha get e t"
  shows "edits sha E e (tree_node get (tid sha t)) (\<lambda>n e'. n = node_of sha t \<and> te_pending e' = te_pending e
    \<and> te_heights e' = te_heights e)"
proof (cases "map_of (te_cache e) (tid sha t)")
  case (Some n)
  then obtain u where "u \<in> universe sha E" "tid sha u = tid sha t" "n = node_of sha u"
    using e unfolding ed_ok_def by metis
  then have "n = node_of sha t" using tid_inject [OF cf] t(1) by metis
  with Some e show ?thesis by (simp add: edits_def tree_node_def)
next
  case None
  then have "map_of (te_pending e) (tid sha t) = None" using e unfolding ed_ok_def by (metis option.exhaust)
  then have get: "get (tid sha t) = Inr (enc sha t)"
    using st t(2) by (cases t) (auto simp: persisted_def)
  let ?e' = "e\<lparr>te_cache := emplace (tid sha t) (node_of sha t) (te_cache e)\<rparr>"
  have run: "tree_node get (tid sha t) e = (Inr (node_of sha t), ?e')"
    using None get universe_parse [OF cf t] by (simp add: tree_node_def bindS_def)
  moreover have "ed_ok sha E ?e'"
    using e t None unfolding ed_ok_def by (auto simp: map_of_emplace split: option.splits)
  ultimately show ?thesis by (simp add: edits_def ext_def)
qed

lemma edits_make:
  assumes cf: "collision_free sha E" and e: "ed_ok sha E e" and t: "Node l x r \<in> universe sha E"
    and st: "stored sha get e l" "stored sha get e r"
    and n: "n = node_of sha (Node l x r)"
  shows "edits sha E e (make_node sha n) (\<lambda>i e'. i = tid sha (Node l x r) \<and> stored sha get e' (Node l x r))"
proof -
  let ?t = "Node l x r" and ?b = "enc sha (Node l x r)"
  let ?e' = "e\<lparr>te_cache := put (tid sha ?t) n (te_cache e), te_pending := emplace (tid sha ?t) ?b (te_pending e)\<rparr>"
  have "valid_key (n_key n) \<and> n_value n \<noteq> 0" using universe_entry [OF cf t] n by simp
  then have run: "make_node sha n e = (Inr (tid sha ?t), ?e')"
    by (simp add: make_node_def bindS_def Let_def n enc_def)
  have ext: "ext e ?e'"
    by (auto simp: ext_def map_le_def map_of_emplace split: option.split)
  have "ed_ok sha E ?e'"
    using e t n unfolding ed_ok_def
    by (auto simp: map_of_emplace split: option.splits if_splits)
  moreover have "stored sha get ?e' ?t"
    using stored_ext [OF st(1) ext] stored_ext [OF st(2) ext]
    by (simp add: map_of_emplace split: option.split)
  ultimately show ?thesis using run ext by (simp add: edits_def)
qed

text \<open>Making a node and going on.\<close>

lemma edits_rebuild:
  assumes "collision_free sha E" and "ed_ok sha E e" and "Node l x r \<in> universe sha E"
    and "stored sha get e l" and "stored sha get e r" and "n = node_of sha (Node l x r)"
    and "\<And>e'. ed_ok sha E e' \<Longrightarrow> ext e e' \<Longrightarrow> stored sha get e' (Node l x r) \<Longrightarrow>
      edits sha E e' (f (tid sha (Node l x r))) Q"
  shows "edits sha E e (bindS (make_node sha n) f) Q"
  by (rule edits_bind [OF edits_make [OF assms(1-6)]]) (use assms(7) in blast)

section \<open>Merging\<close>

definition apart :: "(bytes \<Rightarrow> oid) \<Rightarrow> mtree set \<Rightarrow> oid list \<Rightarrow> mtree \<Rightarrow> bool" where
  "apart sha E visited t \<longleftrightarrow>
     (\<forall>i \<in> set visited. \<exists>u \<in> universe sha E. tid sha u = i \<and> \<not> set_tree u \<subseteq> set_tree t)"

lemma apart_fresh: "collision_free sha E \<Longrightarrow> apart sha E visited t \<Longrightarrow> t \<in> universe sha E \<Longrightarrow> tid sha t \<notin> set visited"
  unfolding apart_def using tid_inject by blast

lemma apart_Cons:
  assumes "apart sha E visited t" and "u \<in> universe sha E" and "set_tree t' \<subseteq> set_tree t"
    and "\<not> set_tree u \<subseteq> set_tree t'"
  shows "apart sha E (tid sha u # visited) t'"
  unfolding apart_def
proof
  fix i
  assume "i \<in> set (tid sha u # visited)"
  then consider "i = tid sha u" | "i \<in> set visited" by auto
  then show "\<exists>u \<in> universe sha E. tid sha u = i \<and> \<not> set_tree u \<subseteq> set_tree t'"
  proof cases
    case 1
    then show ?thesis using assms(2,4) by blast
  next
    case 2
    then obtain w where "w \<in> universe sha E" "tid sha w = i" "\<not> set_tree w \<subseteq> set_tree t"
      using assms(1) unfolding apart_def by blast
    then show ?thesis using assms(3) by blast
  qed
qed

lemma apart_Nil [simp]: "apart sha E [] t"
  by (simp add: apart_def)

definition joinable :: "(bytes \<Rightarrow> oid) \<Rightarrow> mtree set \<Rightarrow> mtree \<Rightarrow> mtree \<Rightarrow> bool" where
  "joinable sha E l r \<longleftrightarrow> l \<in> universe sha E \<and> r \<in> universe sha E \<and> smap_ok (inorder l @ inorder r) \<and>
     treap_merge (key_higher sha) l r \<in> universe sha E"

lemma joinable_apart_keys: "joinable sha E l r \<Longrightarrow> y \<in> set_tree l \<Longrightarrow> z \<in> set_tree r \<Longrightarrow> fst y < fst z"
  by (auto simp: joinable_def smap_ok_append)

lemma universe_merge: "joinable sha E l r \<Longrightarrow> treap_merge (key_higher sha) l r \<in> universe sha E"
  by (simp add: joinable_def)

lemma joinable_Node:
  "Node l x r \<in> universe sha E \<Longrightarrow> treap_merge (key_higher sha) l r \<in> universe sha E \<Longrightarrow> joinable sha E l r"
  using universe_Node [of l x r sha E] by (auto simp: joinable_def universe_def treap_def smap_ok_append)

lemma joinable_right:
  "joinable sha E (Node a x b) (Node c y d) \<Longrightarrow> key_higher sha (fst x) (fst y) \<Longrightarrow> joinable sha E b (Node c y d)"
  by (auto simp: joinable_def smap_ok_append dest: universe_Node)

lemma joinable_left:
  "joinable sha E (Node a x b) (Node c y d) \<Longrightarrow> \<not> key_higher sha (fst x) (fst y) \<Longrightarrow> joinable sha E (Node a x b) c"
  by (auto simp: joinable_def smap_ok_append dest: universe_Node)

lemma root_not_in_child:
  "Node l x r \<in> universe sha E \<Longrightarrow> x \<notin> set_tree l \<and> x \<notin> set_tree r"
  by (auto simp: universe_def treap_def smap_ok_Node)

lemma merge_loop_step:
  "lt \<noteq> 0 \<Longrightarrow> rt \<noteq> 0 \<Longrightarrow> merge_loop sha get visited path lt rt =
    bindS (tree_node get lt) (\<lambda>a. bindS (tree_node get rt) (\<lambda>b.
        if higher sha a b then
          (if lt \<in> set visited then throwS (Runtime_error ''metadata tree cycle'')
           else merge_loop sha get (lt # visited) ((a, True) # path) (n_right a) rt)
        else
          (if rt \<in> set visited then throwS (Runtime_error ''metadata tree cycle'')
           else merge_loop sha get (rt # visited) ((b, False) # path) lt (n_left b))))"
  by (rule ext, subst merge_loop.simps) simp

lemma edits_merge_loop:
  assumes cf: "collision_free sha E"
  shows "joinable sha E l r \<Longrightarrow> ed_ok sha E e \<Longrightarrow> stored sha get e l \<Longrightarrow> stored sha get e r \<Longrightarrow>
    apart sha E visited l \<Longrightarrow> apart sha E visited r \<Longrightarrow>
    (\<And>e'. ed_ok sha E e' \<Longrightarrow> ext e e' \<Longrightarrow> stored sha get e' (treap_merge (key_higher sha) l r) \<Longrightarrow>
      edits sha E e' (foldS (merge_step sha) path (tid sha (treap_merge (key_higher sha) l r))) Q) \<Longrightarrow>
    edits sha E e (bindS (merge_loop sha get visited path (tid sha l) (tid sha r))
      (\<lambda>(path, below). foldS (merge_step sha) path below)) Q"
proof (induction "size l + size r" arbitrary: l r e visited path rule: less_induct)
  case less
  note J = less.prems(1) and cont = less.prems(7)
  have U: "l \<in> universe sha E" "r \<in> universe sha E" using J by (auto simp: joinable_def)
  show ?case
  proof (cases "l = Leaf \<or> r = Leaf")
    case True
    then have "merge_loop sha get visited path (tid sha l) (tid sha r) e =
        (Inr (path, tid sha (treap_merge (key_higher sha) l r)), e)"
      using tid_zero [OF cf U(1)] tid_zero [OF cf U(2)]
      by (cases l; cases r) (simp_all add: merge_loop.simps)
    moreover have "stored sha get e (treap_merge (key_higher sha) l r)"
      using True less.prems(3,4) by (cases l; cases r) auto
    ultimately show ?thesis
      using cont [OF less.prems(2) ext_refl] by (simp add: edits_def bindS_def)
  next
    case False
    then obtain a x b c y d where l: "l = Node a x b" and r: "r = Node c y d" by (metis tree.exhaust)
    have nz: "tid sha l \<noteq> 0" "tid sha r \<noteq> 0" using False tid_zero [OF cf] U by auto
    have disj: "z \<notin> set_tree r" if "z \<in> set_tree l" for z
      using joinable_apart_keys [OF J that] by blast
    have fresh: "tid sha l \<notin> set visited" "tid sha r \<notin> set visited"
      using apart_fresh [OF cf] less.prems(5,6) U by blast+
    let ?rest = "\<lambda>(path, below). foldS (merge_step sha) path below"
    show ?thesis
      unfolding merge_loop_step [OF nz] monad_laws
    proof (rule edits_bind [OF edits_node [OF cf less.prems(2) U(1) _ less.prems(3)]])
      show "l \<noteq> Leaf" by (simp add: l)
      fix n e1
      assume e1: "ed_ok sha E e1" "ext e e1" and n: "n = node_of sha l \<and> te_pending e1 = te_pending e \<and> te_heights e1 = te_heights e"
      show "edits sha E e1 (bindS (tree_node get (tid sha r)) (\<lambda>b. if higher sha n b then
            if tid sha l \<in> set visited then throwS (Runtime_error ''metadata tree cycle'')
            else bindS (merge_loop sha get (tid sha l # visited) ((n, True) # path) (n_right n) (tid sha r)) ?rest
          else if tid sha r \<in> set visited then throwS (Runtime_error ''metadata tree cycle'')
            else bindS (merge_loop sha get (tid sha r # visited) ((b, False) # path) (tid sha l) (n_left b)) ?rest)) Q"
      proof (rule edits_bind [OF edits_node [OF cf e1(1) U(2) _ stored_ext [OF less.prems(4) e1(2)]]])
        show "r \<noteq> Leaf" by (simp add: r)
        fix m e2
        assume e2: "ed_ok sha E e2" "ext e1 e2" and m: "m = node_of sha r \<and> te_pending e2 = te_pending e1 \<and> te_heights e2 = te_heights e1"
        have ee2: "ext e e2" using e1(2) e2(2) by (rule ext_trans)
        note st = stored_ext [OF less.prems(3) ee2] stored_ext [OF less.prems(4) ee2]
        show "edits sha E e2 (if higher sha n m then
            if tid sha l \<in> set visited then throwS (Runtime_error ''metadata tree cycle'')
            else bindS (merge_loop sha get (tid sha l # visited) ((n, True) # path) (n_right n) (tid sha r)) ?rest
          else if tid sha r \<in> set visited then throwS (Runtime_error ''metadata tree cycle'')
            else bindS (merge_loop sha get (tid sha r # visited) ((m, False) # path) (tid sha l) (n_left m)) ?rest) Q"
        proof (cases "key_higher sha (fst x) (fst y)")
          case True
          have eq: "treap_merge (key_higher sha) l r = Node a x (treap_merge (key_higher sha) b r)"
            using True by (simp add: l r)
          have "edits sha E e2 (bindS (merge_loop sha get (tid sha l # visited) ((n, True) # path) (tid sha b) (tid sha r)) ?rest) Q"
          proof (rule less.hyps [OF _ joinable_right [OF J [unfolded l r] True, folded r] e2(1) _ st(2)])
            show "stored sha get e2 b" using st(1) l stored_children by blast
            show "apart sha E (tid sha l # visited) b"
              using less.prems(5) root_not_in_child [OF U(1) [unfolded l]] by (intro apart_Cons [OF _ U(1)]) (auto simp: l)
            show "apart sha E (tid sha l # visited) r"
              using less.prems(6) disj [of x] by (intro apart_Cons [OF _ U(1)]) (auto simp: l)
            show "edits sha E e' (foldS (merge_step sha) ((n, True) # path) (tid sha (treap_merge (key_higher sha) b r))) Q"
              if e': "ed_ok sha E e'" "ext e2 e'" "stored sha get e' (treap_merge (key_higher sha) b r)" for e'
            proof -
              have "edits sha E e' (bindS (make_node sha (n\<lparr>n_right := tid sha (treap_merge (key_higher sha) b r)\<rparr>))
                  (foldS (merge_step sha) path)) Q"
              proof (rule edits_rebuild [OF cf e'(1) universe_merge [OF J, unfolded eq] _ e'(3)])
                show "stored sha get e' a"
                  using stored_ext [OF conjunct1 [OF stored_children [OF st(1) [unfolded l]]] e'(2)] .
                show "n\<lparr>n_right := tid sha (treap_merge (key_higher sha) b r)\<rparr> =
                    node_of sha (Node a x (treap_merge (key_higher sha) b r))"
                  using n by (simp add: l)
              qed (use cont [unfolded eq] ext_trans [OF ee2 ext_trans [OF e'(2)]] in blast)
              then show ?thesis by (simp add: merge_step_def)
            qed
          qed (simp_all add: l)
          then show ?thesis using True n m l r fresh by (simp add: higher_key)
        next
          case False
          have eq: "treap_merge (key_higher sha) l r = Node (treap_merge (key_higher sha) l c) y d"
            using False by (simp add: l r)
          have "edits sha E e2 (bindS (merge_loop sha get (tid sha r # visited) ((m, False) # path) (tid sha l) (tid sha c)) ?rest) Q"
          proof (rule less.hyps [OF _ joinable_left [OF J [unfolded l r] False, folded l] e2(1) st(1)])
            show "stored sha get e2 c" using st(2) r stored_children by blast
            show "apart sha E (tid sha r # visited) c"
              using less.prems(6) root_not_in_child [OF U(2) [unfolded r]] by (intro apart_Cons [OF _ U(2)]) (auto simp: r)
            show "apart sha E (tid sha r # visited) l"
              using less.prems(5) disj [of y] by (intro apart_Cons [OF _ U(2)]) (auto simp: r)
            show "edits sha E e' (foldS (merge_step sha) ((m, False) # path) (tid sha (treap_merge (key_higher sha) l c))) Q"
              if e': "ed_ok sha E e'" "ext e2 e'" "stored sha get e' (treap_merge (key_higher sha) l c)" for e'
            proof -
              have "edits sha E e' (bindS (make_node sha (m\<lparr>n_left := tid sha (treap_merge (key_higher sha) l c)\<rparr>))
                  (foldS (merge_step sha) path)) Q"
              proof (rule edits_rebuild [OF cf e'(1) universe_merge [OF J, unfolded eq] e'(3)])
                show "stored sha get e' d"
                  using stored_ext [OF conjunct2 [OF stored_children [OF st(2) [unfolded r]]] e'(2)] .
                show "m\<lparr>n_left := tid sha (treap_merge (key_higher sha) l c)\<rparr> =
                    node_of sha (Node (treap_merge (key_higher sha) l c) y d)"
                  using m by (simp add: r)
              qed (use cont [unfolded eq] ext_trans [OF ee2 ext_trans [OF e'(2)]] in blast)
              then show ?thesis by (simp add: merge_step_def)
            qed
          qed (simp_all add: r)
          then show ?thesis using False n m l r fresh by (simp add: higher_key)
        qed
      qed
    qed
  qed
qed

lemma edits_merge:
  assumes cf: "collision_free sha E" and "joinable sha E l r" and e: "ed_ok sha E e"
    and st: "stored sha get e l" "stored sha get e r"
  shows "edits sha E e (tree_merge sha get (tid sha l) (tid sha r))
    (\<lambda>i e'. i = tid sha (treap_merge (key_higher sha) l r) \<and> stored sha get e' (treap_merge (key_higher sha) l r))"
  unfolding tree_merge_def
  by (rule edits_merge_loop [OF cf assms(2) e st apart_Nil apart_Nil]) (simp add: edits_return)

section \<open>Editing\<close>

lemma set_tree_fix [simp]:
  "set_tree (fix_left hi l x r) = insert x (set_tree l \<union> set_tree r)"
  "set_tree (fix_right hi l x r) = insert x (set_tree l \<union> set_tree r)"
  by (auto simp: fix_left_def fix_right_def split: tree.split)

lemma edits_step_left:
  assumes cf: "collision_free sha E" and e: "ed_ok sha E e" and l: "l \<in> universe sha E"
    and u: "fix_left (key_higher sha) l x r \<in> universe sha E"
    and st: "stored sha get e l" "stored sha get e r"
    and n: "n_key n = fst x" "n_value n = snd x" "n_right n = tid sha r"
  shows "edits sha E e (set_step sha get (n, True) (tid sha l)) (\<lambda>i e'.
    i = tid sha (fix_left (key_higher sha) l x r) \<and> stored sha get e' (fix_left (key_higher sha) l x r))"
proof (cases l)
  case Leaf
  have "edits sha E e (make_node sha (n\<lparr>n_left := 0\<rparr>)) (\<lambda>i e'.
      i = tid sha (Node Leaf x r) \<and> stored sha get e' (Node Leaf x r))"
    using u st n Leaf by (intro edits_make [OF cf e]) (simp_all add: fix_left_def)
  then show ?thesis using Leaf by (simp add: set_step_def fix_left_def del: tid.simps(2) stored.simps(2))
next
  case (Node a y b)
  have nz: "tid sha l \<noteq> 0" using tid_zero [OF cf l] Node by simp
  have nd: "edits sha E e (tree_node get (tid sha l)) (\<lambda>top e'. top = node_of sha l \<and>
      te_pending e' = te_pending e \<and> te_heights e' = te_heights e)"
    using edits_node [OF cf e l _ st(1)] Node by simp
  have "edits sha E e1 (if higher sha top (n\<lparr>n_left := tid sha l\<rparr>) then
        bindS (make_node sha (n\<lparr>n_left := n_right top\<rparr>)) (\<lambda>i. make_node sha (top\<lparr>n_right := i\<rparr>))
      else make_node sha (n\<lparr>n_left := tid sha l\<rparr>)) (\<lambda>i e'.
      i = tid sha (fix_left (key_higher sha) l x r) \<and> stored sha get e' (fix_left (key_higher sha) l x r))"
    if e1: "ed_ok sha E e1" "ext e e1" and top: "top = node_of sha l" for top e1
  proof -
    note s1 = stored_ext [OF st(1) e1(2)] stored_ext [OF st(2) e1(2)]
    have sab: "stored sha get e1 a" "stored sha get e1 b" using s1(1) Node stored_children by blast+
    show ?thesis
    proof (cases "key_higher sha (fst y) (fst x)")
      case True
      then have f: "fix_left (key_higher sha) l x r = Node a y (Node b x r)"
        using Node by (simp add: fix_left_def)
      have "edits sha E e1 (bindS (make_node sha (n\<lparr>n_left := n_right top\<rparr>)) (\<lambda>i. make_node sha (top\<lparr>n_right := i\<rparr>)))
          (\<lambda>i e'. i = tid sha (Node a y (Node b x r)) \<and> stored sha get e' (Node a y (Node b x r)))"
      proof (rule edits_rebuild [OF cf e1(1) _ sab(2) s1(2)])
        show "Node b x r \<in> universe sha E" using u f universe_Node by metis
        show "n\<lparr>n_left := n_right top\<rparr> = node_of sha (Node b x r)" using n top Node by simp
        show "edits sha E e' (make_node sha (top\<lparr>n_right := tid sha (Node b x r)\<rparr>))
            (\<lambda>i e'. i = tid sha (Node a y (Node b x r)) \<and> stored sha get e' (Node a y (Node b x r)))"
          if e': "ed_ok sha E e'" "ext e1 e'" "stored sha get e' (Node b x r)" for e'
          using u f top Node by (intro edits_make [OF cf e'(1) _ stored_ext [OF sab(1) e'(2)] e'(3)]) simp_all
      qed
      then show ?thesis using True n top Node unfolding f by (simp add: higher_key del: tid.simps(2) stored.simps(2))
    next
      case False
      then have f: "fix_left (key_higher sha) l x r = Node l x r" using Node by (simp add: fix_left_def)
      have "edits sha E e1 (make_node sha (n\<lparr>n_left := tid sha l\<rparr>))
          (\<lambda>i e'. i = tid sha (Node l x r) \<and> stored sha get e' (Node l x r))"
        using u f n by (intro edits_make [OF cf e1(1) _ s1]) simp_all
      then show ?thesis using False n top Node unfolding f by (simp add: higher_key del: tid.simps(2) stored.simps(2))
    qed
  qed
  note body = this
  have step: "set_step sha get (n, True) (tid sha l) = bindS (tree_node get (tid sha l)) (\<lambda>top.
      if higher sha top (n\<lparr>n_left := tid sha l\<rparr>) then
        bindS (make_node sha (n\<lparr>n_left := n_right top\<rparr>)) (\<lambda>i. make_node sha (top\<lparr>n_right := i\<rparr>))
      else make_node sha (n\<lparr>n_left := tid sha l\<rparr>))"
    using nz by (simp add: set_step_def Let_def cong: if_cong)
  show ?thesis unfolding step by (rule edits_bind [OF nd]) (use body in blast)
qed

lemma edits_step_right:
  assumes cf: "collision_free sha E" and e: "ed_ok sha E e" and r: "r \<in> universe sha E"
    and u: "fix_right (key_higher sha) l x r \<in> universe sha E"
    and st: "stored sha get e l" "stored sha get e r"
    and n: "n_key n = fst x" "n_value n = snd x" "n_left n = tid sha l"
  shows "edits sha E e (set_step sha get (n, False) (tid sha r)) (\<lambda>i e'.
    i = tid sha (fix_right (key_higher sha) l x r) \<and> stored sha get e' (fix_right (key_higher sha) l x r))"
proof (cases r)
  case Leaf
  have "edits sha E e (make_node sha (n\<lparr>n_right := 0\<rparr>)) (\<lambda>i e'.
      i = tid sha (Node l x Leaf) \<and> stored sha get e' (Node l x Leaf))"
    using u st n Leaf by (intro edits_make [OF cf e]) (simp_all add: fix_right_def)
  then show ?thesis using Leaf by (simp add: set_step_def fix_right_def del: tid.simps(2) stored.simps(2))
next
  case (Node a y b)
  have nz: "tid sha r \<noteq> 0" using tid_zero [OF cf r] Node by simp
  have nd: "edits sha E e (tree_node get (tid sha r)) (\<lambda>top e'. top = node_of sha r \<and>
      te_pending e' = te_pending e \<and> te_heights e' = te_heights e)"
    using edits_node [OF cf e r _ st(2)] Node by simp
  have "edits sha E e1 (if higher sha top (n\<lparr>n_right := tid sha r\<rparr>) then
        bindS (make_node sha (n\<lparr>n_right := n_left top\<rparr>)) (\<lambda>i. make_node sha (top\<lparr>n_left := i\<rparr>))
      else make_node sha (n\<lparr>n_right := tid sha r\<rparr>)) (\<lambda>i e'.
      i = tid sha (fix_right (key_higher sha) l x r) \<and> stored sha get e' (fix_right (key_higher sha) l x r))"
    if e1: "ed_ok sha E e1" "ext e e1" and top: "top = node_of sha r" for top e1
  proof -
    note s1 = stored_ext [OF st(1) e1(2)] stored_ext [OF st(2) e1(2)]
    have sab: "stored sha get e1 a" "stored sha get e1 b" using s1(2) Node stored_children by blast+
    show ?thesis
    proof (cases "key_higher sha (fst y) (fst x)")
      case True
      then have f: "fix_right (key_higher sha) l x r = Node (Node l x a) y b"
        using Node by (simp add: fix_right_def)
      have "edits sha E e1 (bindS (make_node sha (n\<lparr>n_right := n_left top\<rparr>)) (\<lambda>i. make_node sha (top\<lparr>n_left := i\<rparr>)))
          (\<lambda>i e'. i = tid sha (Node (Node l x a) y b) \<and> stored sha get e' (Node (Node l x a) y b))"
      proof (rule edits_rebuild [OF cf e1(1) _ s1(1) sab(1)])
        show "Node l x a \<in> universe sha E" using u f universe_Node by metis
        show "n\<lparr>n_right := n_left top\<rparr> = node_of sha (Node l x a)" using n top Node by simp
        show "edits sha E e' (make_node sha (top\<lparr>n_left := tid sha (Node l x a)\<rparr>))
            (\<lambda>i e'. i = tid sha (Node (Node l x a) y b) \<and> stored sha get e' (Node (Node l x a) y b))"
          if e': "ed_ok sha E e'" "ext e1 e'" "stored sha get e' (Node l x a)" for e'
          using u f top Node by (intro edits_make [OF cf e'(1) _ e'(3) stored_ext [OF sab(2) e'(2)]]) simp_all
      qed
      then show ?thesis using True n top Node unfolding f by (simp add: higher_key del: tid.simps(2) stored.simps(2))
    next
      case False
      then have f: "fix_right (key_higher sha) l x r = Node l x r" using Node by (simp add: fix_right_def)
      have "edits sha E e1 (make_node sha (n\<lparr>n_right := tid sha r\<rparr>))
          (\<lambda>i e'. i = tid sha (Node l x r) \<and> stored sha get e' (Node l x r))"
        using u f n by (intro edits_make [OF cf e1(1) _ s1]) simp_all
      then show ?thesis using False n top Node unfolding f by (simp add: higher_key del: tid.simps(2) stored.simps(2))
    qed
  qed
  note body = this
  have step: "set_step sha get (n, False) (tid sha r) = bindS (tree_node get (tid sha r)) (\<lambda>top.
      if higher sha top (n\<lparr>n_right := tid sha r\<rparr>) then
        bindS (make_node sha (n\<lparr>n_right := n_left top\<rparr>)) (\<lambda>i. make_node sha (top\<lparr>n_left := i\<rparr>))
      else make_node sha (n\<lparr>n_right := tid sha r\<rparr>))"
    using nz by (simp add: set_step_def Let_def cong: if_cong)
  show ?thesis unfolding step by (rule edits_bind [OF nd]) (use body in blast)
qed

lemma fix_id:
  assumes "Node l x r \<in> universe sha E"
  shows "fix_left (key_higher sha) l x r = Node l x r" "fix_right (key_higher sha) l x r = Node l x r"
proof -
  have "key_higher sha (fst x) (fst y)" if "y \<in> set_tree l \<union> set_tree r" for y
    using assms that by (simp add: universe_def treap_def)
  then have "\<not> key_higher sha (fst y) (fst x)" if "y \<in> set_tree l \<union> set_tree r" for y
    using that pri.hi_trans pri.hi_irrefl by blast
  then show "fix_left (key_higher sha) l x r = Node l x r" "fix_right (key_higher sha) l x r = Node l x r"
    by (auto simp: fix_left_def fix_right_def split: tree.split)
qed

lemma set_loop_step:
  "current \<noteq> 0 \<Longrightarrow> current \<notin> set visited \<Longrightarrow> set_loop sha get key val visited path current =
    bindS (tree_node get current) (\<lambda>n.
        if key = n_key n then (case val of
            Some w \<Rightarrow> if n_value n = w then returnS Unchanged
                     else bindS (make_node sha (n\<lparr>n_value := w\<rparr>)) (\<lambda>i. returnS (Changed path i))
          | None \<Rightarrow> bindS (tree_merge sha get (n_left n) (n_right n)) (\<lambda>i. returnS (Changed path i)))
        else set_loop sha get key val (current # visited) ((n, key < n_key n) # path)
               (if key < n_key n then n_left n else n_right n))"
  by (rule ext, subst set_loop.simps) simp

lemma set_loop_zero:
  "set_loop sha get key val visited path 0 = (case val of None \<Rightarrow> returnS Unchanged
     | Some w \<Rightarrow> bindS (make_node sha \<lparr>n_key = key, n_value = w, n_left = 0, n_right = 0\<rparr>)
            (\<lambda>i. returnS (Changed path i)))"
  by (rule ext, subst set_loop.simps) (simp split: option.split)

definition set_rest ::
    "(bytes \<Rightarrow> oid) \<Rightarrow> (oid \<Rightarrow> bytes res) \<Rightarrow> oid \<Rightarrow> set_outcome \<Rightarrow> (editor, oid) op" where
  "set_rest sha get root outcome = (case outcome of
       Unchanged \<Rightarrow> returnS root | Changed path below \<Rightarrow> foldS (set_step sha get) path below)"

lemma set_rest_simps [simp]:
  "set_rest sha get root Unchanged = returnS root"
  "set_rest sha get root (Changed path below) = foldS (set_step sha get) path below"
  by (simp_all add: set_rest_def)

text \<open>The results of an edit on the subtrees along its path are all in the universe.\<close>

fun set_results :: "(bytes \<Rightarrow> oid) \<Rightarrow> string \<Rightarrow> oid option \<Rightarrow> mtree \<Rightarrow> mtree list" where
  "set_results sha k v Leaf = [treap_set (key_higher sha) k v Leaf]"
| "set_results sha k v (Node l x r) = treap_set (key_higher sha) k v (Node l x r) #
     (if k < fst x then set_results sha k v l else if fst x < k then set_results sha k v r else [])"

definition settles :: "(bytes \<Rightarrow> oid) \<Rightarrow> mtree set \<Rightarrow> string \<Rightarrow> oid option \<Rightarrow> mtree \<Rightarrow> bool" where
  "settles sha E k v t \<longleftrightarrow> set (set_results sha k v t) \<subseteq> universe sha E"

lemma settles_result: "settles sha E k v t \<Longrightarrow> treap_set (key_higher sha) k v t \<in> universe sha E"
  by (cases t) (auto simp: settles_def simp del: treap_set.simps)

lemma settles_left: "settles sha E k v (Node l x r) \<Longrightarrow> k < fst x \<Longrightarrow> settles sha E k v l"
  by (simp add: settles_def del: treap_set.simps)

lemma settles_right: "settles sha E k v (Node l x r) \<Longrightarrow> fst x < k \<Longrightarrow> settles sha E k v r"
  by (frule less_not_sym) (simp add: settles_def del: treap_set.simps)

text \<open>The subtree at which the walk stops.\<close>

lemma edits_set_here:
  assumes cf: "collision_free sha E" and val: "treap_set (key_higher sha) key val (Node l x r) \<in> universe sha E"
    and t: "Node l x r \<in> universe sha E" and e: "ed_ok sha E e" and st: "stored sha get e (Node l x r)"
    and key: "key = fst x"
    and same: "treap_set (key_higher sha) key val (Node l x r) = Node l x r \<Longrightarrow> Q root e"
    and cont: "\<And>e'. ed_ok sha E e' \<Longrightarrow> ext e e' \<Longrightarrow>
      stored sha get e' (treap_set (key_higher sha) key val (Node l x r)) \<Longrightarrow>
      edits sha E e' (foldS (set_step sha get) path (tid sha (treap_set (key_higher sha) key val (Node l x r)))) Q"
  shows "edits sha E e (bindS (case val of
            Some w \<Rightarrow> if n_value (node_of sha (Node l x r)) = w then returnS Unchanged
                     else bindS (make_node sha ((node_of sha (Node l x r))\<lparr>n_value := w\<rparr>)) (\<lambda>i. returnS (Changed path i))
          | None \<Rightarrow> bindS (tree_merge sha get (tid sha l) (tid sha r)) (\<lambda>i. returnS (Changed path i)))
        (set_rest sha get root)) Q"
proof (cases val)
  case None
  note sc = stored_children [OF st]
  show ?thesis
    unfolding None option.case monad_laws set_rest_simps
    by (rule edits_bind [OF edits_merge [OF cf joinable_Node [OF t] e]])
       (use sc cont None key val in auto)
next
  case (Some w)
  show ?thesis
  proof (cases "snd x = w")
    case True
    then have "treap_set (key_higher sha) key val (Node l x r) = Node l x r" using Some key by (cases x) simp
    from same [OF this] True Some e show ?thesis by (simp add: monad_laws edits_return del: returnS_apply)
  next
    case False
    let ?t = "Node l (key, w) r"
    have eq: "treap_set (key_higher sha) key val (Node l x r) = ?t" using Some key by simp
    have u: "?t \<in> universe sha E" using val eq by simp
    have "edits sha E e (bindS (make_node sha ((node_of sha (Node l x r))\<lparr>n_value := w\<rparr>))
        (\<lambda>i. foldS (set_step sha get) path i)) Q"
    proof (rule edits_rebuild [OF cf e u conjunct1 [OF stored_children [OF st]] conjunct2 [OF stored_children [OF st]]])
      show "(node_of sha (Node l x r))\<lparr>n_value := w\<rparr> = node_of sha (Node l (key, w) r)" using key by simp
    qed (use cont [unfolded eq] in blast)
    then show ?thesis using False Some by (simp add: monad_laws)
  qed
qed

lemma edits_set_loop:
  assumes cf: "collision_free sha E"
  shows "t \<in> universe sha E \<Longrightarrow> ed_ok sha E e \<Longrightarrow> stored sha get e t \<Longrightarrow> apart sha E visited t \<Longrightarrow>
    settles sha E key val t \<Longrightarrow> (\<And>e'. treap_set (key_higher sha) key val t = t \<Longrightarrow> ed_ok sha E e' \<Longrightarrow> ext e e' \<Longrightarrow> Q root e') \<Longrightarrow>
    (\<And>e'. ed_ok sha E e' \<Longrightarrow> ext e e' \<Longrightarrow> stored sha get e' (treap_set (key_higher sha) key val t) \<Longrightarrow>
      edits sha E e' (foldS (set_step sha get) path (tid sha (treap_set (key_higher sha) key val t))) Q) \<Longrightarrow>
    edits sha E e (bindS (set_loop sha get key val visited path (tid sha t)) (set_rest sha get root)) Q"
proof (induction t arbitrary: e visited path)
  case Leaf
  show ?case
  proof (cases val)
    case None
    with Leaf show ?thesis by (simp add: set_loop_zero monad_laws edits_return del: returnS_apply)
  next
    case (Some w)
    have u: "Node Leaf (key, w) Leaf \<in> universe sha E"
      using settles_result [OF Leaf.prems(5)] Some by simp
    have "edits sha E e (bindS (make_node sha \<lparr>n_key = key, n_value = w, n_left = 0, n_right = 0\<rparr>)
        (\<lambda>i. foldS (set_step sha get) path i)) Q"
      using Leaf.prems(7) Some by (intro edits_rebuild [OF cf Leaf.prems(2) u]) simp_all
    then show ?thesis using Some by (simp add: set_loop_zero monad_laws)
  qed
next
  case (Node l x r)
  let ?t = "Node l x r"
  note U = Node.prems(1)
  have nz: "tid sha ?t \<noteq> 0" using tid_zero [OF cf U] by simp
  have fresh: "tid sha ?t \<notin> set visited" using apart_fresh [OF cf Node.prems(4) U] .
  have UC: "l \<in> universe sha E" "r \<in> universe sha E" using universe_Node [OF U] by auto
  have uT: "treap_set (key_higher sha) key val ?t \<in> universe sha E" by (rule settles_result [OF Node.prems(5)])
  have ap: "apart sha E (tid sha ?t # visited) c" if "c = l \<or> c = r" for c
    using that root_not_in_child [OF U] by (intro apart_Cons [OF Node.prems(4) U]) auto
  show ?case
    unfolding set_loop_step [OF nz fresh] monad_laws
  proof (rule edits_bind [OF edits_node [OF cf Node.prems(2) U _ Node.prems(3)]])
    fix n e1
    assume e1: "ed_ok sha E e1" "ext e e1"
      and "n = node_of sha ?t \<and> te_pending e1 = te_pending e \<and> te_heights e1 = te_heights e"
    then have n: "n = node_of sha ?t" by simp
    note st = stored_ext [OF Node.prems(3) e1(2)]
    note cont = Node.prems(7) [OF _ ext_trans [OF e1(2)]]
    note same = Node.prems(6) [OF _ _ ext_trans [OF e1(2)]]
    consider "key = fst x" | "key < fst x" | "fst x < key" by (rule linorder_cases)
    then show "edits sha E e1 (if key = n_key n then bindS (case val of
            Some w \<Rightarrow> if n_value n = w then returnS Unchanged
                     else bindS (make_node sha (n\<lparr>n_value := w\<rparr>)) (\<lambda>i. returnS (Changed path i))
          | None \<Rightarrow> bindS (tree_merge sha get (n_left n) (n_right n)) (\<lambda>i. returnS (Changed path i))) (set_rest sha get root)
        else bindS (set_loop sha get key val (tid sha ?t # visited) ((n, key < n_key n) # path)
               (if key < n_key n then n_left n else n_right n)) (set_rest sha get root)) Q"
    proof cases
      case 1
      have "edits sha E e1 (bindS (case val of
            Some w \<Rightarrow> if n_value (node_of sha ?t) = w then returnS Unchanged
                     else bindS (make_node sha ((node_of sha ?t)\<lparr>n_value := w\<rparr>)) (\<lambda>i. returnS (Changed path i))
          | None \<Rightarrow> bindS (tree_merge sha get (tid sha l) (tid sha r)) (\<lambda>i. returnS (Changed path i)))
        (set_rest sha get root)) Q"
        by (rule edits_set_here [OF cf uT U e1(1) st 1]) (use same e1 cont in auto)
      then show ?thesis unfolding n node_of_simps using 1 by simp
    next
      case 2
      have eq: "treap_set (key_higher sha) key val ?t = fix_left (key_higher sha) (treap_set (key_higher sha) key val l) x r"
        using 2 by auto
      have ul: "treap_set (key_higher sha) key val l \<in> universe sha E" by (rule settles_result [OF settles_left [OF Node.prems(5) 2]])
      have "edits sha E e1 (bindS (set_loop sha get key val (tid sha ?t # visited) ((n, True) # path) (tid sha l))
          (set_rest sha get root)) Q"
      proof (rule Node.IH(1) [OF UC(1) e1(1) conjunct1 [OF stored_children [OF st]] ap settles_left [OF Node.prems(5) 2]])
        show "Q root e'" if "treap_set (key_higher sha) key val l = l" "ed_ok sha E e'" "ext e1 e'" for e'
          using same [of e'] that eq fix_id(1) [OF U] by simp
        show "edits sha E e' (foldS (set_step sha get) ((n, True) # path) (tid sha (treap_set (key_higher sha) key val l))) Q"
          if e': "ed_ok sha E e'" "ext e1 e'" "stored sha get e' (treap_set (key_higher sha) key val l)" for e'
        proof -
          have "edits sha E e' (set_step sha get (n, True) (tid sha (treap_set (key_higher sha) key val l)))
              (\<lambda>i e''. i = tid sha (treap_set (key_higher sha) key val ?t) \<and> stored sha get e'' (treap_set (key_higher sha) key val ?t))"
            unfolding eq
            by (rule edits_step_left [OF cf e'(1) ul uT [unfolded eq] e'(3) stored_ext [OF conjunct2 [OF stored_children [OF st]] e'(2)]])
               (simp_all add: n)
          then show ?thesis
            by (simp only: foldS.simps, elim edits_bind) (use cont ext_trans [OF e'(2)] in blast)
        qed
      qed simp
      then show ?thesis using 2 n by auto
    next
      case 3
      have eq: "treap_set (key_higher sha) key val ?t = fix_right (key_higher sha) l x (treap_set (key_higher sha) key val r)"
        using 3 by auto
      have ur: "treap_set (key_higher sha) key val r \<in> universe sha E" by (rule settles_result [OF settles_right [OF Node.prems(5) 3]])
      have "edits sha E e1 (bindS (set_loop sha get key val (tid sha ?t # visited) ((n, False) # path) (tid sha r))
          (set_rest sha get root)) Q"
      proof (rule Node.IH(2) [OF UC(2) e1(1) conjunct2 [OF stored_children [OF st]] ap settles_right [OF Node.prems(5) 3]])
        show "Q root e'" if "treap_set (key_higher sha) key val r = r" "ed_ok sha E e'" "ext e1 e'" for e'
          using same [of e'] that eq fix_id(2) [OF U] by simp
        show "edits sha E e' (foldS (set_step sha get) ((n, False) # path) (tid sha (treap_set (key_higher sha) key val r))) Q"
          if e': "ed_ok sha E e'" "ext e1 e'" "stored sha get e' (treap_set (key_higher sha) key val r)" for e'
        proof -
          have "edits sha E e' (set_step sha get (n, False) (tid sha (treap_set (key_higher sha) key val r)))
              (\<lambda>i e''. i = tid sha (treap_set (key_higher sha) key val ?t) \<and> stored sha get e'' (treap_set (key_higher sha) key val ?t))"
            unfolding eq
            by (rule edits_step_right [OF cf e'(1) ur uT [unfolded eq] stored_ext [OF conjunct1 [OF stored_children [OF st]] e'(2)] e'(3)])
               (simp_all add: n)
          then show ?thesis
            by (simp only: foldS.simps, elim edits_bind) (use cont ext_trans [OF e'(2)] in blast)
        qed
      qed simp
      then show ?thesis using 3 n by auto
    qed
  qed simp
qed

lemma edits_set:
  assumes cf: "collision_free sha E" and t: "t \<in> universe sha E" and e: "ed_ok sha E e" and st: "stored sha get e t"
    and val: "settles sha E key val t"
  shows "edits sha E e (tree_set sha get (tid sha t) key val) (\<lambda>i e'.
    i = tid sha (treap_set (key_higher sha) key val t) \<and> stored sha get e' (treap_set (key_higher sha) key val t))"
  unfolding tree_set_def set_rest_def [symmetric]
  by (rule edits_set_loop [OF cf t e st apart_Nil val]) (use stored_ext [OF st] in \<open>auto simp: edits_return\<close>)

abbreviation edited :: "(bytes \<Rightarrow> oid) \<Rightarrow> (string, oid option) smap \<Rightarrow> mtree \<Rightarrow> mtree" where
  "edited sha changes t \<equiv> fold (\<lambda>(k, v). treap_set (key_higher sha) k v) changes t"

fun settle_all :: "(bytes \<Rightarrow> oid) \<Rightarrow> mtree set \<Rightarrow> (string, oid option) smap \<Rightarrow> mtree \<Rightarrow> bool" where
  "settle_all sha E [] t = True"
| "settle_all sha E ((k, v) # changes) t \<longleftrightarrow>
     settles sha E k v t \<and> settle_all sha E changes (treap_set (key_higher sha) k v t)"

lemma edits_changes:
  assumes cf: "collision_free sha E"
  shows "settle_all sha E changes t \<Longrightarrow> t \<in> universe sha E \<Longrightarrow> ed_ok sha E e \<Longrightarrow> stored sha get e t \<Longrightarrow>
    edits sha E e (foldS (\<lambda>(key, val) candidate. tree_set sha get candidate key val) changes (tid sha t))
      (\<lambda>i e'. edited sha changes t \<in> universe sha E \<and> i = tid sha (edited sha changes t) \<and>
        stored sha get e' (edited sha changes t))"
proof (induction changes arbitrary: t e)
  case Nil
  then show ?case by (simp add: edits_return del: returnS_apply)
next
  case (Cons c changes)
  obtain k v where c: "c = (k, v)" by (cases c)
  have val: "settles sha E k v t" and rest: "settle_all sha E changes (treap_set (key_higher sha) k v t)"
    using Cons.prems(1) c by auto
  show ?case
    unfolding c foldS.simps prod.case fold_simps
    by (rule edits_bind [OF edits_set [OF cf Cons.prems(2-4) val]])
       (use Cons.IH [OF rest settles_result [OF val]] in auto)
qed

section \<open>Heights\<close>

lemma tree_height_step:
  "root \<noteq> 0 \<Longrightarrow> depth < 256 \<Longrightarrow> map_of (te_heights e) root = None \<Longrightarrow> tree_height get depth root e =
     bindS (tree_node get root) (\<lambda>n.
          bindS (tree_height get (depth + 1) (n_left n)) (\<lambda>hl.
          bindS (tree_height get (depth + 1) (n_right n)) (\<lambda>hr.
          bindS (modifyS (\<lambda>e. e\<lparr>te_heights := emplace root (1 + max hl hr) (te_heights e)\<rparr>)) (\<lambda>_.
          returnS (1 + max hl hr))))) e"
  by (subst tree_height.simps) simp

lemma edits_height:
  assumes cf: "collision_free sha E"
  shows "t \<in> universe sha E \<Longrightarrow> ed_ok sha E e \<Longrightarrow> stored sha get e t \<Longrightarrow> depth + height t \<le> 256 \<Longrightarrow>
    edits sha E e (tree_height get depth (tid sha t)) (\<lambda>h e'. h = height t \<and> te_pending e' = te_pending e)"
proof (induction t arbitrary: depth e)
  case Leaf
  then show ?case by (simp add: edits_def tree_height.simps)
next
  case (Node l x r)
  let ?t = "Node l x r"
  note U = Node.prems(1)
  have nz: "tid sha ?t \<noteq> 0" using tid_zero [OF cf U] by simp
  have d: "depth < 256" using Node.prems(4) by simp
  show ?case
  proof (cases "map_of (te_heights e) (tid sha ?t)")
    case (Some h)
    then obtain u where "u \<in> universe sha E" "tid sha u = tid sha ?t" "h = height u"
      using Node.prems(2) unfolding ed_ok_def by metis
    then have "h = height ?t" using tid_inject [OF cf _ U] by metis
    then show ?thesis
      using Some nz d Node.prems by (simp add: edits_def tree_height.simps del: tid.simps(2))
  next
    case None
    have "edits sha E e (bindS (tree_node get (tid sha ?t)) (\<lambda>n.
          bindS (tree_height get (depth + 1) (n_left n)) (\<lambda>hl.
          bindS (tree_height get (depth + 1) (n_right n)) (\<lambda>hr.
          bindS (modifyS (\<lambda>e. e\<lparr>te_heights := emplace (tid sha ?t) (1 + max hl hr) (te_heights e)\<rparr>)) (\<lambda>_.
          returnS (1 + max hl hr)))))) (\<lambda>h e'. h = height ?t \<and> te_pending e' = te_pending e)"
    proof (rule edits_bind [OF edits_node [OF cf Node.prems(2) U _ Node.prems(3)]])
      fix n e1
      assume e1: "ed_ok sha E e1" "ext e e1" and n: "n = node_of sha ?t \<and> te_pending e1 = te_pending e \<and> te_heights e1 = te_heights e"
      have st: "stored sha get e1 l" "stored sha get e1 r"
        using stored_children [OF stored_ext [OF Node.prems(3) e1(2)]] by auto
      have C: "l \<in> universe sha E" "r \<in> universe sha E" using universe_Node [OF U] by auto
      have "edits sha E e1 (bindS (tree_height get (depth + 1) (tid sha l)) (\<lambda>hl.
          bindS (tree_height get (depth + 1) (tid sha r)) (\<lambda>hr.
          bindS (modifyS (\<lambda>e. e\<lparr>te_heights := emplace (tid sha ?t) (1 + max hl hr) (te_heights e)\<rparr>)) (\<lambda>_.
          returnS (1 + max hl hr))))) (\<lambda>h e'. h = height ?t \<and> te_pending e' = te_pending e)"
      proof (rule edits_bind [OF Node.IH(1) [OF C(1) e1(1) st(1)]])
        show "depth + 1 + height l \<le> 256" using Node.prems(4) by simp
        fix hl e2
        assume e2: "ed_ok sha E e2" "ext e1 e2" and hl: "hl = height l \<and> te_pending e2 = te_pending e1"
        show "edits sha E e2 (bindS (tree_height get (depth + 1) (tid sha r)) (\<lambda>hr.
            bindS (modifyS (\<lambda>e. e\<lparr>te_heights := emplace (tid sha ?t) (1 + max hl hr) (te_heights e)\<rparr>)) (\<lambda>_.
            returnS (1 + max hl hr)))) (\<lambda>h e'. h = height ?t \<and> te_pending e' = te_pending e)"
        proof (rule edits_bind [OF Node.IH(2) [OF C(2) e2(1) stored_ext [OF st(2) e2(2)]]])
          show "depth + 1 + height r \<le> 256" using Node.prems(4) by simp
          fix hr e3
          assume e3: "ed_ok sha E e3" "ext e2 e3" and hr: "hr = height r \<and> te_pending e3 = te_pending e2"
          have h: "1 + max hl hr = height ?t" using hl hr by simp
          have "ed_ok sha E (e3\<lparr>te_heights := emplace (tid sha ?t) (height ?t) (te_heights e3)\<rparr>)"
            using e3(1) U unfolding ed_ok_def
            by (auto simp: map_of_emplace simp del: tid.simps(2) split: option.splits if_splits)
          then show "edits sha E e3 (bindS (modifyS (\<lambda>e. e\<lparr>te_heights := emplace (tid sha ?t) (1 + max hl hr) (te_heights e)\<rparr>)) (\<lambda>_.
              returnS (1 + max hl hr))) (\<lambda>h e'. h = height ?t \<and> te_pending e' = te_pending e)"
            unfolding h using n hl hr by (simp add: edits_def bindS_def ext_def)
        qed
      qed
      then show "edits sha E e1 (bindS (tree_height get (depth + 1) (n_left n)) (\<lambda>hl.
          bindS (tree_height get (depth + 1) (n_right n)) (\<lambda>hr.
          bindS (modifyS (\<lambda>e. e\<lparr>te_heights := emplace (tid sha ?t) (1 + max hl hr) (te_heights e)\<rparr>)) (\<lambda>_.
          returnS (1 + max hl hr))))) (\<lambda>h e'. h = height ?t \<and> te_pending e' = te_pending e)"
        using n by (simp del: tid.simps(2))
    qed simp
    then show ?thesis by (simp only: edits_def tree_height_step [OF nz d None])
  qed
qed

lemma tree_height_limit:
  assumes cf: "collision_free sha E"
  shows "t \<in> universe sha E \<Longrightarrow> ed_ok sha E e \<Longrightarrow> stored sha get e t \<Longrightarrow> t \<noteq> Leaf \<Longrightarrow> 256 < depth + height t \<Longrightarrow>
    fst (tree_height get depth (tid sha t) e) = Inl (Runtime_error ''metadata tree depth limit'')"
proof (induction t arbitrary: depth e)
  case (Node l x r)
  let ?t = "Node l x r" and ?err = "Inl (Runtime_error ''metadata tree depth limit'')"
  note U = Node.prems(1)
  have C: "l \<in> universe sha E" "r \<in> universe sha E" using universe_Node [OF U] by auto
  have nz: "tid sha ?t \<noteq> 0" using tid_zero [OF cf U] by simp
  show ?case
  proof (cases "depth < 256 \<and> map_of (te_heights e) (tid sha ?t) = None")
    case False
    have "h = height ?t" if "map_of (te_heights e) (tid sha ?t) = Some h" for h
      using that Node.prems(2) tid_inject [OF cf _ U] unfolding ed_ok_def by metis
    then show ?thesis
      using False nz Node.prems(5) by (auto simp: tree_height.simps simp del: tid.simps(2) split: option.splits)
  next
    case True
    from edits_node [OF cf Node.prems(2) U _ Node.prems(3)] obtain e1
      where run: "tree_node get (tid sha ?t) e = (Inr (node_of sha ?t), e1)" and e1: "ed_ok sha E e1" "ext e e1"
      by (auto simp: edits_def)
    have st: "stored sha get e1 l" "stored sha get e1 r"
      using stored_children [OF stored_ext [OF Node.prems(3) e1(2)]] by auto
    have eq: "tree_height get depth (tid sha ?t) e =
        bindS (tree_height get (depth + 1) (tid sha l)) (\<lambda>hl.
          bindS (tree_height get (depth + 1) (tid sha r)) (\<lambda>hr.
          bindS (modifyS (\<lambda>e. e\<lparr>te_heights := emplace (tid sha ?t) (1 + max hl hr) (te_heights e)\<rparr>)) (\<lambda>_.
          returnS (1 + max hl hr)))) e1"
      using tree_height_step [OF nz conjunct1 [OF True] conjunct2 [OF True]] run
      by (simp add: bindS_def del: tid.simps(2))
    show ?thesis
    proof (cases "256 < depth + 1 + height l")
      case True
      then have "l \<noteq> Leaf" using \<open>depth < 256 \<and> _\<close> by auto
      with Node.IH(1) [OF C(1) e1(1) st(1) _ True] show ?thesis
        unfolding eq by (intro bindS_fst_exn) simp
    next
      case False
      then have big: "256 < depth + 1 + height r" using Node.prems(5) by auto
      then have "r \<noteq> Leaf" using \<open>depth < 256 \<and> _\<close> by auto
      from edits_height [OF cf C(1) e1(1) st(1)] False obtain e2
        where "tree_height get (depth + 1) (tid sha l) e1 = (Inr (height l), e2)"
          and e2: "ed_ok sha E e2" "ext e1 e2"
        by (force simp: edits_def)
      then show ?thesis
        using Node.IH(2) [OF C(2) e2(1) stored_ext [OF st(2) e2(2)] \<open>r \<noteq> Leaf\<close> big]
        unfolding eq by (simp only: bindS_ok bindS_fst_exn)
    qed
  qed
qed simp

section \<open>Reads\<close>

lemma lookup_loop_step:
  "current \<noteq> 0 \<Longrightarrow> depth < 256 \<Longrightarrow> lookup_loop get key depth current =
    bindS (tree_node get current) (\<lambda>n.
        if key = n_key n then returnS (Some (n_value n))
        else lookup_loop get key (depth + 1) (if key < n_key n then n_left n else n_right n))"
  by (rule ext, subst lookup_loop.simps) simp

lemma edits_lookup:
  assumes cf: "collision_free sha E"
  shows "t \<in> universe sha E \<Longrightarrow> ed_ok sha E e \<Longrightarrow> stored sha get e t \<Longrightarrow> depth + height t \<le> 256 \<Longrightarrow>
    edits sha E e (lookup_loop get key depth (tid sha t))
      (\<lambda>v e'. v = tree_lookup t key \<and> te_pending e' = te_pending e \<and> te_heights e' = te_heights e)"
proof (induction t arbitrary: depth e)
  case Leaf
  then show ?case by (simp add: edits_def lookup_loop.simps)
next
  case (Node l x r)
  let ?t = "Node l x r"
  note U = Node.prems(1)
  have nz: "tid sha ?t \<noteq> 0" using tid_zero [OF cf U] by simp
  have d: "depth < 256" using Node.prems(4) by simp
  have C: "l \<in> universe sha E" "r \<in> universe sha E" using universe_Node [OF U] by auto
  show ?case
    unfolding lookup_loop_step [OF nz d]
  proof (rule edits_bind [OF edits_node [OF cf Node.prems(2) U _ Node.prems(3)]])
    fix n e1
    assume e1: "ed_ok sha E e1" "ext e e1" and n: "n = node_of sha ?t \<and> te_pending e1 = te_pending e \<and> te_heights e1 = te_heights e"
    have st: "stored sha get e1 l" "stored sha get e1 r"
      using stored_children [OF stored_ext [OF Node.prems(3) e1(2)]] by auto
    show "edits sha E e1 (if key = n_key n then returnS (Some (n_value n))
        else lookup_loop get key (depth + 1) (if key < n_key n then n_left n else n_right n))
      (\<lambda>v e'. v = tree_lookup ?t key \<and> te_pending e' = te_pending e \<and> te_heights e' = te_heights e)"
      using n e1 Node.prems(4) Node.IH(1) [OF C(1) e1(1) st(1), of "depth + 1"] Node.IH(2) [OF C(2) e1(1) st(2), of "depth + 1"]
      by (auto simp: edits_return simp del: returnS_apply)
  qed simp
qed

lemma upper_rev_above: "upper_rev xs = Some u \<Longrightarrow> rev xs @ z < u"
proof (induction xs arbitrary: z)
  case (Cons c cs)
  show ?case
  proof (cases "c = CHR 0xFF")
    case True
    with Cons.prems Cons.IH [of "c # z"] show ?thesis by simp
  next
    case False
    then have "of_char c \<noteq> (255 :: nat)" using of_char_eq_iff [of c "CHR 0xFF", where ?'a = nat] by simp
    then have "of_char c < (255 :: nat)" using nat_of_char_less_256 [of c] by linarith
    then have "c < char_of (of_char c + 1 :: nat)" by (simp add: less_char_def)
    then show ?thesis using False Cons.prems by auto
  qed
qed simp

lemma below_upper_prefix: "prefix p k \<Longrightarrow> below_upper p k"
  using upper_rev_above [of "rev p"]
  by (auto simp: below_upper_def upper_bound_def prefix_def split: option.split)

lemma below_upper_less: "k < k' \<Longrightarrow> below_upper p k' \<Longrightarrow> below_upper p k"
  by (auto simp: below_upper_def split: option.splits)

text \<open>The keys of a tree, in order.\<close>

abbreviation tkeys :: "mtree \<Rightarrow> string list" where "tkeys t \<equiv> map fst (inorder t)"

lemma universe_keys:
  assumes "Node l x r \<in> universe sha E"
  shows "\<forall>k \<in> set (tkeys l). k < fst x" "\<forall>k \<in> set (tkeys r). fst x < k"
  using assms by (auto simp: universe_def treap_def smap_ok_Node)

lemma keys_walk_step:
  "i \<noteq> 0 \<Longrightarrow> depth < 256 \<Longrightarrow> keys_walk get p depth i out =
    bindS (tree_node get i) (\<lambda>n.
        bindS (if p \<le> n_key n then keys_walk get p (depth + 1) (n_left n) out else returnS out) (\<lambda>out1.
        let out2 = (if prefix p (n_key n) then out1 @ [n_key n] else out1) in
        if below_upper p (n_key n) then keys_walk get p (depth + 1) (n_right n) out2
        else returnS out2))"
  by (rule ext, subst keys_walk.simps) simp

lemma edits_keys:
  assumes cf: "collision_free sha E"
  shows "t \<in> universe sha E \<Longrightarrow> ed_ok sha E e \<Longrightarrow> stored sha get e t \<Longrightarrow> depth + height t \<le> 256 \<Longrightarrow>
    edits sha E e (keys_walk get p depth (tid sha t) out)
      (\<lambda>v e'. v = out @ filter (prefix p) (tkeys t))"
proof (induction t arbitrary: depth e out)
  case Leaf
  then show ?case by (simp add: edits_def keys_walk.simps)
next
  case (Node l x r)
  let ?t = "Node l x r"
  note U = Node.prems(1)
  have nz: "tid sha ?t \<noteq> 0" using tid_zero [OF cf U] by simp
  have d: "depth < 256" and dl: "depth + 1 + height l \<le> 256" and dr: "depth + 1 + height r \<le> 256"
    using Node.prems(4) by auto
  have C: "l \<in> universe sha E" "r \<in> universe sha E" using universe_Node [OF U] by auto
  have skip_left: "filter (prefix p) (tkeys l) = []" if "\<not> p \<le> fst x"
    using that universe_keys(1) [OF U] prefix_le [of p] by (fastforce simp: filter_empty_conv)
  have skip_right: "filter (prefix p) (tkeys r) = []" if "\<not> below_upper p (fst x)"
    using that universe_keys(2) [OF U] below_upper_prefix below_upper_less by (fastforce simp: filter_empty_conv)
  show ?case
    unfolding keys_walk_step [OF nz d]
  proof (rule edits_bind [OF edits_node [OF cf Node.prems(2) U _ Node.prems(3)]])
    fix n e1
    assume e1: "ed_ok sha E e1" "ext e e1" and "n = node_of sha ?t \<and> te_pending e1 = te_pending e \<and> te_heights e1 = te_heights e"
    then have n: "n = node_of sha ?t" by simp
    have st: "stored sha get e1 l" "stored sha get e1 r"
      using stored_children [OF stored_ext [OF Node.prems(3) e1(2)]] by auto
    have left: "edits sha E e1 (if p \<le> n_key n then keys_walk get p (depth + 1) (n_left n) out else returnS out)
        (\<lambda>v e'. v = out @ filter (prefix p) (tkeys l))"
      using n e1 Node.IH(1) [OF C(1) e1(1) st(1) dl] skip_left by (simp add: edits_return del: returnS_apply)
    show "edits sha E e1 (bindS (if p \<le> n_key n then keys_walk get p (depth + 1) (n_left n) out else returnS out) (\<lambda>out1.
        let out2 = (if prefix p (n_key n) then out1 @ [n_key n] else out1) in
        if below_upper p (n_key n) then keys_walk get p (depth + 1) (n_right n) out2
        else returnS out2)) (\<lambda>v e'. v = out @ filter (prefix p) (tkeys ?t))"
    proof (rule edits_bind [OF left])
      fix out1 e2
      assume e2: "ed_ok sha E e2" "ext e1 e2" and out1: "out1 = out @ filter (prefix p) (tkeys l)"
      let ?out2 = "if prefix p (fst x) then out1 @ [fst x] else out1"
      have eq: "out @ filter (prefix p) (tkeys ?t) = ?out2 @ filter (prefix p) (tkeys r)"
        using out1 by simp
      have "edits sha E e2 (if below_upper p (fst x) then keys_walk get p (depth + 1) (tid sha r) ?out2
          else returnS ?out2) (\<lambda>v e'. v = out @ filter (prefix p) (tkeys ?t))"
        unfolding eq using Node.IH(2) [OF C(2) e2(1) stored_ext [OF st(2) e2(2)] dr] skip_right e2
        by (simp add: edits_return del: returnS_apply)
      then show "edits sha E e2 (let out2 = (if prefix p (n_key n) then out1 @ [n_key n] else out1) in
          if below_upper p (n_key n) then keys_walk get p (depth + 1) (n_right n) out2
          else returnS out2) (\<lambda>v e'. v = out @ filter (prefix p) (tkeys ?t))"
        unfolding n node_of_simps Let_def .
    qed
  qed simp
qed

definition in_page :: "string \<Rightarrow> string \<Rightarrow> string \<Rightarrow> bool" where
  "in_page p after k \<longleftrightarrow> prefix p k \<and> (after = [] \<or> after < k)"

lemma page_walk_step:
  "i \<noteq> 0 \<Longrightarrow> length out \<noteq> limit \<Longrightarrow> depth < 256 \<Longrightarrow> page_walk get p after limit depth i out =
    bindS (tree_node get i) (\<lambda>n.
        bindS (if (if after = [] then p else after) < n_key n
               then page_walk get p after limit (depth + 1) (n_left n) out else returnS out) (\<lambda>out1.
        if length out1 = limit then returnS out1
        else let out2 = (if prefix p (n_key n) \<and> (after = [] \<or> after < n_key n)
                         then out1 @ [n_key n] else out1) in
          if length out2 < limit \<and> below_upper p (n_key n)
          then page_walk get p after limit (depth + 1) (n_right n) out2
          else returnS out2))"
  by (rule ext, subst page_walk.simps) simp

lemma edits_page:
  assumes cf: "collision_free sha E"
  shows "t \<in> universe sha E \<Longrightarrow> ed_ok sha E e \<Longrightarrow> stored sha get e t \<Longrightarrow> depth + height t \<le> 256 \<Longrightarrow>
    length out \<le> limit \<Longrightarrow> edits sha E e (page_walk get p after limit depth (tid sha t) out)
      (\<lambda>v e'. v = out @ take (limit - length out) (filter (in_page p after) (tkeys t)))"
proof (induction t arbitrary: depth e out)
  case Leaf
  then show ?case by (simp add: edits_def page_walk.simps)
next
  case (Node l x r)
  let ?t = "Node l x r" and ?f = "filter (in_page p after)"
  note U = Node.prems(1)
  have nz: "tid sha ?t \<noteq> 0" using tid_zero [OF cf U] by simp
  have d: "depth < 256" and dl: "depth + 1 + height l \<le> 256" and dr: "depth + 1 + height r \<le> 256"
    using Node.prems(4) by auto
  have C: "l \<in> universe sha E" "r \<in> universe sha E" using universe_Node [OF U] by auto
  have skip_left: "?f (tkeys l) = []" if "\<not> (if after = [] then p else after) < fst x"
    using that universe_keys(1) [OF U] prefix_le [of p] by (fastforce simp: filter_empty_conv in_page_def split: if_splits)
  have skip_right: "?f (tkeys r) = []" if "\<not> below_upper p (fst x)"
    using that universe_keys(2) [OF U] below_upper_prefix below_upper_less
    by (fastforce simp: filter_empty_conv in_page_def)
  show ?case
  proof (cases "length out = limit")
    case True
    then show ?thesis using Node.prems(2) by (simp add: edits_def page_walk.simps)
  next
    case False
    show ?thesis
      unfolding page_walk_step [OF nz False d]
    proof (rule edits_bind [OF edits_node [OF cf Node.prems(2) U _ Node.prems(3)]])
      fix n e1
      assume e1: "ed_ok sha E e1" "ext e e1" and "n = node_of sha ?t \<and> te_pending e1 = te_pending e \<and> te_heights e1 = te_heights e"
      then have n: "n = node_of sha ?t" by simp
      have st: "stored sha get e1 l" "stored sha get e1 r"
        using stored_children [OF stored_ext [OF Node.prems(3) e1(2)]] by auto
      have left: "edits sha E e1 (if (if after = [] then p else after) < n_key n
          then page_walk get p after limit (depth + 1) (n_left n) out else returnS out)
          (\<lambda>v e'. v = out @ take (limit - length out) (?f (tkeys l)))"
        using n e1 Node.IH(1) [OF C(1) e1(1) st(1) dl Node.prems(5)] skip_left
        by (simp add: edits_return del: returnS_apply)
      show "edits sha E e1 (bindS (if (if after = [] then p else after) < n_key n
               then page_walk get p after limit (depth + 1) (n_left n) out else returnS out) (\<lambda>out1.
        if length out1 = limit then returnS out1
        else let out2 = (if prefix p (n_key n) \<and> (after = [] \<or> after < n_key n)
                         then out1 @ [n_key n] else out1) in
          if length out2 < limit \<and> below_upper p (n_key n)
          then page_walk get p after limit (depth + 1) (n_right n) out2
          else returnS out2)) (\<lambda>v e'. v = out @ take (limit - length out) (?f (tkeys ?t)))"
      proof (rule edits_bind [OF left])
        fix out1 e2
        assume e2: "ed_ok sha E e2" "ext e1 e2" and out1: "out1 = out @ take (limit - length out) (?f (tkeys l))"
        have le: "length out1 \<le> limit" using out1 Node.prems(5) by auto
        let ?out2 = "if in_page p after (fst x) then out1 @ [fst x] else out1"
        show "edits sha E e2 (if length out1 = limit then returnS out1
            else let out2 = (if prefix p (n_key n) \<and> (after = [] \<or> after < n_key n)
                         then out1 @ [n_key n] else out1) in
              if length out2 < limit \<and> below_upper p (n_key n)
              then page_walk get p after limit (depth + 1) (n_right n) out2
              else returnS out2) (\<lambda>v e'. v = out @ take (limit - length out) (?f (tkeys ?t)))"
        proof (cases "length out1 = limit")
          case True
          then have "limit - length out \<le> length (?f (tkeys l))" using out1 Node.prems(5) by auto
          with True out1 e2 show ?thesis by (simp add: edits_return del: returnS_apply)
        next
          case False
          then have short: "length (?f (tkeys l)) < limit - length out" "length out1 < limit" using out1 le by auto
          have out1': "out1 = out @ ?f (tkeys l)" using out1 short by simp
          have lim: "length ?out2 \<le> limit" using short by auto
          have eq: "out @ take (limit - length out) (?f (tkeys ?t)) =
              ?out2 @ take (limit - length ?out2) (?f (tkeys r))"
            using out1' short by (auto simp: take_Cons')
          have "edits sha E e2 (if length ?out2 < limit \<and> below_upper p (fst x)
              then page_walk get p after limit (depth + 1) (tid sha r) ?out2 else returnS ?out2)
              (\<lambda>v e'. v = out @ take (limit - length out) (?f (tkeys ?t)))"
            unfolding eq using Node.IH(2) [OF C(2) e2(1) stored_ext [OF st(2) e2(2)] dr lim] skip_right e2 lim
            by (simp add: edits_return del: returnS_apply)
          then show ?thesis
            unfolding n node_of_simps Let_def in_page_def [symmetric] if_not_P [OF False] .
        qed
      qed
    qed simp
  qed
qed

text \<open>The validating walk.\<close>

lemma emplace_last: "\<forall>y \<in> set m. fst y < k \<Longrightarrow> emplace k v m = m @ [(k, v)]"
proof -
  assume less: "\<forall>y \<in> set m. fst y < k"
  then have "map_of m k = None" by (auto simp: map_of_eq_None_iff)
  moreover have "put k v m = m @ [(k, v)]" using less by (induction m) auto
  ultimately show ?thesis by (simp add: emplace_def)
qed

lemma entries_walk_step:
  "i \<noteq> 0 \<Longrightarrow> depth < 256 \<Longrightarrow> i \<notin> set (fst acc) \<Longrightarrow> entries_walk sha get lo hi depth i acc =
    bindS (tree_node get i) (\<lambda>n.
        needS ((case lo of None \<Rightarrow> True | Some x \<Rightarrow> x < n_key n) \<and>
               (case hi of None \<Rightarrow> True | Some x \<Rightarrow> n_key n < x)) ''metadata tree ordering mismatch'' (
        bindS (if n_left n = 0 then returnS ()
               else bindS (tree_node get (n_left n)) (\<lambda>c.
                 needS (\<not> higher sha c n) ''metadata tree heap mismatch'' (returnS ()))) (\<lambda>_.
        bindS (if n_right n = 0 then returnS ()
               else bindS (tree_node get (n_right n)) (\<lambda>c.
                 needS (\<not> higher sha c n) ''metadata tree heap mismatch'' (returnS ()))) (\<lambda>_.
        bindS (entries_walk sha get lo (Some (n_key n)) (depth + 1) (n_left n) (i # fst acc, snd acc)) (\<lambda>acc1.
        entries_walk sha get (Some (n_key n)) hi (depth + 1) (n_right n)
          (fst acc1, emplace (n_key n) (n_value n) (snd acc1)))))))"
  by (rule ext, subst entries_walk.simps) simp

lemma edits_heap_check:
  assumes cf: "collision_free sha E" and t: "Node l x r \<in> universe sha E" and e: "ed_ok sha E e"
    and c: "c = l \<or> c = r" and st: "stored sha get e c"
  shows "edits sha E e (if tid sha c = 0 then returnS () else bindS (tree_node get (tid sha c)) (\<lambda>m.
      needS (\<not> higher sha m (node_of sha (Node l x r))) ''metadata tree heap mismatch'' (returnS ()))) (\<lambda>_ _. True)"
proof (cases "c = Leaf")
  case True
  then show ?thesis using e by (simp add: edits_return del: returnS_apply)
next
  case False
  have cU: "c \<in> universe sha E" using universe_Node [OF t] c by blast
  obtain a y b where cy: "c = Node a y b" using False by (cases c) auto
  have "key_higher sha (fst x) (fst y)" using t c cy by (auto simp: universe_def treap_def)
  then have "\<not> key_higher sha (fst y) (fst x)" using pri.hi_trans pri.hi_irrefl by blast
  moreover have "tid sha c \<noteq> 0" using tid_zero [OF cf cU] False by simp
  moreover have "edits sha E e (bindS (tree_node get (tid sha c)) (\<lambda>m.
      needS (\<not> higher sha m (node_of sha (Node l x r))) ''metadata tree heap mismatch'' (returnS ()))) (\<lambda>_ _. True)"
    by (rule edits_bind [OF edits_node [OF cf e cU False st]])
       (use calculation(1) cy in \<open>auto simp: higher_key edits_return simp del: returnS_apply\<close>)
  ultimately show ?thesis by simp
qed

lemma set_tree_subtree: "u \<in> subtrees t \<Longrightarrow> set_tree u \<subseteq> set_tree t"
  by (induction t) auto

definition bounded_by :: "string option \<Rightarrow> string option \<Rightarrow> mtree \<Rightarrow> bool" where
  "bounded_by lo hi t \<longleftrightarrow> (\<forall>k \<in> set (tkeys t).
     (case lo of None \<Rightarrow> True | Some x \<Rightarrow> x < k) \<and> (case hi of None \<Rightarrow> True | Some x \<Rightarrow> k < x))"

lemma edits_entries:
  assumes cf: "collision_free sha E"
  shows "t \<in> universe sha E \<Longrightarrow> ed_ok sha E e \<Longrightarrow> stored sha get e t \<Longrightarrow> depth + height t \<le> 256 \<Longrightarrow>
    bounded_by lo hi t \<Longrightarrow> apart sha E (fst acc) t \<Longrightarrow> smap_ok (snd acc @ inorder t) \<Longrightarrow>
    edits sha E e (entries_walk sha get lo hi depth (tid sha t) acc)
      (\<lambda>acc' e'. snd acc' = snd acc @ inorder t \<and>
         set (fst acc') \<subseteq> set (fst acc) \<union> tid sha ` (subtrees t - {Leaf}))"
proof (induction t arbitrary: depth e lo hi acc)
  case Leaf
  then show ?case by (simp add: edits_def entries_walk.simps)
next
  case (Node l x r)
  let ?t = "Node l x r"
  note U = Node.prems(1)
  have nz: "tid sha ?t \<noteq> 0" using tid_zero [OF cf U] by simp
  have d: "depth < 256" and dl: "depth + 1 + height l \<le> 256" and dr: "depth + 1 + height r \<le> 256"
    using Node.prems(4) by auto
  have C: "l \<in> universe sha E" "r \<in> universe sha E" using universe_Node [OF U] by auto
  have fresh: "tid sha ?t \<notin> set (fst acc)" using apart_fresh [OF cf Node.prems(6) U] .
  have bl: "bounded_by lo (Some (fst x)) l" and br: "bounded_by (Some (fst x)) hi r"
    using Node.prems(5) universe_keys [OF U] by (auto simp: bounded_by_def)
  have apl: "apart sha E (tid sha ?t # fst acc) l"
    using root_not_in_child [OF U] by (intro apart_Cons [OF Node.prems(6) U]) auto
  have okl: "smap_ok (snd (tid sha ?t # fst acc, snd acc) @ inorder l)"
    using Node.prems(7) by (auto simp: smap_ok_append)
  show ?case
    unfolding entries_walk_step [OF nz d fresh]
  proof (rule edits_bind [OF edits_node [OF cf Node.prems(2) U _ Node.prems(3)]])
    fix n e1
    assume e1: "ed_ok sha E e1" "ext e e1" and "n = node_of sha ?t \<and> te_pending e1 = te_pending e \<and> te_heights e1 = te_heights e"
    then have n: "n = node_of sha ?t" by simp
    have st: "stored sha get e1 l" "stored sha get e1 r"
      using stored_children [OF stored_ext [OF Node.prems(3) e1(2)]] by auto
    have order: "(case lo of None \<Rightarrow> True | Some y \<Rightarrow> y < fst x) \<and> (case hi of None \<Rightarrow> True | Some y \<Rightarrow> fst x < y)"
      using Node.prems(5) by (simp add: bounded_by_def)
    let ?Q = "\<lambda>acc' e'. snd acc' = snd acc @ inorder ?t \<and>
      set (fst acc') \<subseteq> set (fst acc) \<union> tid sha ` (subtrees ?t - {Leaf})"
    have walks: "edits sha E e3 (bindS (entries_walk sha get lo (Some (fst x)) (depth + 1) (tid sha l)
          (tid sha ?t # fst acc, snd acc)) (\<lambda>acc1.
        entries_walk sha get (Some (fst x)) hi (depth + 1) (tid sha r)
          (fst acc1, emplace (fst x) (snd x) (snd acc1)))) ?Q"
      if e3: "ed_ok sha E e3" "ext e1 e3" for e3
    proof (rule edits_bind [OF Node.IH(1) [OF C(1) e3(1) stored_ext [OF st(1) e3(2)] dl bl _ okl]])
      show "apart sha E (fst (tid sha ?t # fst acc, snd acc)) l" using apl by simp
      fix acc1 e4
      assume e4: "ed_ok sha E e4" "ext e3 e4" and "snd acc1 = snd (tid sha ?t # fst acc, snd acc) @ inorder l \<and>
        set (fst acc1) \<subseteq> set (fst (tid sha ?t # fst acc, snd acc)) \<union> tid sha ` (subtrees l - {Leaf})"
      then have acc1: "snd acc1 = snd acc @ inorder l"
        "set (fst acc1) \<subseteq> insert (tid sha ?t) (set (fst acc)) \<union> tid sha ` (subtrees l - {Leaf})" by auto
      have em: "emplace (fst x) (snd x) (snd acc1) = snd acc @ inorder l @ [x]"
        using Node.prems(7) by (subst emplace_last) (auto simp: acc1 smap_ok_append)
      have apr: "apart sha E (fst acc1) r"
        unfolding apart_def
      proof
        fix i assume "i \<in> set (fst acc1)"
        then consider "i = tid sha ?t" | "i \<in> set (fst acc)" | u where "u \<in> subtrees l" "u \<noteq> Leaf" "i = tid sha u"
          using acc1(2) by blast
        then show "\<exists>u \<in> universe sha E. tid sha u = i \<and> \<not> set_tree u \<subseteq> set_tree r"
        proof cases
          case 1
          then show ?thesis using U root_not_in_child [OF U] by fastforce
        next
          case 2
          then show ?thesis using Node.prems(6) unfolding apart_def by fastforce
        next
          case (3 u)
          then obtain z where "z \<in> set_tree u" by (cases u) auto
          then have z: "z \<in> set_tree u" "z \<in> set_tree l" using set_tree_subtree [OF 3(1)] by auto
          have "z \<notin> set_tree r" using universe_keys [OF U] z(2) by fastforce
          then show ?thesis using 3 z(1) universe_subtree [OF C(1) 3(1)] by blast
        qed
      qed
      have ids: "set (fst acc1) \<union> tid sha ` (subtrees r - {Leaf}) \<subseteq> set (fst acc) \<union> tid sha ` (subtrees ?t - {Leaf})"
        using acc1(2) by (auto simp del: tid.simps)
      have okr: "smap_ok (snd (fst acc1, emplace (fst x) (snd x) (snd acc1)) @ inorder r)"
        using Node.prems(7) by (simp add: em)
      show "edits sha E e4 (entries_walk sha get (Some (fst x)) hi (depth + 1) (tid sha r)
          (fst acc1, emplace (fst x) (snd x) (snd acc1))) ?Q"
        by (rule edits_mono [OF Node.IH(2) [OF C(2) e4(1) stored_ext [OF st(2) ext_trans [OF e3(2) e4(2)]] dr br _ okr]])
           (use apr order_trans [OF _ ids] in \<open>auto simp: em\<close>)
    qed
    show "edits sha E e1 (needS ((case lo of None \<Rightarrow> True | Some x \<Rightarrow> x < n_key n) \<and>
               (case hi of None \<Rightarrow> True | Some x \<Rightarrow> n_key n < x)) ''metadata tree ordering mismatch'' (
        bindS (if n_left n = 0 then returnS ()
               else bindS (tree_node get (n_left n)) (\<lambda>c.
                 needS (\<not> higher sha c n) ''metadata tree heap mismatch'' (returnS ()))) (\<lambda>_.
        bindS (if n_right n = 0 then returnS ()
               else bindS (tree_node get (n_right n)) (\<lambda>c.
                 needS (\<not> higher sha c n) ''metadata tree heap mismatch'' (returnS ()))) (\<lambda>_.
        bindS (entries_walk sha get lo (Some (n_key n)) (depth + 1) (n_left n) (tid sha ?t # fst acc, snd acc)) (\<lambda>acc1.
        entries_walk sha get (Some (n_key n)) hi (depth + 1) (n_right n)
          (fst acc1, emplace (n_key n) (n_value n) (snd acc1))))))) ?Q"
      unfolding n node_of_simps if_P [OF order]
    proof (rule edits_bind [OF edits_heap_check [OF cf U e1(1) disjI1 [OF refl] st(1)]], goal_cases)
      case (1 u e2)
      show ?case
        by (rule edits_bind [OF edits_heap_check [OF cf U 1(1) disjI2 [OF refl] stored_ext [OF st(2) 1(2)]]])
           (use walks ext_trans [OF 1(2)] in blast)
    qed
  qed simp
qed

section \<open>Plans\<close>

text \<open>The nodes of a tree reachable through pending nodes only.\<close>

fun reach :: "(bytes \<Rightarrow> oid) \<Rightarrow> (oid, bytes) smap \<Rightarrow> mtree \<Rightarrow> mtree set" where
  "reach sha P Leaf = {}"
| "reach sha P (Node l x r) = (if map_of P (tid sha (Node l x r)) = None then {}
     else insert (Node l x r) (reach sha P l \<union> reach sha P r))"

definition emitted :: "(bytes \<Rightarrow> oid) \<Rightarrow> (oid, bytes) smap \<Rightarrow> bytes list \<Rightarrow> mtree \<Rightarrow> bool" where
  "emitted sha P os t \<longleftrightarrow> enc sha ` reach sha P t \<subseteq> set os"

text \<open>A visited node is already emitted with all it reaches, or is an ancestor.\<close>

definition collecting ::
    "(bytes \<Rightarrow> oid) \<Rightarrow> mtree set \<Rightarrow> (oid, bytes) smap \<Rightarrow> oid list \<times> bytes list \<Rightarrow> mtree \<Rightarrow> bool" where
  "collecting sha E P acc t \<longleftrightarrow> (\<forall>i \<in> set (fst acc). \<exists>u \<in> universe sha E. tid sha u = i \<and>
     (emitted sha P (snd acc) u \<or> \<not> set_tree u \<subseteq> set_tree t))"

definition collected ::
    "(bytes \<Rightarrow> oid) \<Rightarrow> mtree set \<Rightarrow> (oid, bytes) smap \<Rightarrow> mtree \<Rightarrow> oid list \<times> bytes list \<Rightarrow>
      oid list \<times> bytes list \<Rightarrow> bool" where
  "collected sha E P t acc acc' \<longleftrightarrow> emitted sha P (snd acc') t \<and> set (fst acc) \<subseteq> set (fst acc') \<and>
     set (snd acc) \<subseteq> set (snd acc') \<and> set (snd acc') \<subseteq> set (snd acc) \<union> enc sha ` reach sha P t \<and>
     (\<forall>i \<in> set (fst acc'). i \<in> set (fst acc) \<or>
        (\<exists>u \<in> universe sha E. tid sha u = i \<and> emitted sha P (snd acc') u))"

lemma emitted_mono: "emitted sha P os t \<Longrightarrow> set os \<subseteq> set os' \<Longrightarrow> emitted sha P os' t"
  by (auto simp: emitted_def)

lemma collecting_visited:
  assumes "collision_free sha E" and "t \<in> universe sha E" and "collecting sha E P acc t" and "tid sha t \<in> set (fst acc)"
  shows "emitted sha P (snd acc) t"
  using assms tid_inject unfolding collecting_def by blast

lemma collecting_after:
  assumes "collecting sha E P acc t" and "collected sha E P u acc acc'" and "set_tree t' \<subseteq> set_tree t"
  shows "collecting sha E P acc' t'"
  unfolding collecting_def
proof
  fix i assume "i \<in> set (fst acc')"
  then consider "i \<in> set (fst acc)" | "\<exists>u \<in> universe sha E. tid sha u = i \<and> emitted sha P (snd acc') u"
    using assms(2) unfolding collected_def by blast
  then show "\<exists>u \<in> universe sha E. tid sha u = i \<and> (emitted sha P (snd acc') u \<or> \<not> set_tree u \<subseteq> set_tree t')"
  proof cases
    case 1
    then obtain w where w: "w \<in> universe sha E" "tid sha w = i" "emitted sha P (snd acc) w \<or> \<not> set_tree w \<subseteq> set_tree t"
      using assms(1) unfolding collecting_def by blast
    moreover have "set (snd acc) \<subseteq> set (snd acc')" using assms(2) by (simp add: collected_def)
    ultimately show ?thesis using assms(3) emitted_mono by blast
  next
    case 2
    then show ?thesis by blast
  qed
qed

lemma collecting_enter:
  assumes "collecting sha E P acc (Node l x r)" and U: "Node l x r \<in> universe sha E" and "c = l \<or> c = r"
  shows "collecting sha E P (tid sha (Node l x r) # fst acc, snd acc) c"
proof -
  have "\<not> set_tree (Node l x r) \<subseteq> set_tree c" using root_not_in_child [OF U] assms(3) by auto
  moreover have "set_tree c \<subseteq> set_tree (Node l x r)" using assms(3) by auto
  ultimately have "\<exists>u \<in> universe sha E. tid sha u = i \<and> (emitted sha P (snd acc) u \<or> \<not> set_tree u \<subseteq> set_tree c)"
    if "i = tid sha (Node l x r) \<or> i \<in> set (fst acc)" for i
    using that assms(1) U unfolding collecting_def by (elim disjE) (blast, meson order_trans)
  then show ?thesis unfolding collecting_def fst_conv snd_conv set_simps by blast
qed

lemma pending_universe:
  assumes "collision_free sha E" and "ed_ok sha E e" and "t \<in> universe sha E"
    and "map_of (te_pending e) (tid sha t) = Some b"
  shows "t \<noteq> Leaf \<and> b = enc sha t \<and> map_of (te_cache e) (tid sha t) = Some (node_of sha t)"
proof -
  obtain u where "u \<in> universe sha E" "u \<noteq> Leaf" "tid sha u = tid sha t" "b = enc sha u"
    using assms(2,4) unfolding ed_ok_def by metis
  then have t: "t \<noteq> Leaf" "b = enc sha t" using tid_inject [OF assms(1)] assms(3) by metis+
  obtain n where n: "map_of (te_cache e) (tid sha t) = Some n" using assms(2,4) unfolding ed_ok_def by blast
  then obtain v where "v \<in> universe sha E" "tid sha v = tid sha t" "n = node_of sha v"
    using assms(2) unfolding ed_ok_def by metis
  then show ?thesis using t n tid_inject [OF assms(1)] assms(3) by metis
qed

lemma reach_unpending: "map_of P (tid sha t) = None \<Longrightarrow> reach sha P t = {}"
  by (cases t) auto

lemma card_visit:
  assumes "map_of P i = Some b" and "i \<notin> V"
  shows "card (dom (map_of P) - insert i V) < card (dom (map_of P) - V)"
  using assms by (intro psubset_card_mono) (auto simp: finite_dom_map_of)

lemma collect_walk_run:
  assumes cf: "collision_free sha E" and e: "ed_ok sha E e"
  shows "t \<in> universe sha E \<Longrightarrow> card (dom (map_of (te_pending e)) - set (fst acc)) < fuel \<Longrightarrow>
    collecting sha E (te_pending e) acc t \<Longrightarrow>
    \<exists>acc'. collect_walk fuel get (tid sha t) acc e = (Inr acc', e) \<and> collected sha E (te_pending e) t acc acc'"
proof (induction fuel arbitrary: t acc)
  case (Suc fuel)
  let ?P = "te_pending e"
  show ?case
  proof (cases "map_of ?P (tid sha t)")
    case None
    then show ?thesis by (simp add: collected_def emitted_def reach_unpending)
  next
    case (Some b)
    note at = pending_universe [OF cf e Suc.prems(1) Some]
    then obtain l x r where t: "t = Node l x r" by (cases t) auto
    show ?thesis
    proof (cases "tid sha t \<in> set (fst acc)")
      case True
      then show ?thesis
        using Some collecting_visited [OF cf Suc.prems(1,3)] by (simp add: collected_def)
    next
      case False
      let ?acc0 = "(tid sha t # fst acc, snd acc)"
      have U: "Node l x r \<in> universe sha E" using Suc.prems(1) t by simp
      have C: "l \<in> universe sha E" "r \<in> universe sha E" using universe_Node [OF U] by auto
      have fuel: "card (dom (map_of ?P) - set (fst ?acc0)) < fuel"
        using card_visit [OF Some False] Suc.prems(2) by simp
      have "collecting sha E ?P ?acc0 l" using collecting_enter [OF _ U] Suc.prems(3) t by blast
      then obtain acc1 where acc1: "collect_walk fuel get (tid sha l) ?acc0 e = (Inr acc1, e)" "collected sha E ?P l ?acc0 acc1"
        using Suc.IH [OF C(1) fuel] by blast
      have "collecting sha E ?P ?acc0 r" using collecting_enter [OF _ U] Suc.prems(3) t by blast
      then have cr: "collecting sha E ?P acc1 r" using collecting_after acc1(2) by blast
      have "dom (map_of ?P) - set (fst acc1) \<subseteq> dom (map_of ?P) - set (fst ?acc0)"
        using acc1(2) by (auto simp: collected_def)
      then have "card (dom (map_of ?P) - set (fst acc1)) < fuel"
        using fuel card_mono [OF finite_Diff [OF finite_dom_map_of]] by (meson le_less_trans)
      then obtain acc2 where acc2: "collect_walk fuel get (tid sha r) acc1 e = (Inr acc2, e)" "collected sha E ?P r acc1 acc2"
        using Suc.IH [OF C(2) _ cr] by blast
      let ?acc' = "(fst acc2, snd acc2 @ [b])"
      have run: "collect_walk (Suc fuel) get (tid sha t) acc e = (Inr ?acc', e)"
        using Some False acc1(1) acc2(1) at by (simp add: bindS_def tree_node_def t del: tid.simps)
      have os: "set (snd acc) \<subseteq> set (snd acc1)" "set (snd acc1) \<subseteq> set (snd acc2)"
        using acc1(2) acc2(2) by (auto simp: collected_def)
      have reach: "reach sha ?P t = insert t (reach sha ?P l \<union> reach sha ?P r)" using Some t by simp
      have em: "emitted sha ?P (snd ?acc') t"
        using acc1(2) acc2(2) at os unfolding collected_def emitted_def reach by auto
      have "set (snd ?acc') \<subseteq> set (snd acc) \<union> enc sha ` reach sha ?P t"
        using acc1(2) acc2(2) at unfolding collected_def reach image_insert image_Un by auto
      moreover have "i \<in> set (fst acc) \<or> (\<exists>u \<in> universe sha E. tid sha u = i \<and> emitted sha ?P (snd ?acc') u)"
        if "i \<in> set (fst ?acc')" for i
      proof -
        have up: "emitted sha ?P (snd ?acc') u" if "emitted sha ?P (snd acc1) u \<or> emitted sha ?P (snd acc2) u" for u
          using that os(2) by (auto simp: emitted_def)
        have "i \<in> set (fst acc1) \<or> (\<exists>u \<in> universe sha E. tid sha u = i \<and> emitted sha ?P (snd acc2) u)"
          using that acc2(2) unfolding collected_def by auto
        then have "i = tid sha t \<or> i \<in> set (fst acc) \<or> (\<exists>u \<in> universe sha E. tid sha u = i \<and> emitted sha ?P (snd ?acc') u)"
          using acc1(2) up unfolding collected_def by fastforce
        then show ?thesis using em Suc.prems(1) by blast
      qed
      ultimately have "collected sha E ?P t acc ?acc'"
        using em os acc1(2) acc2(2) unfolding collected_def by auto
      with run show ?thesis by blast
    qed
  qed
qed simp

lemma stored_published:
  assumes "stored sha get e t" and "emitted sha (te_pending e) os t"
    and "\<And>b. b \<in> set os \<Longrightarrow> get' (object_hash sha b) = Inr b"
    and "\<And>i b. get i = Inr b \<Longrightarrow> get' i = Inr b"
  shows "persisted sha get' t"
  using assms(1,2)
proof (induction t)
  case (Node l x r)
  show ?case
  proof (cases "persisted sha get (Node l x r)")
    case True
    then show ?thesis using assms(4) unfolding persisted_def by blast
  next
    case False
    then have P: "map_of (te_pending e) (tid sha (Node l x r)) \<noteq> None" "stored sha get e l" "stored sha get e r"
      using Node.prems(1) by auto
    then have "emitted sha (te_pending e) os l" "emitted sha (te_pending e) os r" "enc sha (Node l x r) \<in> set os"
      using Node.prems(2) unfolding emitted_def by auto
    then have "persisted sha get' l" "persisted sha get' r"
      and "get' (object_hash sha (enc sha (Node l x r))) = Inr (enc sha (Node l x r))"
      using Node.IH P(2,3) assms(3) by blast+
    then show ?thesis unfolding persisted_def by (auto simp: tid_enc)
  qed
qed (simp add: persisted_def)

text \<open>A complete edit.\<close>

lemma ed_ok_open [simp]: "ed_ok sha E (open_editor root)"
  by (simp add: ed_ok_def open_editor_def)

definition good_changes :: "(string, oid option) smap \<Rightarrow> bool" where
  "good_changes changes \<longleftrightarrow>
     (\<forall>(k, v) \<in> set changes. valid_key k \<and> v \<noteq> Some 0 \<and> (k \<noteq> namespace_root \<or> v \<noteq> None))"

lemma checks_pass: "good_changes changes \<Longrightarrow> foldR check_change changes () = Inr ()"
  by (induction changes) (auto simp: check_change_def good_changes_def)

definition rooted :: "(string, oid option) smap \<Rightarrow> mtree \<Rightarrow> bool" where
  "rooted changes t \<longleftrightarrow> map_of changes namespace_root \<noteq> None \<or> tree_lookup t namespace_root \<noteq> None"

lemma edits_rooted:
  assumes "collision_free sha E" and "t \<in> universe sha E" and "ed_ok sha E e" and "stored sha get e t"
    and "te_root e = tid sha t" and "height t \<le> 256" and "rooted changes t"
  shows "edits sha E e (if map_of changes namespace_root \<noteq> None then returnS True
     else bindS (lookup_key get namespace_root) (\<lambda>r. returnS (r \<noteq> None))) (\<lambda>v _. v)"
proof (cases "map_of changes namespace_root")
  case None
  then have there: "tree_lookup t namespace_root \<noteq> None" using assms(7) by (simp add: rooted_def)
  have "edits sha E e (lookup_key get namespace_root) (\<lambda>v _. v = tree_lookup t namespace_root)"
    using edits_lookup [OF assms(1-4), of 0 namespace_root] assms(5,6) by (simp add: edits_def lookup_key_def) metis
  then have "edits sha E e (bindS (lookup_key get namespace_root) (\<lambda>r. returnS (r \<noteq> None))) (\<lambda>v _. v)"
    by (rule edits_bind) (use there in \<open>auto intro: edits_return simp del: returnS_apply\<close>)
  then show ?thesis using None by (simp del: returnS_apply)
next
  case (Some v)
  then show ?thesis using assms(3) by (simp add: edits_return del: returnS_apply)
qed

definition planned ::
    "(bytes \<Rightarrow> oid) \<Rightarrow> (oid \<Rightarrow> bytes res) \<Rightarrow> mtree \<Rightarrow> plan \<Rightarrow> bool" where
  "planned sha get t p \<longleftrightarrow> p_manifest p = manifest_of (tid sha t) \<and>
     (\<forall>b \<in> set (p_objects p). \<exists>u \<in> subtrees t. b = enc sha u \<and> u \<noteq> Leaf) \<and>
     (\<forall>get'. (\<forall>b \<in> set (p_objects p). get' (object_hash sha b) = Inr b) \<longrightarrow>
        (\<forall>i b. get i = Inr b \<longrightarrow> get' i = Inr b) \<longrightarrow> persisted sha get' t)"

lemma reach_subtrees: "u \<in> reach sha P t \<Longrightarrow> u \<in> subtrees t \<and> u \<noteq> Leaf"
  by (induction t) (auto split: if_splits)

lemma collect_planned:
  assumes cf: "collision_free sha E" and e: "ed_ok sha E e" and t: "t \<in> universe sha E" and st: "stored sha get e t"
  shows "\<exists>acc. collect_walk (Suc (length (te_pending e))) get (tid sha t) ([], []) e = (Inr acc, e) \<and>
    planned sha get t \<lparr>p_manifest = manifest_of (tid sha t), p_objects = snd acc\<rparr>"
proof -
  have "card (dom (map_of (te_pending e)) - set (fst ([] :: oid list, [] :: bytes list))) < Suc (length (te_pending e))"
    using card_length [of "map fst (te_pending e)"] by (simp add: dom_map_of_conv_image_fst less_Suc_eq_le)
  moreover have "collecting sha E (te_pending e) ([], []) t" by (simp add: collecting_def)
  ultimately obtain acc where acc: "collect_walk (Suc (length (te_pending e))) get (tid sha t) ([], []) e = (Inr acc, e)"
      "collected sha E (te_pending e) t ([], []) acc"
    by (rule exE [OF collect_walk_run [OF cf e t, of "([], [])" _ get]]) blast+
  have "\<forall>b \<in> set (snd acc). \<exists>u \<in> subtrees t. b = enc sha u \<and> u \<noteq> Leaf"
  proof
    fix b assume "b \<in> set (snd acc)"
    then have "b \<in> enc sha ` reach sha (te_pending e) t" using acc(2) by (auto simp: collected_def)
    then show "\<exists>u \<in> subtrees t. b = enc sha u \<and> u \<noteq> Leaf" using reach_subtrees by blast
  qed
  moreover have "emitted sha (te_pending e) (snd acc) t" using acc(2) by (simp add: collected_def)
  ultimately have "planned sha get t \<lparr>p_manifest = manifest_of (tid sha t), p_objects = snd acc\<rparr>"
    unfolding planned_def plan.simps
    by (intro conjI allI impI refl) (assumption, rule stored_published [OF st], assumption, simp_all)
  with acc(1) show ?thesis by blast
qed

lemma inorder_edited:
  "t \<in> universe sha E \<Longrightarrow> inorder (edited sha changes t) = apply_changes changes (inorder t)"
  using pri.treap_fold [of sha t changes] by (simp add: universe_def)

lemma apply_runs:
  assumes cf: "collision_free sha E" and t: "t \<in> universe sha E" and e: "ed_ok sha E e" and st: "stored sha get e t"
    and root: "te_root e = tid sha t" and small: "height t \<le> 256"
    and ch: "good_changes changes" "rooted changes t" "settle_all sha E changes t"
  shows "\<exists>e1. ed_ok sha E e1 \<and> stored sha get e1 (edited sha changes t) \<and> edited sha changes t \<in> universe sha E \<and>
    te_root e1 = tid sha t \<and>
    tree_apply sha get changes e = bindS (if tid sha (edited sha changes t) \<noteq> tid sha t
       then tree_height get 0 (tid sha (edited sha changes t)) else returnS 0) (\<lambda>_.
     bindS getS (\<lambda>e1.
     bindS (collect_walk (Suc (length (te_pending e1))) get (tid sha (edited sha changes t)) ([], [])) (\<lambda>acc.
     bindS (modifyS (\<lambda>e. e\<lparr>te_root := tid sha (edited sha changes t)\<rparr>)) (\<lambda>_.
     returnS \<lparr>p_manifest = manifest_of (tid sha (edited sha changes t)), p_objects = snd acc\<rparr>)))) e1"
proof -
  have checks: "foldR check_change changes () = Inr ()" by (rule checks_pass [OF ch(1)])
  obtain e0 where e0: "(if map_of changes namespace_root \<noteq> None then returnS True
     else bindS (lookup_key get namespace_root) (\<lambda>r. returnS (r \<noteq> None))) e = (Inr True, e0)"
      "ed_ok sha E e0" "ext e e0"
    using edits_rooted [OF cf t e st root small ch(2)] unfolding edits_def by auto
  obtain e1 where e1: "foldS (\<lambda>(key, val) candidate. tree_set sha get candidate key val) changes (tid sha t) e0
        = (Inr (tid sha (edited sha changes t)), e1)" "ed_ok sha E e1" "ext e0 e1"
      "edited sha changes t \<in> universe sha E" "stored sha get e1 (edited sha changes t)"
    using edits_changes [OF cf ch(3) t e0(2) stored_ext [OF st e0(3)]] unfolding edits_def by blast
  have "te_root e0 = tid sha t" "te_root e1 = tid sha t" using e0(3) e1(3) root by (auto simp: ext_def)
  moreover have "tree_apply sha get changes e = bindS (if tid sha (edited sha changes t) \<noteq> te_root e0
       then tree_height get 0 (tid sha (edited sha changes t)) else returnS 0) (\<lambda>_.
     bindS getS (\<lambda>e1.
     bindS (collect_walk (Suc (length (te_pending e1))) get (tid sha (edited sha changes t)) ([], [])) (\<lambda>acc.
     bindS (modifyS (\<lambda>e. e\<lparr>te_root := tid sha (edited sha changes t)\<rparr>)) (\<lambda>_.
     returnS \<lparr>p_manifest = manifest_of (tid sha (edited sha changes t)), p_objects = snd acc\<rparr>)))) e1"
    by (simp only: tree_apply_def checks bindS_def prod.case sum.case liftS_apply e0(1) if_True getS_apply calculation(1) e1(1)
      not_False_eq_True)
  ultimately show ?thesis using e1 by auto
qed

lemma apply_planned:
  assumes cf: "collision_free sha E" and t: "t \<in> universe sha E" and e: "ed_ok sha E e" and st: "stored sha get e t"
    and root: "te_root e = tid sha t" and small: "height t \<le> 256" "height (edited sha changes t) \<le> 256"
    and ch: "good_changes changes" "rooted changes t" "settle_all sha E changes t"
  shows "\<exists>p e'. tree_apply sha get changes e = (Inr p, e') \<and> ed_ok sha E e' \<and>
    te_root e' = tid sha (edited sha changes t) \<and> stored sha get e' (edited sha changes t) \<and>
    planned sha get (edited sha changes t) p"
proof -
  let ?u = "edited sha changes t"
  obtain e1 where e1: "ed_ok sha E e1" "stored sha get e1 ?u" "?u \<in> universe sha E" "te_root e1 = tid sha t"
    and run: "tree_apply sha get changes e = bindS (if tid sha ?u \<noteq> tid sha t
       then tree_height get 0 (tid sha ?u) else returnS 0) (\<lambda>_.
     bindS getS (\<lambda>e1.
     bindS (collect_walk (Suc (length (te_pending e1))) get (tid sha ?u) ([], [])) (\<lambda>acc.
     bindS (modifyS (\<lambda>e. e\<lparr>te_root := tid sha ?u\<rparr>)) (\<lambda>_.
     returnS \<lparr>p_manifest = manifest_of (tid sha ?u), p_objects = snd acc\<rparr>)))) e1"
    using apply_runs [OF cf t e st root small(1) ch] by blast
  have "edits sha E e1 (if tid sha ?u \<noteq> tid sha t then tree_height get 0 (tid sha ?u) else returnS 0) (\<lambda>_ _. True)"
  proof (cases "tid sha ?u = tid sha t")
    case False
    have "edits sha E e1 (tree_height get 0 (tid sha ?u)) (\<lambda>_ _. True)"
      by (rule edits_mono [OF edits_height [OF cf e1(3,1,2)]]) (use small(2) in auto)
    then show ?thesis using False by simp
  qed (use e1(1) in \<open>simp add: edits_return del: returnS_apply\<close>)
  then obtain h e2 where e2: "(if tid sha ?u \<noteq> tid sha t then tree_height get 0 (tid sha ?u) else returnS 0) e1 = (Inr h, e2)"
      "ed_ok sha E e2" "ext e1 e2" unfolding edits_def by blast
  note st2 = stored_ext [OF e1(2) e2(3)]
  obtain acc where acc: "collect_walk (Suc (length (te_pending e2))) get (tid sha ?u) ([], []) e2 = (Inr acc, e2)"
      "planned sha get ?u \<lparr>p_manifest = manifest_of (tid sha ?u), p_objects = snd acc\<rparr>"
    using collect_planned [OF cf e2(2) e1(3) st2] by blast
  let ?e' = "e2\<lparr>te_root := tid sha ?u\<rparr>"
  have "tree_apply sha get changes e = (Inr \<lparr>p_manifest = manifest_of (tid sha ?u), p_objects = snd acc\<rparr>, ?e')"
    by (simp only: run bindS_def prod.case sum.case e2(1) getS_apply acc(1) modifyS_apply returnS_apply)
  moreover have "stored sha get ?e' v" if "stored sha get e2 v" for v using that by (induction v) auto
  moreover have "ed_ok sha E ?e'" using e2(2) by (simp add: ed_ok_def)
  ultimately show ?thesis using acc(2) st2 by auto
qed

lemma apply_too_deep:
  assumes cf: "collision_free sha E" and t: "t \<in> universe sha E" and e: "ed_ok sha E e" and st: "stored sha get e t"
    and root: "te_root e = tid sha t" and small: "height t \<le> 256" and deep: "256 < height (edited sha changes t)"
    and ch: "good_changes changes" "rooted changes t" "settle_all sha E changes t"
  shows "fst (tree_apply sha get changes e) = Inl (Runtime_error ''metadata tree depth limit'')"
proof -
  let ?u = "edited sha changes t"
  obtain e1 where e1: "ed_ok sha E e1" "stored sha get e1 ?u" "?u \<in> universe sha E"
    and run: "tree_apply sha get changes e = bindS (if tid sha ?u \<noteq> tid sha t
       then tree_height get 0 (tid sha ?u) else returnS 0) (\<lambda>_.
     bindS getS (\<lambda>e1.
     bindS (collect_walk (Suc (length (te_pending e1))) get (tid sha ?u) ([], [])) (\<lambda>acc.
     bindS (modifyS (\<lambda>e. e\<lparr>te_root := tid sha ?u\<rparr>)) (\<lambda>_.
     returnS \<lparr>p_manifest = manifest_of (tid sha ?u), p_objects = snd acc\<rparr>)))) e1"
    using apply_runs [OF cf t e st root small ch] by blast
  have "tid sha ?u \<noteq> tid sha t" using small deep tid_inject [OF cf e1(3) t] by auto
  moreover have "?u \<noteq> Leaf" using deep by auto
  ultimately have "fst ((if tid sha ?u \<noteq> tid sha t then tree_height get 0 (tid sha ?u) else returnS 0) e1)
      = Inl (Runtime_error ''metadata tree depth limit'')"
    using tree_height_limit [OF cf e1(3,1,2)] deep by simp
  then show ?thesis unfolding run by (rule bindS_fst_exn)
qed

end
