(* ===== verification/Metadata_Tree_Props.thy ===== *)
theory Metadata_Tree_Props
  imports Metadata_Tree_Laws
begin

text \<open>
  The properties of the metadata tree over the store it reads: the plan of an edit publishes the
  edited map, reads return what the map holds, the manifest depends on the contents only, and
  node bytes are a canonical encoding. The hash need only separate the finitely many trees that
  an edit reads and makes (\<open>touched\<close>).
\<close>

section \<open>Definitions\<close>

fun touched :: "(bytes \<Rightarrow> oid) \<Rightarrow> (string, oid option) smap \<Rightarrow> mtree \<Rightarrow> mtree set" where
  "touched sha [] t = subtrees t"
| "touched sha ((k, v) # changes) t = subtrees t \<union> \<Union> (subtrees ` set (set_results sha k v t)) \<union>
     touched sha changes (treap_set (key_higher sha) k v t)"

definition valid_tree :: "(bytes \<Rightarrow> oid) \<Rightarrow> mtree \<Rightarrow> bool" where
  "valid_tree sha t \<longleftrightarrow> treap (key_higher sha) t \<and> (\<forall>x \<in> set_tree t. valid_key (fst x) \<and> snd x \<noteq> 0) \<and> height t \<le> 256"

text \<open>A store that holds the objects of a plan besides what \<open>get\<close> returns.\<close>

definition publishes :: "(bytes \<Rightarrow> oid) \<Rightarrow> (oid \<Rightarrow> bytes res) \<Rightarrow> bytes list \<Rightarrow> (oid \<Rightarrow> bytes res) \<Rightarrow> bool" where
  "publishes sha get objects get' \<longleftrightarrow> (\<forall>b \<in> set objects. get' (object_hash sha b) = Inr b) \<and>
     (\<forall>i b. get i = Inr b \<longrightarrow> get' i = Inr b)"

text \<open>A concrete instance: the hash is the value field of a node.\<close>

definition field_sha :: "bytes \<Rightarrow> oid" where
  "field_sha b = oid_at b 40"

abbreviation root_tree :: "oid \<Rightarrow> mtree" where
  "root_tree v \<equiv> Node Leaf (namespace_root, v) Leaf"

definition root_store :: "oid \<Rightarrow> bytes res" where
  "root_store i = (if i = 1 then Inr (enc field_sha (root_tree 1)) else Inl (Runtime_error ''missing object''))"

section \<open>The trees of an edit\<close>

lemma universe_mono: "E \<subseteq> F \<Longrightarrow> universe sha E \<subseteq> universe sha F"
  by (auto simp: universe_def)

lemma settle_all_mono: "settle_all sha E changes t \<Longrightarrow> E \<subseteq> F \<Longrightarrow> settle_all sha F changes t"
proof (induction changes arbitrary: t)
  case (Cons c changes)
  then show ?case using universe_mono [of E F sha] by (cases c) (auto simp: settles_def)
qed simp

lemma set_results_treap:
  "treap (key_higher sha) t \<Longrightarrow> u \<in> set (set_results sha k v t) \<Longrightarrow> treap (key_higher sha) u"
proof (induction t)
  case Leaf
  then show ?case using pri.treap_set_treap by (simp del: treap_set.simps)
next
  case (Node l x r)
  have "treap (key_higher sha) l" "treap (key_higher sha) r"
    using Node.prems(1) by (auto simp: treap_def smap_ok_Node)
  then show ?case
    using Node pri.treap_set_treap [OF Node.prems(1)] by (simp split: if_splits del: treap_set.simps) metis+
qed

lemma set_results_entries:
  "treap (key_higher sha) t \<Longrightarrow> u \<in> set (set_results sha k v t) \<Longrightarrow> x \<in> set_tree u \<Longrightarrow>
    x \<in> set_tree t \<or> (\<exists>w. v = Some w \<and> x = (k, w))"
proof (induction t)
  case Leaf
  then show ?case by (auto split: option.splits)
next
  case (Node l y r)
  have C: "treap (key_higher sha) l" "treap (key_higher sha) r"
    using Node.prems(1) by (auto simp: treap_def smap_ok_Node)
  consider "u = treap_set (key_higher sha) k v (Node l y r)" | "u \<in> set (set_results sha k v l)" | "u \<in> set (set_results sha k v r)"
    using Node.prems(2) by (auto split: if_splits simp del: treap_set.simps)
  then show ?case
  proof cases
    case 1
    then show ?thesis using Node.prems(1,3) pri.set_tree_set [of "Node l y r" sha k v] by (auto simp: treap_def simp del: treap_set.simps)
  qed (use Node.IH C Node.prems(3) in auto)
qed

lemma touched_settles:
  "treap (key_higher sha) t \<Longrightarrow> settle_all sha (touched sha changes t) changes t"
proof (induction changes arbitrary: t)
  case (Cons c changes)
  obtain k v where c: "c = (k, v)" by (cases c)
  note T = pri.treap_set_treap [OF Cons.prems, of k v]
  have "settle_all sha (touched sha changes (treap_set (key_higher sha) k v t)) changes (treap_set (key_higher sha) k v t)"
    by (rule Cons.IH [OF T])
  then have "settle_all sha (touched sha (c # changes) t) changes (treap_set (key_higher sha) k v t)"
    by (rule settle_all_mono) (auto simp: c)
  moreover have "settles sha (touched sha (c # changes) t) k v t"
    using set_results_treap [OF Cons.prems] by (auto simp: settles_def universe_def c)
  ultimately show ?case by (simp add: c)
qed simp

lemma touched_subtrees: "subtrees t \<subseteq> touched sha changes t"
  by (cases "(sha, changes, t)" rule: touched.cases) auto

lemma touched_edited: "subtrees (edited sha changes t) \<subseteq> touched sha changes t"
proof (induction changes arbitrary: t)
  case (Cons c changes)
  then show ?case using Cons.IH [of "treap_set (key_higher sha) (fst c) (snd c) t"] by (cases c) fastforce
qed simp

lemma Leaf_subtree: "Leaf \<in> subtrees t"
  by (induction t) auto

lemma touched_entries:
  "treap (key_higher sha) t \<Longrightarrow> (\<forall>x \<in> set_tree t. valid_key (fst x) \<and> snd x \<noteq> 0) \<Longrightarrow> good_changes changes \<Longrightarrow>
    u \<in> touched sha changes t \<Longrightarrow> x \<in> set_tree u \<Longrightarrow> valid_key (fst x) \<and> snd x \<noteq> 0"
proof (induction changes arbitrary: t)
  case Nil
  then show ?case using set_tree_subtree by fastforce
next
  case (Cons c changes)
  obtain k v where c: "c = (k, v)" by (cases c)
  note T = pri.treap_set_treap [OF Cons.prems(1), of k v]
  have new: "valid_key k \<and> v \<noteq> Some 0" using Cons.prems(3) c by (auto simp: good_changes_def)
  have here: "valid_key (fst y) \<and> snd y \<noteq> 0" if "w \<in> set (set_results sha k v t)" "y \<in> set_tree w" for w y
    using set_results_entries [OF Cons.prems(1) that] Cons.prems(2) new by auto
  have "treap_set (key_higher sha) k v t \<in> set (set_results sha k v t)" by (cases t) simp_all
  then have "\<forall>x \<in> set_tree (treap_set (key_higher sha) k v t). valid_key (fst x) \<and> snd x \<noteq> 0" using here by blast
  note rest = Cons.IH [OF T this]
  have good: "good_changes changes" using Cons.prems(3) by (simp add: good_changes_def)
  consider "u \<in> subtrees t" | w where "w \<in> set (set_results sha k v t)" "u \<in> subtrees w"
    | "u \<in> touched sha changes (treap_set (key_higher sha) k v t)"
    using Cons.prems(4) c by auto
  then show ?case
  proof cases
    case 1
    then show ?thesis using Cons.prems(2,5) set_tree_subtree by blast
  next
    case 2
    then show ?thesis using here Cons.prems(5) set_tree_subtree by blast
  next
    case 3
    then show ?thesis using rest good Cons.prems(5) by blast
  qed
qed

lemma touched_collision_free:
  assumes "valid_tree sha t" and "good_changes changes" and "inj_on (tid sha) (touched sha changes t)"
  shows "collision_free sha (touched sha changes t)"
proof -
  have "Leaf \<in> touched sha changes t" using Leaf_subtree touched_subtrees by blast
  then show ?thesis
    using assms touched_entries unfolding collision_free_def valid_tree_def insert_absorb [OF \<open>Leaf \<in> touched sha changes t\<close>]
    by blast
qed

lemma touched_universe:
  assumes "treap (key_higher sha) t"
  shows "t \<in> universe sha (touched sha changes t)"
  using assms touched_subtrees by (auto simp: universe_def)

lemma subtrees_collision_free:
  assumes "valid_tree sha t" and "inj_on (tid sha) (subtrees t)"
  shows "collision_free sha (subtrees t)" and "t \<in> universe sha (subtrees t)"
  using touched_collision_free [of sha t "[]"] touched_universe [of sha t "[]"] assms
  by (auto simp: good_changes_def valid_tree_def)

lemma persisted_entries:
  assumes "collision_free sha E" and "t \<in> universe sha E" and "persisted sha get t" and "height t \<le> 256"
  shows "fst (tree_entries sha get (open_editor (tid sha t))) = Inr (inorder t)"
proof -
  let ?e = "open_editor (tid sha t)"
  have "smap_ok (snd ([] :: oid list, []) @ inorder t)" using assms(2) by (simp add: universe_def treap_def)
  then have "edits sha E ?e (entries_walk sha get None None 0 (tid sha t) ([], [])) (\<lambda>acc' e'.
      snd acc' = snd ([] :: oid list, []) @ inorder t \<and>
      set (fst acc') \<subseteq> set (fst ([] :: oid list, [] :: (string, oid) smap)) \<union> tid sha ` (subtrees t - {Leaf}))"
    using assms by (intro edits_entries) (simp_all add: persisted_stored bounded_by_def)
  then show ?thesis by (auto simp: edits_def tree_entries_def bindS_def open_editor_def)
qed

section \<open>Decoding\<close>

lemma oid_at_bytes:
  assumes "at + 32 \<le> length b"
  shows "oid_bytes (oid_at b at) = slice at 32 b"
  using assms by (simp add: oid_at_def oid_bytes_inverse)

lemma parse_canonical:
  assumes "node_parse b = Inr n"
  shows "node_bytes n = b"
proof -
  have b: "108 \<le> length b" "slice 0 8 b = ''FFTRNO01''" "length b = 108 + load_at b 8 4" "n = \<lparr>n_key = drop 108 b,
      n_value = oid_at b 12, n_left = oid_at b 44, n_right = oid_at b 76\<rparr>"
    using assms by (auto simp: node_parse_def Let_def split: if_splits)
  have "le_store 4 (load_at b 8 4) = slice 8 4 b" using b(1) le_store_load [of "slice 8 4 b"] by (simp add: load_at_def)
  moreover have "length (drop 108 b) = load_at b 8 4" using b(3) by simp
  moreover have "slice 0 8 b @ slice 8 4 b @ slice 12 32 b @ slice 44 32 b @ slice 76 32 b @ drop 108 b = b"
    using take_slice_append [of 0 8 b] take_slice_append [of 8 4 b] take_slice_append [of 12 32 b]
      take_slice_append [of 44 32 b] take_slice_append [of 76 32 b] b(1) by simp
  ultimately show ?thesis using b(1,2) by (simp add: b(4) node_bytes_def oid_at_bytes)
qed

section \<open>Publishing an edit\<close>

lemma apply_published:
  assumes "valid_tree sha t" and "persisted sha get t" and "good_changes changes" and "rooted changes t"
    and "height (edited sha changes t) \<le> 256" and "inj_on (tid sha) (touched sha changes t)"
  shows "\<exists>p e'. tree_apply sha get changes (open_editor (tid sha t)) = (Inr p, e') \<and>
    p_manifest p = manifest_of (te_root e') \<and>
    (\<forall>get'. publishes sha get (p_objects p) get' \<longrightarrow>
      fst (tree_entries sha get' (open_editor (te_root e'))) = Inr (apply_changes changes (inorder t)))"
proof -
  let ?E = "touched sha changes t"
  have cf: "collision_free sha ?E" by (rule touched_collision_free [OF assms(1,3,6)])
  have T: "treap (key_higher sha) t" and h: "height t \<le> 256" using assms(1) by (auto simp: valid_tree_def)
  have root: "te_root (open_editor (tid sha t)) = tid sha t" by (simp add: open_editor_def)
  obtain p e' where run: "tree_apply sha get changes (open_editor (tid sha t)) = (Inr p, e')"
      "te_root e' = tid sha (edited sha changes t)" "planned sha get (edited sha changes t) p"
    using apply_planned [OF cf touched_universe [OF T] ed_ok_open persisted_stored [OF assms(2)] root h assms(5,3,4)
        touched_settles [OF T]] by blast
  have u: "edited sha changes t \<in> universe sha ?E"
    using touched_edited pri.treap_fold [OF T] by (auto simp: universe_def)
  have "fst (tree_entries sha get' (open_editor (te_root e'))) = Inr (apply_changes changes (inorder t))"
    if "publishes sha get (p_objects p) get'" for get'
  proof -
    have "persisted sha get' (edited sha changes t)" using run(3) that by (simp add: planned_def publishes_def)
    from persisted_entries [OF cf u this assms(5)] show ?thesis
      using inorder_edited [OF touched_universe [OF T]] run(2) by simp
  qed
  then show ?thesis using run by (auto simp: planned_def)
qed

section \<open>The concrete instance\<close>

lemma field_sha_root [simp]: "tid field_sha (root_tree v) = v"
proof -
  have "oid_at (object_frame (''FFTRNO01'' @ le_store 4 12 @ oid_bytes v @ w)) 40 = v" for w
    by (simp add: oid_at_def object_frame_def slices)
  moreover have "length namespace_root = 12" by simp
  ultimately show ?thesis by (simp only: tid.simps fst_conv snd_conv object_hash_def field_sha_def node_bytes_def tnode.simps)
qed

lemma root_tree_valid: "v \<noteq> 0 \<Longrightarrow> valid_tree field_sha (root_tree v)"
  by (simp add: valid_tree_def valid_key_def treap_def)

lemma root_store_persisted: "persisted field_sha root_store (root_tree 1)"
  unfolding persisted_def using field_sha_root [of 1] by (auto simp: root_store_def simp del: tid.simps(2))

lemma root_trees_inj: "a \<noteq> 0 \<Longrightarrow> b \<noteq> 0 \<Longrightarrow> inj_on (tid field_sha) {Leaf, root_tree a, root_tree b}"
  using field_sha_root by (auto simp: inj_on_def simp del: tid.simps(2))

section \<open>Properties\<close>



text \<open>C22. Reads of a valid tree that the store holds: a key lookup returns the entry of the map
  or nothing, the key scan returns exactly the keys with the prefix in order, and a page returns
  the first \<open>limit\<close> of those after the cursor.\<close>

theorem tree_reads:
  assumes "valid_tree sha t" and "persisted sha get t" and "inj_on (tid sha) (subtrees t)"
    and "0 < limit" and "limit \<le> 1025" and "after = [] \<or> prefix p after"
  shows "fst (lookup_key get k (open_editor (tid sha t))) = Inr (map_of (inorder t) k) \<and>
    fst (tree_keys get p (open_editor (tid sha t))) = Inr (filter (prefix p) (map fst (inorder t))) \<and>
    fst (tree_page get p after limit (open_editor (tid sha t))) =
      Inr (take limit (filter (\<lambda>k. prefix p k \<and> (after = [] \<or> after < k)) (map fst (inorder t))))"
proof -
  note cf = subtrees_collision_free [OF assms(1,3)]
  have h: "0 + height t \<le> 256" and ok: "smap_ok (inorder t)" using assms(1) by (auto simp: valid_tree_def treap_def)
  note st = cf(1) cf(2) ed_ok_open persisted_stored [OF assms(2)] h
  have root: "te_root (open_editor (tid sha t)) = tid sha t" by (simp add: open_editor_def)
  have "fst (lookup_key get k (open_editor (tid sha t))) = Inr (map_of (inorder t) k)"
    using edits_lookup [OF st, of "tid sha t" k] tree_lookup_inorder [OF ok, of k]
    by (auto simp: edits_def lookup_key_def root)
  moreover have "fst (tree_keys get p (open_editor (tid sha t))) = Inr (filter (prefix p) (map fst (inorder t)))"
    using edits_keys [OF st, of "tid sha t" p "[]"] by (auto simp: edits_def tree_keys_def root)
  moreover have "fst (tree_page get p after limit (open_editor (tid sha t))) =
      Inr (take limit (filter (in_page p after) (map fst (inorder t))))"
    using edits_page [OF st, of "[]" limit "tid sha t" p after] assms(4-6)
    by (auto simp: edits_def tree_page_def root)
  moreover have "in_page p after = (\<lambda>k. prefix p k \<and> (after = [] \<or> after < k))" by (simp add: in_page_def fun_eq_iff)
  ultimately show ?thesis by simp
qed

theorem tree_reads_witness:
  "fst (lookup_key root_store namespace_root (open_editor (tid field_sha (root_tree 1)))) = Inr (Some 1) \<and>
    fst (tree_keys root_store forkfs_prefix (open_editor (tid field_sha (root_tree 1)))) = Inr [namespace_root] \<and>
    fst (tree_page root_store forkfs_prefix [] 1 (open_editor (tid field_sha (root_tree 1)))) = Inr [namespace_root]"
  using tree_reads [OF root_tree_valid root_store_persisted, of 1 "[]" forkfs_prefix namespace_root] root_trees_inj [of 1 1]
  by (simp add: insert_commute del: tid.simps(2))

text \<open>C21. The manifest is canonical: two edits that end with the same entries, from whatever
  trees and by whatever changes, plan the same manifest.\<close>

theorem manifest_canonical:
  assumes "valid_tree sha t" and "persisted sha get t" and "good_changes c" and "rooted c t"
    and "height (edited sha c t) \<le> 256" and "inj_on (tid sha) (touched sha c t)"
    and "valid_tree sha u" and "persisted sha get' u" and "good_changes d" and "rooted d u"
    and "inj_on (tid sha) (touched sha d u)" and "apply_changes c (inorder t) = apply_changes d (inorder u)"
  shows "\<exists>p q e e'. tree_apply sha get c (open_editor (tid sha t)) = (Inr p, e) \<and>
    tree_apply sha get' d (open_editor (tid sha u)) = (Inr q, e') \<and> p_manifest p = p_manifest q"
proof -
  have T: "treap (key_higher sha) t" "treap (key_higher sha) u" and h: "height t \<le> 256" "height u \<le> 256"
    using assms(1,7) by (auto simp: valid_tree_def)
  have eq: "edited sha c t = edited sha d u"
    using pri.treap_unique pri.treap_fold [OF T(1), of c] pri.treap_fold [OF T(2), of d] assms(12) by metis
  have root: "te_root (open_editor (tid sha v)) = tid sha v" for v by (simp add: open_editor_def)
  note cf = touched_collision_free [OF assms(1,3,6)] touched_collision_free [OF assms(7,9,11)]
  obtain p e where "tree_apply sha get c (open_editor (tid sha t)) = (Inr p, e)" "planned sha get (edited sha c t) p"
    using apply_planned [OF cf(1) touched_universe [OF T(1)] ed_ok_open persisted_stored [OF assms(2)] root h(1) assms(5,3,4)
        touched_settles [OF T(1)]] by blast
  moreover have "height (edited sha d u) \<le> 256" using assms(5) eq by simp
  from apply_planned [OF cf(2) touched_universe [OF T(2)] ed_ok_open persisted_stored [OF assms(8)] root h(2) this assms(9,10)
        touched_settles [OF T(2)]]
  obtain q e' where "tree_apply sha get' d (open_editor (tid sha u)) = (Inr q, e')" "planned sha get' (edited sha d u) q"
    by blast
  ultimately show ?thesis using eq by (auto simp: planned_def)
qed

theorem manifest_canonical_witness:
  "\<exists>p q e e'. tree_apply field_sha root_store [(namespace_root, Some 2)] (open_editor (tid field_sha (root_tree 1))) = (Inr p, e) \<and>
    tree_apply field_sha root_store [(namespace_root, Some 2)] (open_editor (tid field_sha Leaf)) = (Inr q, e') \<and>
    p_manifest p = p_manifest q"
  using manifest_canonical [OF root_tree_valid root_store_persisted, of "[(namespace_root, Some 2)]" Leaf root_store
      "[(namespace_root, Some 2)]"] root_trees_inj [of 1 2] root_trees_inj [of 2 2]
  by (simp add: good_changes_def valid_key_def rooted_def insert_commute valid_tree_def treap_def persisted_def put_or_erase_def del: tid.simps)

text \<open>C23. Node bytes are a canonical encoding: a valid node survives encoding and decoding, and
  a byte string that decodes is the encoding of what it decodes to.\<close>

theorem node_codec:
  "(valid_key (n_key n) \<and> n_value n \<noteq> 0 \<longrightarrow> node_parse (node_bytes n) = Inr n) \<and>
    (node_parse b = Inr m \<longrightarrow> node_bytes m = b)"
  using node_parse_bytes parse_canonical by blast

theorem node_codec_witness:
  "\<exists>b. node_parse b = Inr \<lparr>n_key = namespace_root, n_value = 1, n_left = 0, n_right = 0\<rparr> \<and>
    node_bytes \<lparr>n_key = namespace_root, n_value = 1, n_left = 0, n_right = 0\<rparr> = b"
  using node_codec [of "\<lparr>n_key = namespace_root, n_value = 1, n_left = 0, n_right = 0\<rparr>"
      "node_bytes \<lparr>n_key = namespace_root, n_value = 1, n_left = 0, n_right = 0\<rparr>"
      "\<lparr>n_key = namespace_root, n_value = 1, n_left = 0, n_right = 0\<rparr>"]
  by (simp add: valid_key_def)

end
