(* ===== verification/Namespace_View_Laws.thy ===== *)
theory Namespace_View_Laws
  imports Namespace_View Metadata_Tree_Props
begin

text \<open>
  Sorted runs decode to what was encoded, a stack of runs reads like the map obtained by applying
  them from the oldest to the newest, and every plan publishes the edited map.
\<close>

section \<open>The run codec\<close>

definition run_entry_ok :: "string \<times> oid option \<Rightarrow> bool" where
  "run_entry_ok x \<longleftrightarrow> 8 \<le> length (fst x) \<and> length (fst x) \<le> 1024 \<and> prefix forkfs_prefix (fst x) \<and> snd x \<noteq> Some 0"

lemma encode_entry_bytes: "encode_entry (k, i) = le_store 4 (if i = None then 2 else 1) @ le_store 4 (length k) @ k @
    oid_bytes (case i of Some x \<Rightarrow> x | None \<Rightarrow> 0)"
proof -
  have "replicate 32 (CHR 0x00) = oid_bytes 0"
    by (rule oid_bytes_inverse [symmetric, THEN trans]) (simp_all add: oid_of_bytes_def)
  then show ?thesis by (simp add: encode_entry_def split: option.split)
qed

lemma length_encode_entry [simp]: "length (encode_entry x) = 40 + length (fst x)"
  by (cases x) (simp add: encode_entry_bytes)

lemma slice_at: "length a = at \<Longrightarrow> slice at n (a @ b) = take n b"
  by (simp add: slice_def)

lemma decode_entries_step:
  assumes "run_entry_ok x" and at: "length pre = at" and "i = 0 \<or> previous < fst x"
  shows "decode_entries (Suc todo) False (pre @ encode_entry x @ rest) i at previous result =
    decode_entries todo False (pre @ encode_entry x @ rest) (i + 1) (at + 40 + length (fst x)) (fst x) (emplace (fst x) (snd x) result)"
proof -
  obtain k j where x: "x = (k, j)" by (cases x)
  let ?op = "if j = None then 2 else 1 :: nat" and ?id = "case j of Some y \<Rightarrow> y | None \<Rightarrow> 0"
  let ?b = "pre @ encode_entry x @ rest"
  have len: "8 \<le> length k" "length k \<le> 1024" "prefix forkfs_prefix k" "j \<noteq> Some 0" using assms(1) by (auto simp: run_entry_ok_def x)
  have b: "?b = pre @ le_store 4 ?op @ le_store 4 (length k) @ k @ oid_bytes ?id @ rest"
    by (simp add: x encode_entry_bytes)
  have op: "meta_u32 ?b at = Inr ?op"
    unfolding b using at by (simp add: meta_u32_def load_at_def slice_at)
  have n: "meta_u32 ?b (at + 4) = Inr (length k)"
    unfolding b using at len by (simp add: meta_u32_def load_at_def slice_def)
  have key: "slice (at + 8) (length k) ?b = k"
    unfolding b using at by (simp add: slice_def)
  have oid: "oid_at ?b (at + 8 + length k) = ?id"
    unfolding b using at by (simp add: oid_at_def slice_def)
  have room: "length k + 32 \<le> length ?b - (at + 8)" unfolding b using at by simp
  have tgt: "j = None \<longleftrightarrow> ?id = 0" using len(4) by (cases j) auto
  show ?thesis
    using op n key oid room len assms(3) tgt
    by (cases j) (simp_all add: x Let_def add.assoc)
qed

lemma decode_entries_encoded:
  "list_all run_entry_ok cs \<Longrightarrow> smap_ok (acc @ cs) \<Longrightarrow> length pre = at \<Longrightarrow>
    (i = 0 \<or> (\<forall>x \<in> set cs. previous < fst x)) \<Longrightarrow>
    decode_entries (length cs) False (pre @ concat (map encode_entry cs) @ post) i at previous acc =
      Inr (at + length (concat (map encode_entry cs)), acc @ cs)"
proof (induction cs arbitrary: pre at i previous acc)
  case (Cons x cs)
  have em: "emplace (fst x) (snd x) acc = acc @ [x]"
    using Cons.prems(2) by (subst emplace_last) (auto simp: smap_ok_append)
  have "decode_entries (length cs) False ((pre @ encode_entry x) @ concat (map encode_entry cs) @ post) (i + 1)
      (at + 40 + length (fst x)) (fst x) (acc @ [x]) =
      Inr (at + 40 + length (fst x) + length (concat (map encode_entry cs)), (acc @ [x]) @ cs)"
    using Cons.prems by (intro Cons.IH) (auto simp: smap_ok_append)
  moreover have "decode_entries (Suc (length cs)) False (pre @ encode_entry x @ (concat (map encode_entry cs) @ post)) i at previous acc =
      decode_entries (length cs) False (pre @ encode_entry x @ (concat (map encode_entry cs) @ post)) (i + 1)
        (at + 40 + length (fst x)) (fst x) (emplace (fst x) (snd x) acc)"
    using Cons.prems by (intro decode_entries_step) auto
  ultimately show ?case by (simp add: em del: decode_entries.simps)
qed simp

definition delta_ok :: "delta \<Rightarrow> bool" where
  "delta_ok c \<longleftrightarrow> smap_ok c \<and> list_all run_entry_ok c"

lemma encode_run_bytes:
  assumes "encode_run c = Inr b"
  shows "c \<noteq> [] \<and> b = ''FFRUN001'' @ le_store 4 (length c) @ concat (map encode_entry c) \<and> length b \<le> 256 * 1024"
proof -
  have fold: "n' = n + (\<Sum>x \<leftarrow> cs. 40 + length (fst x))" if "foldR run_key_check cs n = Inr n'" for cs n n'
    using that
  proof (induction cs arbitrary: n)
    case (Cons x cs)
    then have "foldR run_key_check cs (n + 40 + length (fst x)) = Inr n'"
      by (cases x) (simp add: run_key_check_def split: if_splits)
    from Cons.IH [OF this] show ?case by simp
  qed simp
  have len: "length (concat (map encode_entry cs)) = (\<Sum>x \<leftarrow> cs. 40 + length (fst x))" for cs
    by (induction cs) simp_all
  obtain n where n: "foldR run_key_check c 12 = Inr n" "n \<le> 256 * 1024" "c \<noteq> []"
      "b = ''FFRUN001'' @ le_store 4 (length c) @ concat (map encode_entry c)"
    using assms by (auto simp: encode_run_def split: if_splits)
  have "n = 12 + (\<Sum>x \<leftarrow> c. 40 + length (fst x))" using fold [OF n(1)] .
  moreover have "length b = 12 + length (concat (map encode_entry c))" by (simp add: n(4))
  ultimately show ?thesis using n len [of c] by linarith
qed

lemma encoded_count: "list_all run_entry_ok c \<Longrightarrow> 48 * length c \<le> length (concat (map encode_entry c))"
  by (induction c) (auto simp: run_entry_ok_def)

lemma decode_encode_run:
  assumes "delta_ok c" and "encode_run c = Inr b"
  shows "decode_run b = Inr c"
proof -
  let ?body = "concat (map encode_entry c)"
  have b: "b = ''FFRUN001'' @ le_store 4 (length c) @ ?body" "c \<noteq> []" "length b \<le> 256 * 1024"
    using encode_run_bytes [OF assms(2)] by auto
  have ok: "smap_ok c" "list_all run_entry_ok c" using assms(1) by (auto simp: delta_ok_def)
  have count: "length c \<le> (length b - 12) div 48" using encoded_count [OF ok(2)] by (simp add: b(1) less_eq_div_iff_mult_less_eq mult.commute)
  then have "length c \<le> length b" by (meson div_le_dividend diff_le_self le_trans)
  then have small: "length c < 256 ^ 4" using b(3) by simp
  have mag: "\<not> magic b ''FFMAN001''" "magic b ''FFRUN001''" by (simp_all add: magic_def b(1) slices)
  have u32: "meta_u32 b 8 = Inr (length c)"
    using small by (simp add: meta_u32_def b(1) load_at_def slices)
  have "decode_entries (length c) False ((''FFRUN001'' @ le_store 4 (length c)) @ concat (map encode_entry c) @ []) 0 12 [] [] =
      Inr (12 + length (concat (map encode_entry c)), [] @ c)"
    using ok by (intro decode_entries_encoded) simp_all
  then have "decode_entries (length c) False b 0 12 [] [] = Inr (length b, c)" by (simp add: b(1))
  then show ?thesis using mag u32 count b(2) by (simp add: decode_run_def)
qed

lemma decode_entries_ok:
  "decode_entries n full b i at previous acc = Inr (at', c) \<Longrightarrow> smap_ok acc \<Longrightarrow> smap_ok c"
  by (induction n arbitrary: i at previous acc) (auto simp: Let_def split: if_splits)

lemma decode_run_ok: "decode_run b = Inr c \<Longrightarrow> smap_ok c"
  by (auto simp: decode_run_def Let_def dest: decode_entries_ok split: if_splits)

section \<open>Stacks of runs\<close>

text \<open>The map a stack of runs stands for: newest first, so applied from the right.\<close>

abbreviation stack_map :: "delta list \<Rightarrow> (string, oid) smap" where
  "stack_map ds \<equiv> foldr apply_changes ds []"

definition view_runs :: "journal \<Rightarrow> oid list \<Rightarrow> delta list res" where
  "view_runs j runs = mapR (view_run j) runs"

lemma view_run_ok: "view_run j i = Inr c \<Longrightarrow> smap_ok c"
  by (auto simp: view_run_def dest: decode_run_ok)

lemma view_runs_ok: "view_runs j runs = Inr ds \<Longrightarrow> list_all smap_ok ds"
proof (induction runs arbitrary: ds)
  case (Cons i runs)
  then show ?case using view_run_ok by (auto simp: view_runs_def)
qed (simp add: view_runs_def)

lemma stack_map_ok [simp]: "smap_ok (stack_map ds)"
  by (induction ds) auto

lemma stack_lookup:
  "list_all smap_ok ds \<Longrightarrow> map_of (stack_map (d # ds)) k = (case map_of d k of Some x \<Rightarrow> x | None \<Rightarrow> map_of (stack_map ds) k)"
  if "smap_ok d"
  using that by (simp add: map_of_apply_changes override_def)

lemma runs_lookup_stack:
  "view_runs j runs = Inr ds \<Longrightarrow> runs_lookup j runs key = Inr (map_of (stack_map ds) key)"
proof (induction runs arbitrary: ds)
  case Nil
  then show ?case by (simp add: view_runs_def)
next
  case (Cons i runs)
  then obtain d es where d: "view_run j i = Inr d" and es: "view_runs j runs = Inr es" and ds: "ds = d # es"
    by (auto simp: view_runs_def)
  have "map_of (stack_map ds) key = (case map_of d key of Some x \<Rightarrow> x | None \<Rightarrow> map_of (stack_map es) key)"
    unfolding ds using stack_lookup [OF view_run_ok [OF d] view_runs_ok [OF es]] .
  then show ?case using d Cons.IH [OF es] by (simp split: option.split)
qed

lemma foldR_runs:
  assumes "mapR f xs = Inr ys"
  shows "foldR (\<lambda>x acc. bindR (f x) (\<lambda>y. Inr (g y acc))) xs acc = Inr (fold g ys acc)"
  using assms by (induction xs arbitrary: ys acc) auto

lemma mapR_rev: "mapR f xs = Inr ys \<Longrightarrow> mapR f (rev xs) = Inr (rev ys)"
  by (simp add: mapR_Inr_iff list_all2_rev)

lemma references_stack:
  assumes "view_runs j runs = Inr ds"
  shows "view_references sha j (Runs runs) = Inr (stack_map ds)"
proof -
  have "mapR (view_run j) (rev runs) = Inr (rev ds)" using assms mapR_rev by (simp add: view_runs_def)
  from foldR_runs [OF this, of apply_changes "[]"] show ?thesis
    by (simp add: view_references_def foldr_conv_fold)
qed

lemma references_runs:
  assumes "view_references sha j (Runs runs) = Inr m"
  obtains ds where "view_runs j runs = Inr ds" and "m = stack_map ds"
proof -
  have "\<exists>ds. mapR (view_run j) xs = Inr ds"
    if "foldR (\<lambda>i result. bindR (view_run j i) (\<lambda>c. Inr (apply_changes c result))) xs acc = Inr m" for xs acc m
    using that by (induction xs arbitrary: acc) auto
  from this [of "rev runs" "[]" m] obtain es where "mapR (view_run j) (rev runs) = Inr es"
    using assms by (auto simp: view_references_def)
  then have "view_runs j runs = Inr (rev es)" using mapR_rev [of _ "rev runs"] by (simp add: view_runs_def)
  with references_stack [OF this, of sha] assms show thesis by (intro that) auto
qed

text \<open>The first run with a key decides, so selecting newest first gives the same keys.\<close>

lemma select_run_filter:
  assumes "smap_ok d"
  shows "select_run p d sel = fold (\<lambda>(k, v). emplace k v) (filter (\<lambda>x. prefix p (fst x)) d) sel"
proof -
  have ge: "\<forall>x \<in> set (dropWhile (\<lambda>x. fst x < p) m). p \<le> fst x" if "smap_ok m" for m :: delta
    using that by (induction m) auto
  have sub: "smap_ok (dropWhile (\<lambda>x. fst x < p) m)" if "smap_ok m" for m :: delta
    using that by (induction m) auto
  have drop: "filter (\<lambda>x. prefix p (fst x)) (dropWhile (\<lambda>x. fst x < p) m) = filter (\<lambda>x. prefix p (fst x)) m" for m :: delta
    by (induction m) (auto dest: prefix_le)
  show ?thesis
    unfolding select_run_def using takeWhile_prefix [OF sub [OF assms] ge [OF assms]] drop [of d] by simp
qed

lemma map_of_fold_emplace:
  "distinct (map fst d) \<Longrightarrow> map_of (fold (\<lambda>(k, v). emplace k v) d sel) k = (case map_of sel k of Some x \<Rightarrow> Some x | None \<Rightarrow> map_of d k)"
proof (induction d arbitrary: sel)
  case Nil
  then show ?case by (simp split: option.split)
next
  case (Cons x d)
  obtain a b where x: "x = (a, b)" by (cases x)
  have "map_of d a = None" using Cons.prems x by (simp add: map_of_eq_None_iff)
  then show ?case using Cons x by (auto simp: map_of_emplace split: option.split)
qed

lemma smap_ok_fold_emplace: "smap_ok sel \<Longrightarrow> smap_ok (fold (\<lambda>(k, v). emplace k v) d sel)"
  by (induction d arbitrary: sel) auto

definition first_hit :: "delta list \<Rightarrow> string \<Rightarrow> oid option option" where
  "first_hit ds k = List.find (\<lambda>_. True) (List.map_filter (\<lambda>d. map_of d k) ds)"

lemma first_hit_simps [simp]:
  "first_hit [] k = None"
  "first_hit (d # ds) k = (case map_of d k of Some x \<Rightarrow> Some x | None \<Rightarrow> first_hit ds k)"
  by (simp_all add: first_hit_def map_filter_simps split: option.split)

lemma stack_first_hit:
  "list_all smap_ok ds \<Longrightarrow> map_of (stack_map ds) k = (case first_hit ds k of Some x \<Rightarrow> x | None \<Rightarrow> None)"
proof (induction ds)
  case (Cons d ds)
  then have "map_of (stack_map (d # ds)) k = (case map_of d k of Some x \<Rightarrow> x | None \<Rightarrow> map_of (stack_map ds) k)"
    by (intro stack_lookup) auto
  then show ?case using Cons by (simp del: foldr.simps split: option.split)
qed simp

lemma select_all:
  assumes "list_all smap_ok ds"
  shows "smap_ok sel \<Longrightarrow> smap_ok (fold (select_run p) ds sel) \<and>
    map_of (fold (select_run p) ds sel) k = (case map_of sel k of Some x \<Rightarrow> Some x
      | None \<Rightarrow> if prefix p k then first_hit ds k else None)"
  using assms
proof (induction ds arbitrary: sel)
  case Nil
  then show ?case by (auto split: option.split)
next
  case (Cons d ds)
  have d: "smap_ok d" using Cons.prems by simp
  have f: "map_of (filter (\<lambda>x. prefix p (fst x)) d) k = (if prefix p k then map_of d k else None)"
    by (induction d) auto
  have "distinct (map fst (filter (\<lambda>x. prefix p (fst x)) d))" using smap_ok_distinct [OF smap_ok_filter [OF d]] .
  then show ?case
    using Cons.IH [of "select_run p d sel"] Cons.prems f
    by (auto simp: select_run_filter [OF d] smap_ok_fold_emplace map_of_fold_emplace split: option.splits)
qed

lemma keys_stack:
  assumes "view_runs j runs = Inr ds"
  shows "view_keys j (Runs runs) p = Inr (filter (prefix p) (map fst (stack_map ds)))"
proof -
  let ?sel = "fold (select_run p) ds []"
  note ok = view_runs_ok [OF assms]
  have sel: "smap_ok ?sel" "map_of ?sel k = (if prefix p k then first_hit ds k else None)" for k
    using select_all [OF ok, of "[]" p] by auto
  let ?f = "filter (\<lambda>(k, i). i \<noteq> None) ?sel"
  have "map fst ?f = filter (prefix p) (map fst (stack_map ds))"
  proof (rule sorted_distinct_set_unique)
    have "k \<in> set (map fst ?f) \<longleftrightarrow> (\<exists>i. map_of ?sel k = Some (Some i))" for k
      using smap_ok_distinct [OF sel(1)] by force
    then have "k \<in> set (map fst ?f) \<longleftrightarrow> prefix p k \<and> (\<exists>i. first_hit ds k = Some (Some i))" for k
      by (simp add: sel(2))
    moreover have "k \<in> set (map fst (stack_map ds)) \<longleftrightarrow> map_of (stack_map ds) k \<noteq> None" for k
      by (simp add: map_of_eq_None_iff)
    then have "k \<in> set (map fst (stack_map ds)) \<longleftrightarrow> (\<exists>i. first_hit ds k = Some (Some i))" for k
      using stack_first_hit [OF ok, of k] by (simp split: option.splits)
    ultimately show "set (map fst ?f) = set (filter (prefix p) (map fst (stack_map ds)))"
      unfolding set_filter by blast
    have s: "sorted_wrt (<) (map fst ?f)" using smap_ok_filter [OF sel(1)] by (simp add: smap_ok_def)
    then show "sorted (map fst ?f)" "distinct (map fst ?f)" by (simp_all add: strict_sorted_iff)
    have "sorted_wrt (<) (filter (prefix p) (map fst (stack_map ds)))"
      using stack_map_ok [of ds] by (simp add: smap_ok_def sorted_wrt_filter)
    then show "sorted (filter (prefix p) (map fst (stack_map ds)))" "distinct (filter (prefix p) (map fst (stack_map ds)))"
      by (simp_all add: strict_sorted_iff)
  qed
  moreover have "mapR (view_run j) runs = Inr ds" using assms by (simp add: view_runs_def)
  from foldR_runs [OF this, of "select_run p" "[]"]
  have "foldR (\<lambda>i sel. bindR (view_run j i) (\<lambda>e. Inr (select_run p e sel))) runs [] = Inr ?sel" .
  ultimately show ?thesis by (simp add: view_keys_def)
qed

section \<open>Manifests\<close>

lemma decode_run_ids_encoded:
  "length pre = 12 \<Longrightarrow> distinct (acc @ xs) \<Longrightarrow> 0 \<notin> set xs \<Longrightarrow>
    decode_run_ids (length xs) (pre @ concat (map oid_bytes (acc @ xs))) (length acc) acc = Inr (acc @ xs)"
proof (induction xs arbitrary: acc)
  case (Cons x xs)
  have "length (concat (map oid_bytes acc)) = length acc * 32" by (induction acc) simp_all
  then have "oid_at (pre @ concat (map oid_bytes (acc @ x # xs))) (12 + length acc * 32) = x"
    using Cons.prems(1) by (simp add: oid_at_def slice_def)
  then show ?case using Cons.IH [of "acc @ [x]"] Cons.prems by simp
qed simp

lemma manifest_roundtrip:
  assumes "encode_manifest runs = Inr b" and "distinct runs" and "0 \<notin> set runs"
  shows "parse_manifest i b = Inr (Runs runs)"
proof -
  have b: "b = ''FFMAN002'' @ le_store 4 (length runs) @ concat (map oid_bytes runs)" "runs \<noteq> []" "length runs \<le> 32"
    using assms(1) by (auto simp: encode_manifest_def split: if_splits)
  have "length (concat (map oid_bytes runs)) = length runs * 32" by (induction runs) simp_all
  then have len: "length b = 12 + length runs * 32" by (simp add: b(1))
  have heads: "slice 0 8 b = ''FFMAN002''" by (simp add: b(1) slices)
  have u32: "meta_u32 b 8 = Inr (length runs)"
    using b(3) by (simp add: meta_u32_def b(1) load_at_def slices)
  have "decode_run_ids (length runs) ((''FFMAN002'' @ le_store 4 (length runs)) @ concat (map oid_bytes ([] @ runs))) (length ([] :: oid list)) []
      = Inr ([] @ runs)"
    using assms(2,3) by (intro decode_run_ids_encoded) simp_all
  then have "decode_run_ids (length runs) b 0 [] = Inr runs" by (simp add: b(1))
  then show ?thesis using heads u32 len b(2,3) by (simp add: parse_manifest_def magic_def)
qed

lemma tree_manifest: "root \<noteq> 0 \<Longrightarrow> parse_manifest i (manifest_of root) = Inr (Tree root)"
  by (simp add: parse_manifest_def manifest_of_def oid_at_def slices)

section \<open>Partitions\<close>

abbreviation puts :: "(string, oid) smap \<Rightarrow> delta" where
  "puts m \<equiv> map (\<lambda>(k, i). (k, Some i)) m"

lemma smap_ok_puts [simp]: "smap_ok (puts m) = smap_ok m"
  by (simp add: smap_ok_def comp_def case_prod_beta)

lemma apply_puts:
  "smap_ok (a @ m) \<Longrightarrow> apply_changes (puts a) m = a @ m"
proof (induction a arbitrary: m)
  case (Cons x a)
  obtain k i where x: "x = (k, i)" by (cases x)
  have below: "\<forall>y \<in> set (a @ m). k < fst y" using Cons.prems x by auto
  then have "\<forall>y \<in> set m. k < fst y" by auto
  then have put: "put k i m = (k, i) # m" by (cases m) auto
  have "apply_changes (puts a) ((k, i) # m) = put k i (apply_changes (puts a) m)"
  proof (rule smap_ok_unique)
    have ok: "smap_ok (puts a)" "smap_ok m" "smap_ok ((k, i) # m)"
      using Cons.prems x by (auto simp: smap_ok_append)
    then show "smap_ok (apply_changes (puts a) ((k, i) # m))" "smap_ok (put k i (apply_changes (puts a) m))" by auto
    have "map_of (puts a) k = None" using below by (force simp: map_of_eq_None_iff)
    then show "map_of (apply_changes (puts a) ((k, i) # m)) = map_of (put k i (apply_changes (puts a) m))"
      using ok by (auto simp: map_of_apply_changes override_def fun_eq_iff split: option.split)
  qed
  then show ?case using Cons x put below by (cases "a @ m") (auto simp: put_or_erase_def)
qed simp

lemma stack_of_puts: "smap_ok (concat ms) \<Longrightarrow> stack_map (map puts ms) = concat ms"
proof (induction ms)
  case (Cons m ms)
  then show ?case using apply_puts [of m "concat ms"] by (simp add: smap_ok_append)
qed simp

definition entry_ok :: "string \<times> oid \<Rightarrow> bool" where
  "entry_ok x \<longleftrightarrow> valid_key (fst x) \<and> snd x \<noteq> 0"

text \<open>Parts flushed so far, with the map each decodes to, and the open part.\<close>

definition parts_ok :: "(bytes \<Rightarrow> oid) \<Rightarrow> (string, oid) smap list \<Rightarrow> (string, oid) smap \<Rightarrow> parts \<Rightarrow> bool" where
  "parts_ok sha ms m p \<longleftrightarrow> pt_part p = puts m \<and> pt_runs p = map (object_hash sha) (pt_objects p) \<and>
     list_all2 (\<lambda>b c. decode_run b = Inr (puts c) \<and> c \<noteq> []) (pt_objects p) ms"

lemma delta_ok_puts: "smap_ok m \<Longrightarrow> list_all entry_ok m \<Longrightarrow> delta_ok (puts m)"
  by (auto simp: delta_ok_def smap_ok_def run_entry_ok_def entry_ok_def valid_key_def list_all_iff comp_def case_prod_beta)

lemma flush_parts:
  assumes "flush sha p = Inr p'" and "parts_ok sha ms m p" and "smap_ok m" and "list_all entry_ok m"
  shows "\<exists>ms'. parts_ok sha ms' [] p' \<and> concat ms' = concat ms @ m"
proof (cases "m = []")
  case True
  then show ?thesis using assms(1,2) by (auto simp: flush_def parts_ok_def)
next
  case False
  then obtain b where b: "encode_run (puts m) = Inr b" and p': "p' = \<lparr>pt_runs = pt_runs p @ [object_hash sha b],
       pt_objects = pt_objects p @ [b], pt_part = [], pt_bytes = 12\<rparr>"
    using assms(1,2) by (auto simp: flush_def parts_ok_def)
  have "decode_run b = Inr (puts m)" by (rule decode_encode_run [OF delta_ok_puts [OF assms(3,4)] b])
  then have "parts_ok sha (ms @ [m]) [] p'"
    using assms(2) False by (simp add: parts_ok_def p' list_all2_appendI)
  then show ?thesis by (intro exI [of _ "ms @ [m]"]) simp
qed

lemma add_parts:
  "foldR (add_part sha) whole p = Inr p' \<Longrightarrow> parts_ok sha ms m p \<Longrightarrow> smap_ok (m @ whole) \<Longrightarrow>
    list_all entry_ok (m @ whole) \<Longrightarrow>
    \<exists>ms' m'. parts_ok sha ms' m' p' \<and> concat ms' @ m' = concat ms @ m @ whole \<and> smap_ok m' \<and> list_all entry_ok m'"
proof (induction whole arbitrary: p ms m)
  case Nil
  then show ?case by auto
next
  case (Cons x whole)
  obtain k i where x: "x = (k, i)" by (cases x)
  obtain q where q: "(if pt_bytes p + 40 + length k > 64 * 1024 then flush sha p else Inr p) = Inr q"
      "foldR (add_part sha) whole (q\<lparr>pt_part := emplace k (Some i) (pt_part q), pt_bytes := pt_bytes q + 40 + length k\<rparr>) = Inr p'"
    using Cons.prems(1) by (auto simp: x add_part_def)
  have m: "smap_ok m" "list_all entry_ok m" using Cons.prems(3,4) by (auto simp: smap_ok_append)
  obtain ns n where n: "parts_ok sha ns n q" "concat ns @ n = concat ms @ m" "n = [] \<or> n = m"
  proof (cases "pt_bytes p + 40 + length k > 64 * 1024")
    case True
    then show ?thesis using flush_parts [of sha p q ms m] q(1) Cons.prems(2) m that by force
  next
    case False
    then show ?thesis using q(1) Cons.prems(2) that by auto
  qed
  have less: "\<forall>y \<in> set n. fst y < k" using n(3) Cons.prems(3) x by (auto simp: smap_ok_append)
  have ok: "smap_ok ((n @ [x]) @ whole)" "list_all entry_ok ((n @ [x]) @ whole)"
    using n(3) Cons.prems(3,4) by (auto simp: smap_ok_append)
  have "emplace k (Some i) (puts n) = puts (n @ [x])"
    using less x by (subst emplace_last) auto
  then have "parts_ok sha ns (n @ [x]) (q\<lparr>pt_part := emplace k (Some i) (pt_part q), pt_bytes := pt_bytes q + 40 + length k\<rparr>)"
    using n(1) by (simp add: parts_ok_def)
  from Cons.IH [OF q(2) this ok] n(2) show ?case by (metis append.assoc append_Cons append_Nil)
qed

lemma partition_correct:
  assumes "partition_runs sha whole = Inr p" and "smap_ok whole" and "list_all entry_ok whole"
  shows "\<exists>ms. pt_runs p = map (object_hash sha) (pt_objects p) \<and> concat ms = whole \<and>
    list_all2 (\<lambda>b c. decode_run b = Inr (puts c) \<and> c \<noteq> []) (pt_objects p) ms"
proof -
  let ?p0 = "\<lparr>pt_runs = [], pt_objects = [], pt_part = [], pt_bytes = 12\<rparr>"
  obtain q where q: "foldR (add_part sha) whole ?p0 = Inr q" "flush sha q = Inr p"
    using assms(1) by (auto simp: partition_runs_def)
  have "parts_ok sha [] [] ?p0" by (simp add: parts_ok_def)
  from add_parts [OF q(1) this] assms(2,3) obtain ms m where
    "parts_ok sha ms m q" "concat ms @ m = whole" "smap_ok m" "list_all entry_ok m" by auto
  with flush_parts [OF q(2)] show ?thesis by (fastforce simp: parts_ok_def)
qed

section \<open>Publishing a plan\<close>

definition published :: "(bytes \<Rightarrow> oid) \<Rightarrow> journal \<Rightarrow> vplan \<Rightarrow> journal \<Rightarrow> bool" where
  "published sha j p j' \<longleftrightarrow> publishes sha (j_get_object j) (vp_manifest p # vp_objects p) (j_get_object j')"

text \<open>The map of the version whose manifest was published.\<close>

definition reads_back :: "(bytes \<Rightarrow> oid) \<Rightarrow> journal \<Rightarrow> vplan \<Rightarrow> (string, oid) smap \<Rightarrow> bool" where
  "reads_back sha j p m \<longleftrightarrow> (\<exists>v. load_view j (object_hash sha (vp_manifest p)) False = Inr v \<and> view_references sha j v = Inr m)"

lemma finish_plan_iff: "finish_plan runs objects = Inr p \<longleftrightarrow>
    encode_manifest runs = Inr (vp_manifest p) \<and> vp_objects p = objects \<and> vp_run_count p = length runs"
  by (cases p) (auto simp: finish_plan_def)

lemma reads_back_runs:
  assumes "published sha j p j'" and "encode_manifest runs = Inr (vp_manifest p)" and "distinct runs" and "0 \<notin> set runs"
    and "view_runs j' runs = Inr ds"
  shows "reads_back sha j' p (stack_map ds)"
proof -
  have "j_get_object j' (object_hash sha (vp_manifest p)) = Inr (vp_manifest p)"
    using assms(1) by (simp add: published_def publishes_def)
  then have "load_view j' (object_hash sha (vp_manifest p)) False = Inr (Runs runs)"
    using manifest_roundtrip [OF assms(2-4)] by (simp add: load_view_def)
  then show ?thesis using references_stack [OF assms(5), of sha] by (auto simp: reads_back_def)
qed

lemma published_object: "published sha j p j' \<Longrightarrow> b \<in> set (vp_objects p) \<Longrightarrow> j_get_object j' (object_hash sha b) = Inr b"
  by (simp add: published_def publishes_def)

lemma published_old: "published sha j p j' \<Longrightarrow> j_get_object j i = Inr b \<Longrightarrow> j_get_object j' i = Inr b"
  by (simp add: published_def publishes_def)

lemma keys_apart:
  assumes "smap_ok (c @ concat cs)" and "c' \<in> set cs" and "x \<in> set c" and "y \<in> set c'"
  shows "fst x < fst y"
  using assms by (auto simp: smap_ok_append)

lemma parts_distinct:
  assumes "list_all2 (\<lambda>b c. decode_run b = Inr (puts c) \<and> c \<noteq> []) bs cs" "smap_ok (concat cs)"
  shows "distinct bs"
  using assms
proof (induction rule: list_all2_induct)
  case (Cons b bs c cs)
  have "b \<notin> set bs"
  proof
    assume "b \<in> set bs"
    then obtain c' where "c' \<in> set cs" "decode_run b = Inr (puts c')"
      using Cons.hyps(2) by (auto simp: list_all2_conv_all_nth in_set_conv_nth) (metis nth_mem)
    then have "puts c = puts c'" using Cons.hyps(1) by simp
    then have "map fst (puts c) = map fst (puts c')" by simp
    then have "map fst c = map fst c'" by (simp add: comp_def case_prod_beta)
    moreover obtain x c'' where "c = x # c''" using Cons.hyps(1) by (cases c) auto
    ultimately obtain y where y: "y \<in> set c'" "fst y = fst x" by (cases c') auto
    have "smap_ok (c @ concat cs)" "x \<in> set c" using Cons.prems \<open>c = x # c''\<close> by simp_all
    from keys_apart [OF this(1) \<open>c' \<in> set cs\<close> this(2) y(1)] y(2) show False by simp
  qed
  then show ?case using Cons by (simp add: smap_ok_append)
qed simp

lemma image_plan_reads_back:
  assumes "image_plan sha whole = Inr p" and "published sha j p j'" and "smap_ok whole" and "list_all entry_ok whole"
    and "0 \<notin> object_hash sha ` set (vp_objects p)"
  shows "reads_back sha j' p whole"
proof -
  obtain q where q: "partition_runs sha whole = Inr q" "encode_manifest (pt_runs q) = Inr (vp_manifest p)" "vp_objects p = pt_objects q"
    using assms(1) by (auto simp: image_plan_def finish_plan_iff split: if_splits)
  obtain ms where ms: "pt_runs q = map (object_hash sha) (pt_objects q)" "concat ms = whole"
      "list_all2 (\<lambda>b c. decode_run b = Inr (puts c) \<and> c \<noteq> []) (pt_objects q) ms"
    using partition_correct [OF q(1) assms(3,4)] by blast
  have read: "view_run j' (object_hash sha b) = decode_run b" if "b \<in> set (pt_objects q)" for b
    using published_object [OF assms(2)] that q(3) by (simp add: view_run_def)
  have "mapR (view_run j') (map (object_hash sha) bs) = Inr (map puts cs)"
    if "list_all2 (\<lambda>b c. decode_run b = Inr (puts c) \<and> c \<noteq> []) bs cs" "set bs \<subseteq> set (pt_objects q)" for bs cs
    using that by (induction rule: list_all2_induct) (auto simp: read)
  then have runs: "view_runs j' (pt_runs q) = Inr (map puts ms)" using ms by (simp add: view_runs_def)
  have "distinct (pt_objects q)" using parts_distinct ms assms(3) by blast
  moreover have "inj_on (object_hash sha) (set (pt_objects q))"
    using published_object [OF assms(2)] q(3) by (metis inj_onI sum.inject(2))
  ultimately have "distinct (pt_runs q)" by (simp add: ms(1) distinct_map)
  moreover have "0 \<notin> set (pt_runs q)" using assms(5) q(3) by (simp add: ms(1))
  ultimately show ?thesis
    using reads_back_runs [OF assms(2) q(2) _ _ runs] stack_of_puts [of ms] ms(2) assms(3) by simp
qed

lemma view_runs_published:
  assumes "published sha j p j'" and "view_runs j runs = Inr ds"
  shows "view_runs j' runs = Inr ds"
proof -
  have "view_run j' i = Inr d" if "view_run j i = Inr d" for i d
    using that published_old [OF assms(1)] by (auto simp: view_run_def)
  then show ?thesis using assms(2) by (simp add: view_runs_def mapR_Inr_iff list_all2_mono)
qed

text \<open>Putting a run in front, and dropping an older copy of it.\<close>

lemma stack_push:
  assumes c: "smap_ok c" and ps: "list_all (\<lambda>x. smap_ok (snd x) \<and> (fst x = h \<longrightarrow> snd x = c)) ps"
  shows "stack_map (c # map snd (filter (\<lambda>x. fst x \<noteq> h) ps)) = apply_changes c (stack_map (map snd ps))"
proof (rule smap_ok_unique)
  let ?fs = "map snd (filter (\<lambda>x. fst x \<noteq> h) ps)"
  have ok: "list_all smap_ok ?fs" "list_all smap_ok (map snd ps)" using ps by (auto simp: list_all_iff)
  have skip: "first_hit ?fs k = first_hit (map snd ps) k" if "map_of c k = None" for k
    using that ps by (induction ps) (auto split: option.split)
  have "map_of (stack_map (c # ?fs)) k = map_of (apply_changes c (stack_map (map snd ps))) k" for k
    unfolding stack_lookup [OF c ok(1)] map_of_apply_changes [OF c stack_map_ok] override_def
      stack_first_hit [OF ok(1)] stack_first_hit [OF ok(2)]
    using skip by (simp split: option.split)
  then show "map_of (stack_map (c # ?fs)) = map_of (apply_changes c (stack_map (map snd ps)))" by blast
qed auto

lemma view_runs_filter:
  assumes "view_runs j runs = Inr ds"
  shows "view_runs j (removeAll h runs) = Inr (map snd (filter (\<lambda>x. fst x \<noteq> h) (zip runs ds)))"
proof -
  have "list_all2 (\<lambda>x y. view_run j x = Inr y) runs ds" using assms by (simp add: view_runs_def mapR_Inr_iff)
  then have "list_all2 (\<lambda>x y. view_run j x = Inr y) (removeAll h runs) (map snd (filter (\<lambda>x. fst x \<noteq> h) (zip runs ds)))"
    by (induction rule: list_all2_induct) auto
  then show ?thesis by (simp add: view_runs_def mapR_Inr_iff)
qed

lemma view_runs_nth:
  assumes "view_runs j runs = Inr ds" and "(i, d) \<in> set (zip runs ds)"
  shows "view_run j i = Inr d"
  using assms by (auto simp: view_runs_def mapR_Inr_iff list_all2_conv_all_nth in_set_zip)

lemma apply_changes_twice: "smap_ok c \<Longrightarrow> smap_ok m \<Longrightarrow> apply_changes c (apply_changes c m) = apply_changes c m"
  by (rule smap_ok_unique) (auto simp: map_of_apply_changes override_def fun_eq_iff split: option.split)

lemma delta_plan_reads_back:
  assumes plan: "delta_plan sha runs changes = Inr p" and pub: "published sha j p j'"
    and runs: "view_runs j runs = Inr ds" "distinct runs" "0 \<notin> set runs" and ok: "delta_ok changes"
    and nz: "0 \<notin> object_hash sha ` set (vp_objects p)"
    and same: "\<And>b b'. encode_run changes = Inr b \<Longrightarrow> j_get_object j (object_hash sha b) = Inr b' \<Longrightarrow> b' = b"
  shows "reads_back sha j' p (apply_changes changes (stack_map ds))"
proof (cases "changes = []")
  case True
  then have "encode_manifest runs = Inr (vp_manifest p)" using plan by (simp add: delta_plan_def finish_plan_iff)
  then show ?thesis using reads_back_runs [OF pub _ runs(2,3) view_runs_published [OF pub runs(1)]] True by simp
next
  case False
  then obtain b where b: "encode_run changes = Inr b"
    and plan': "(if runs = [] \<or> hd runs \<noteq> object_hash sha b then finish_plan (object_hash sha b # removeAll (object_hash sha b) runs) [b]
        else finish_plan runs []) = Inr p"
    using plan by (auto simp: delta_plan_def Let_def)
  let ?h = "object_hash sha b"
  have dec: "decode_run b = Inr changes" by (rule decode_encode_run [OF ok b])
  have c: "smap_ok changes" using ok by (simp add: delta_ok_def)
  have copy: "d = changes" if "view_run j ?h = Inr d" for d
    using that same [OF b] dec by (auto simp: view_run_def)
  show ?thesis
  proof (cases "runs = [] \<or> hd runs \<noteq> ?h")
    case True
    then have m: "encode_manifest (?h # removeAll ?h runs) = Inr (vp_manifest p)" "vp_objects p = [b]"
      using plan' by (simp_all add: finish_plan_iff)
    have "view_run j' ?h = Inr changes" using published_object [OF pub] m(2) dec by (simp add: view_run_def)
    then have read: "view_runs j' (?h # removeAll ?h runs) = Inr (changes # map snd (filter (\<lambda>x. fst x \<noteq> ?h) (zip runs ds)))"
      using view_runs_published [OF pub view_runs_filter [OF runs(1), of ?h]] by (simp add: view_runs_def)
    have len: "length runs = length ds" using runs(1) by (auto simp: view_runs_def mapR_Inr_iff list_all2_lengthD)
    have "list_all (\<lambda>x. smap_ok (snd x) \<and> (fst x = ?h \<longrightarrow> snd x = changes)) (zip runs ds)"
      using view_runs_nth [OF runs(1)] view_run_ok copy by (fastforce simp: list_all_iff)
    from stack_push [OF c this] have "stack_map (changes # map snd (filter (\<lambda>x. fst x \<noteq> ?h) (zip runs ds))) = apply_changes changes (stack_map ds)"
      by (simp add: len)
    then show ?thesis using reads_back_runs [OF pub m(1) _ _ read] runs(2,3) nz m(2) by (simp add: distinct_removeAll)
  next
    case False
    then obtain rest where rest: "runs = ?h # rest" by (cases runs) auto
    have m: "encode_manifest runs = Inr (vp_manifest p)" using plan' False by (simp add: finish_plan_iff)
    obtain es where "ds = changes # es" using runs(1) copy rest by (auto simp: view_runs_def)
    then have "apply_changes changes (stack_map ds) = stack_map ds" using c by (simp add: apply_changes_twice)
    then show ?thesis using reads_back_runs [OF pub m runs(2,3) view_runs_published [OF pub runs(1)]] by simp
  qed
qed

section \<open>Compaction of a frozen version\<close>

lemma compact_frozen_plan:
  assumes "view_references sha j v = Inr refs" and "freeze sha j v = Inr input" and "\<not> (\<exists>root. v = Tree root)"
  shows "compact_frozen sha input = image_plan sha refs"
proof (cases v)
  case Legacy
  then show ?thesis using assms(1,2) by (auto simp: freeze_def compact_frozen_def)
next
  case (Runs runs)
  then obtain ds where ds: "view_runs j runs = Inr ds" "refs = stack_map ds" using assms(1) references_runs by blast
  obtain bs where bs: "mapR (j_get_object j) runs = Inr bs" "input = \<lparr>fz_flat = [], fz_runs = bs\<rparr>"
    using assms(2) Runs by (auto simp: freeze_def)
  have "mapR decode_run bs = Inr ds"
    using ds(1) bs(1) by (induction runs arbitrary: bs ds) (auto simp: view_runs_def view_run_def)
  then have "mapR decode_run (rev bs) = Inr (rev ds)" by (rule mapR_rev)
  from foldR_runs [OF this, of apply_changes "[]"] show ?thesis
    by (simp add: compact_frozen_def bs(2) ds(2) foldr_conv_fold)
qed (use assms(3) in blast)

section \<open>Plans on a metadata tree\<close>

lemma entries_empty: "fst (tree_entries sha get (open_editor 0)) = Inr []"
  by (simp add: tree_entries_def open_editor_def entries_walk.simps bindS_def)

lemma rooted_result:
  assumes "good_changes changes" and "rooted changes t" and "smap_ok changes" and "smap_ok (inorder t)"
  shows "apply_changes changes (inorder t) \<noteq> []"
proof -
  have "map_of (apply_changes changes (inorder t)) namespace_root \<noteq> None"
  proof (cases "map_of changes namespace_root")
    case None
    then show ?thesis
      using assms tree_lookup_inorder [OF assms(4)] by (auto simp: rooted_def map_of_apply_changes override_def)
  next
    case (Some v)
    then have "v \<noteq> None" using assms(1) by (auto simp: good_changes_def dest: map_of_SomeD)
    then show ?thesis using Some assms(3,4) by (auto simp: map_of_apply_changes override_def)
  qed
  then show ?thesis by (auto simp del: map_of_eq_None_iff)
qed

lemma tree_apply_reads_back:
  assumes "valid_tree sha t" and "persisted sha (j_get_object j) t" and "good_changes changes" and "rooted changes t"
    and "height (edited sha changes t) \<le> 256" and "inj_on (tid sha) (touched sha changes t)" and "smap_ok changes"
  shows "\<exists>p. fst (tree_apply sha (j_get_object j) changes (open_editor (tid sha t))) = Inr p \<and>
    (\<forall>j'. publishes sha (j_get_object j) (p_manifest p # p_objects p) (j_get_object j') \<longrightarrow>
      reads_back sha j' \<lparr>vp_objects = p_objects p, vp_manifest = p_manifest p, vp_run_count = 1\<rparr> (apply_changes changes (inorder t)))"
proof -
  obtain p e' where run: "tree_apply sha (j_get_object j) changes (open_editor (tid sha t)) = (Inr p, e')"
    and man: "p_manifest p = manifest_of (te_root e')"
    and read: "\<And>get'. publishes sha (j_get_object j) (p_objects p) get' \<Longrightarrow>
      fst (tree_entries sha get' (open_editor (te_root e'))) = Inr (apply_changes changes (inorder t))"
    using apply_published [OF assms(1-6)] by blast
  have "smap_ok (inorder t)" using assms(1) by (simp add: valid_tree_def treap_def)
  note ne = rooted_result [OF assms(3,4,7) this]
  have "reads_back sha j' \<lparr>vp_objects = p_objects p, vp_manifest = p_manifest p, vp_run_count = 1\<rparr> (apply_changes changes (inorder t))"
    if pub: "publishes sha (j_get_object j) (p_manifest p # p_objects p) (j_get_object j')" for j'
  proof -
    have r: "fst (tree_entries sha (j_get_object j') (open_editor (te_root e'))) = Inr (apply_changes changes (inorder t))"
      using pub by (intro read) (simp add: publishes_def)
    then have "te_root e' \<noteq> 0" using entries_empty ne by (metis sum.inject(2))
    moreover have "j_get_object j' (object_hash sha (p_manifest p)) = Inr (p_manifest p)" using pub by (simp add: publishes_def)
    ultimately have "load_view j' (object_hash sha (p_manifest p)) False = Inr (Tree (te_root e'))"
      using tree_manifest by (simp add: load_view_def man)
    then show ?thesis using r by (auto simp: reads_back_def view_references_def)
  qed
  then show ?thesis using run by auto
qed

text \<open>Migration of a run or flat version: the references that the changes leave alone are added.\<close>

abbreviation add_missing :: "(string, oid) smap \<Rightarrow> delta \<Rightarrow> delta" where
  "add_missing refs changes \<equiv> fold (\<lambda>(key, i) all. if map_of all key = None then put key (Some i) all else all) refs changes"

lemma add_missing_ok: "smap_ok changes \<Longrightarrow> smap_ok (add_missing refs changes)"
proof (induction refs arbitrary: changes)
  case (Cons x refs)
  obtain a b where x: "x = (a, b)" by (cases x)
  have "smap_ok (if map_of changes a = None then put a (Some b) changes else changes)" using Cons.prems by simp
  then show ?case unfolding x fold_simps prod.case by (rule Cons.IH)
qed simp

lemma map_of_add_missing:
  "map_of (add_missing refs changes) k = (case map_of changes k of Some x \<Rightarrow> Some x | None \<Rightarrow> map_option Some (map_of refs k))"
proof (induction refs arbitrary: changes)
  case (Cons x refs)
  obtain a b where x: "x = (a, b)" by (cases x)
  have step: "map_of (if map_of changes a = None then put a (Some b) changes else changes) k =
      (case map_of changes k of Some y \<Rightarrow> Some y | None \<Rightarrow> if k = a then Some (Some b) else None)"
    by (cases "map_of changes k"; cases "map_of changes a") auto
  show ?case
    unfolding x fold_simps prod.case Cons.IH step by (cases "map_of changes k") simp_all
qed (simp split: option.split)

lemma apply_add_missing:
  assumes "smap_ok changes" and "smap_ok refs"
  shows "apply_changes (add_missing refs changes) [] = apply_changes changes refs"
proof (rule smap_ok_unique)
  show "map_of (apply_changes (add_missing refs changes) []) = map_of (apply_changes changes refs)"
    unfolding map_of_apply_changes [OF add_missing_ok [OF assms(1)] smap_ok_Nil] map_of_apply_changes [OF assms]
    by (rule ext) (simp add: override_def map_of_add_missing split: option.split)
qed (use assms in auto)

end
