(* ===== verification/Namespace_View_Props.thy ===== *)
theory Namespace_View_Props
  imports Namespace_View_Laws
begin

text \<open>
  The properties of namespace versions: a plan publishes the edited map on either backend,
  the readers of a stack of runs agree, runs survive encoding, and compaction keeps the map.
\<close>

section \<open>A concrete version\<close>

definition length_sha :: "bytes \<Rightarrow> oid" where
  "length_sha b = of_nat (length b)"

abbreviation entry_x :: string where "entry_x \<equiv> CHR 0x00 # ''forkfs/entry/x''"

definition flat_journal :: journal where
  "flat_journal = \<lparr>j_leveldb = False, j_sequence = 1, j_roots = [(namespace_root, 1)], j_objects = [(1, ''x'')]\<rparr>"

text \<open>What the migration of that version with one added entry publishes.\<close>

definition flat_run :: bytes where
  "flat_run = ''FFRUN001'' @ le_store 4 2 @ encode_entry (entry_x, Some 2) @ encode_entry (namespace_root, Some 1)"

definition flat_manifest :: bytes where
  "flat_manifest = ''FFMAN002'' @ le_store 4 1 @ oid_bytes (object_hash length_sha flat_run)"

definition migrated_journal :: journal where
  "migrated_journal = flat_journal\<lparr>j_objects := [(1, ''x''), (object_hash length_sha flat_manifest, flat_manifest),
     (object_hash length_sha flat_run, flat_run)]\<rparr>"

definition compacted_run :: bytes where
  "compacted_run = ''FFRUN001'' @ le_store 4 1 @ encode_entry (namespace_root, Some 1)"

definition compacted_manifest :: bytes where
  "compacted_manifest = ''FFMAN002'' @ le_store 4 1 @ oid_bytes (object_hash length_sha compacted_run)"

definition compacted_journal :: journal where
  "compacted_journal = flat_journal\<lparr>j_objects := [(1, ''x''), (object_hash length_sha compacted_manifest, compacted_manifest),
     (object_hash length_sha compacted_run, compacted_run)]\<rparr>"

section \<open>Properties\<close>

text \<open>C13. Planning an edit of a flat or run version refines the edit of its map: once the plan's
  runs and manifest are in the journal, opening the manifest gives a version whose references
  are the old ones with the changes applied. The journal returns published objects under their
  hash; the hash is nonzero, and an object already stored under the hash of the new run is
  that run.\<close>

theorem run_plan_refines:
  assumes "view_references sha j v = Inr refs" and "view_plan sha j v changes compact = Inr p" and "published sha j p j'"
    and "\<not> j_leveldb j" and "delta_ok changes" and "smap_ok refs" and "list_all entry_ok (apply_changes changes refs)"
    and "0 \<notin> object_hash sha ` set (vp_objects p)"
    and "v = Legacy \<or> (\<exists>runs. v = Runs runs \<and> distinct runs \<and> 0 \<notin> set runs)"
    and "\<forall>b b'. encode_run changes = Inr b \<and> j_get_object j (object_hash sha b) = Inr b' \<longrightarrow> b' = b"
  shows "reads_back sha j' p (apply_changes changes refs)"
proof (cases "v = Legacy \<or> compact")
  case True
  then have "image_plan sha (apply_changes changes refs) = Inr p" using assms(1,2,4) by (auto simp: view_plan_def)
  then show ?thesis using image_plan_reads_back assms(3,6-8) by blast
next
  case False
  then obtain runs where v: "v = Runs runs" "distinct runs" "0 \<notin> set runs" using assms(9) by blast
  obtain ds where ds: "view_runs j runs = Inr ds" "refs = stack_map ds" using assms(1) v(1) references_runs by blast
  have "delta_plan sha runs changes = Inr p" using assms(2,4) False v(1) by (simp add: view_plan_def)
  from delta_plan_reads_back [OF this assms(3) ds(1) v(2,3) assms(5,8)] assms(10) show ?thesis unfolding ds(2) by blast
qed

lemma flat_run_sorted: "entry_x < namespace_root"
  by simp

lemma flat_references: "view_references length_sha flat_journal Legacy = Inr [(namespace_root, 1)]"
  by (simp add: view_references_def j_keys_def j_root_object_def flat_journal_def)

lemma flat_plan: "view_plan length_sha flat_journal Legacy [(entry_x, Some 2)] False =
    Inr \<lparr>vp_objects = [flat_run], vp_manifest = flat_manifest, vp_run_count = 1\<rparr>"
  by (simp add: view_plan_def flat_references put_or_erase_def image_plan_def partition_runs_def add_part_def flush_def
    emplace_def encode_run_def run_key_check_def finish_plan_def encode_manifest_def flat_run_def flat_manifest_def numeral_2_eq_2)
     (simp add: flat_journal_def)

lemma flat_published: "published length_sha flat_journal
    \<lparr>vp_objects = [flat_run], vp_manifest = flat_manifest, vp_run_count = 1\<rparr> migrated_journal"
  by (auto simp: published_def publishes_def j_get_object_def migrated_journal_def flat_journal_def object_hash_def
    length_sha_def object_frame_def flat_run_def flat_manifest_def encode_entry_def split: if_splits option.splits)

theorem run_plan_refines_witness:
  "reads_back length_sha migrated_journal \<lparr>vp_objects = [flat_run], vp_manifest = flat_manifest, vp_run_count = 1\<rparr>
    [(entry_x, 2), (namespace_root, 1)]"
proof -
  have "reads_back length_sha migrated_journal \<lparr>vp_objects = [flat_run], vp_manifest = flat_manifest, vp_run_count = 1\<rparr>
      (apply_changes [(entry_x, Some 2)] [(namespace_root, 1)])"
    by (rule run_plan_refines [OF flat_references flat_plan flat_published])
       (auto simp: flat_journal_def delta_ok_def run_entry_ok_def put_or_erase_def entry_ok_def valid_key_def object_hash_def
         length_sha_def object_frame_def flat_run_def encode_entry_def j_get_object_def encode_run_def run_key_check_def split: if_splits)
  then show ?thesis by (simp add: put_or_erase_def)
qed

text \<open>C12. Planning an edit on LevelDB refines the edit of the map: from a version held by a valid
  metadata tree, and from a flat or run version (which is migrated to a tree), a plan is
  returned, and once it is published the manifest opens a version with the changes applied.\<close>

theorem tree_plan_refines:
  assumes "valid_tree sha t" and "persisted sha (j_get_object j) t" and "rooted changes t"
    and "v = Tree (tid sha t) \<and> changes = c \<and> refs = inorder t \<or>
      (\<forall>root. v \<noteq> Tree root) \<and> t = Leaf \<and> changes = add_missing refs c \<and> view_references sha j v = Inr refs"
    and "good_changes changes" and "smap_ok c" and "smap_ok refs"
    and "height (edited sha changes t) \<le> 256" and "inj_on (tid sha) (touched sha changes t)" and "j_leveldb j"
  shows "\<exists>p. view_plan sha j v c compact = Inr p \<and>
    (\<forall>j'. published sha j p j' \<longrightarrow> reads_back sha j' p (apply_changes c refs))"
proof -
  have ok: "smap_ok changes" using assms(4,6) add_missing_ok by blast
  obtain p where p: "fst (tree_apply sha (j_get_object j) changes (open_editor (tid sha t))) = Inr p"
    and read: "\<And>j'. publishes sha (j_get_object j) (p_manifest p # p_objects p) (j_get_object j') \<Longrightarrow>
      reads_back sha j' \<lparr>vp_objects = p_objects p, vp_manifest = p_manifest p, vp_run_count = 1\<rparr> (apply_changes changes (inorder t))"
    using tree_apply_reads_back [OF assms(1,2,5,3,8,9) ok] by blast
  have "view_plan sha j v c compact = Inr \<lparr>vp_objects = p_objects p, vp_manifest = p_manifest p, vp_run_count = 1\<rparr>"
    using assms(4,10) p by (cases v) (auto simp: view_plan_def tree_plan_def)
  moreover have "apply_changes changes (inorder t) = apply_changes c refs"
    using assms(4) apply_add_missing [OF assms(6,7)] by auto
  ultimately show ?thesis using read by (auto simp: published_def)
qed

theorem tree_plan_refines_witness:
  "\<exists>p. view_plan field_sha (flat_journal\<lparr>j_leveldb := True\<rparr>) Legacy [(namespace_root, Some 2)] False = Inr p \<and>
    (\<forall>j'. published field_sha (flat_journal\<lparr>j_leveldb := True\<rparr>) p j' \<longrightarrow> reads_back field_sha j' p [(namespace_root, 2)])"
proof -
  have refs: "view_references field_sha (flat_journal\<lparr>j_leveldb := True\<rparr>) Legacy = Inr [(namespace_root, 1)]"
    by (simp add: view_references_def j_keys_def j_root_object_def flat_journal_def)
  have "\<exists>p. view_plan field_sha (flat_journal\<lparr>j_leveldb := True\<rparr>) Legacy [(namespace_root, Some 2)] False = Inr p \<and>
    (\<forall>j'. published field_sha (flat_journal\<lparr>j_leveldb := True\<rparr>) p j' \<longrightarrow>
      reads_back field_sha j' p (apply_changes [(namespace_root, Some 2)] [(namespace_root, 1)]))"
    by (rule tree_plan_refines [where t = Leaf and changes = "[(namespace_root, Some 2)]"])
       (use refs root_trees_inj [of 2 2] in \<open>simp_all add: valid_tree_def treap_def persisted_def rooted_def good_changes_def
          valid_key_def insert_commute del: tid.simps\<close>)
  then show ?thesis by (simp add: put_or_erase_def)
qed

text \<open>C24. Sorted runs survive encoding: a valid change set that encodes decodes to itself, and
  whatever decodes is sorted with unique keys.\<close>

theorem run_codec:
  "(delta_ok c \<and> encode_run c = Inr b \<longrightarrow> decode_run b = Inr c) \<and> (decode_run b' = Inr c' \<longrightarrow> smap_ok c')"
  using decode_encode_run decode_run_ok by blast

theorem run_codec_witness:
  "decode_run flat_run = Inr [(entry_x, Some 2), (namespace_root, Some 1)] \<and> smap_ok [(entry_x, Some (2 :: oid)), (namespace_root, Some 1)]"
proof -
  have "delta_ok [(entry_x, Some 2), (namespace_root, Some 1)]" by (simp add: delta_ok_def run_entry_ok_def)
  moreover have "encode_run [(entry_x, Some 2), (namespace_root, Some 1)] = Inr flat_run"
    by (simp add: encode_run_def run_key_check_def flat_run_def numeral_2_eq_2)
  ultimately show ?thesis
    using run_codec [of "[(entry_x, Some 2), (namespace_root, Some 1)]" flat_run flat_run] by auto
qed

text \<open>C20. The three readers of a version made of runs agree: a key lookup, newest run first and
  stopping at a tombstone, a prefix scan, and the references, applied oldest first, all read
  the same map.\<close>

theorem run_readers_agree:
  assumes "view_references sha j (Runs runs) = Inr m"
  shows "smap_ok m \<and> view_lookup j (Runs runs) key = Inr (map_of m key) \<and>
    view_keys j (Runs runs) p = Inr (filter (prefix p) (map fst m))"
proof -
  obtain ds where ds: "view_runs j runs = Inr ds" "m = stack_map ds" using assms references_runs by blast
  then show ?thesis using runs_lookup_stack [OF ds(1)] keys_stack [OF ds(1)] by (simp add: view_lookup_def)
qed

theorem run_readers_agree_witness:
  "\<exists>m. view_references length_sha migrated_journal (Runs [object_hash length_sha flat_run]) = Inr m \<and> smap_ok m \<and>
    view_lookup migrated_journal (Runs [object_hash length_sha flat_run]) entry_x = Inr (map_of m entry_x) \<and>
    view_keys migrated_journal (Runs [object_hash length_sha flat_run]) forkfs_prefix = Inr (filter (prefix forkfs_prefix) (map fst m))"
proof -
  have "delta_ok [(entry_x, Some 2), (namespace_root, Some 1)]" by (simp add: delta_ok_def run_entry_ok_def)
  moreover have "encode_run [(entry_x, Some 2), (namespace_root, Some 1)] = Inr flat_run"
    by (simp add: encode_run_def run_key_check_def flat_run_def numeral_2_eq_2)
  ultimately have "decode_run flat_run = Inr [(entry_x, Some 2), (namespace_root, Some 1)]" by (rule decode_encode_run)
  moreover have "j_get_object migrated_journal (object_hash length_sha flat_run) = Inr flat_run"
    using flat_published by (simp add: published_def publishes_def)
  ultimately have "view_references length_sha migrated_journal (Runs [object_hash length_sha flat_run]) =
      Inr (apply_changes [(entry_x, Some 2), (namespace_root, Some 1)] [])"
    by (simp add: view_references_def view_run_def)
  from this run_readers_agree [OF this, of entry_x forkfs_prefix] show ?thesis by blast
qed

text \<open>C14. Compaction of a frozen version keeps its map: publishing the plan of
  \<open>compact_frozen\<close> on what \<open>freeze\<close> copied gives a version with the same references.\<close>

theorem compaction_keeps_map:
  assumes "view_references sha j v = Inr refs" and "freeze sha j v = Inr input" and "\<forall>root. v \<noteq> Tree root"
    and "compact_frozen sha input = Inr p" and "published sha j p j'"
    and "smap_ok refs" and "list_all entry_ok refs" and "0 \<notin> object_hash sha ` set (vp_objects p)"
  shows "reads_back sha j' p refs"
  using image_plan_reads_back [OF _ assms(5-8)] compact_frozen_plan [OF assms(1,2)] assms(3,4) by auto

theorem compaction_keeps_map_witness:
  "\<exists>p. compact_frozen length_sha \<lparr>fz_flat = [(namespace_root, 1)], fz_runs = []\<rparr> = Inr p \<and>
    reads_back length_sha compacted_journal p [(namespace_root, 1)]"
proof -
  let ?p = "\<lparr>vp_objects = [compacted_run], vp_manifest = compacted_manifest, vp_run_count = 1\<rparr>"
  have plan: "compact_frozen length_sha \<lparr>fz_flat = [(namespace_root, 1)], fz_runs = []\<rparr> = Inr ?p"
    by (simp add: compact_frozen_def image_plan_def partition_runs_def add_part_def flush_def emplace_def encode_run_def
      run_key_check_def finish_plan_def encode_manifest_def compacted_run_def compacted_manifest_def)
  have pub: "published length_sha flat_journal ?p compacted_journal"
    by (auto simp: published_def publishes_def j_get_object_def compacted_journal_def flat_journal_def object_hash_def
      length_sha_def object_frame_def compacted_run_def compacted_manifest_def encode_entry_def split: if_splits option.splits)
  have frozen: "freeze length_sha flat_journal Legacy = Inr \<lparr>fz_flat = [(namespace_root, 1)], fz_runs = []\<rparr>"
    by (simp add: freeze_def flat_references)
  have "reads_back length_sha compacted_journal ?p [(namespace_root, 1)]"
    by (rule compaction_keeps_map [OF flat_references frozen _ plan pub])
       (simp_all add: entry_ok_def valid_key_def object_hash_def length_sha_def object_frame_def compacted_run_def encode_entry_def)
  then show ?thesis using plan by blast
qed

end
