(* ===== verification/File_Journal.thy ===== *)
theory File_Journal
  imports Repository
begin

text \<open>
  The single-file backend of \<^verbatim>\<open>daemon/journal.cpp\<close>: an append-only file of 16 MiB segments that
  hold checksummed records. A batch is written as data records and one prepare record, synced,
  and then sealed by a commit record that names them by position and hash and chains to the
  previous commit. Opening the file replays the committed batches, from the start or from a
  checkpoint record.

  The file is its bytes; system calls that write take their results from the list \<open>md_calls\<close> (a
  call beyond the list succeeds), so that short, interrupted and failing writes are all runs of
  the model. Offsets are natural numbers: the guard on \<open>max_offset\<close> keeps the 64-bit arithmetic
  of the source from wrapping.
\<close>

section \<open>The file\<close>

abbreviation log_base :: nat where "log_base \<equiv> 65536"
abbreviation span :: nat where "span \<equiv> 16777216"
abbreviation header_size :: nat where "header_size \<equiv> 4096"
abbreviation max_payload :: nat where "max_payload \<equiv> 262144"
abbreviation max_offset :: nat where "max_offset \<equiv> 9223372036854775807"

datatype syscall = Count nat | Interrupted | Io_error

record medium =
  md_file :: bytes
  md_calls :: "syscall list"

definition read_bytes :: "bytes \<Rightarrow> nat \<Rightarrow> nat \<Rightarrow> bytes res" where
  "read_bytes f at n = need (n = 0 \<or> at + n \<le> length f) ''short journal read'' (Inr (slice at n f))"

definition pwrite :: "bytes \<Rightarrow> nat \<Rightarrow> bytes \<Rightarrow> bytes" where
  "pwrite f at b = take at f @ replicate (at - length f) (CHR 0x00) @ b @ drop (at + length b) f"

primrec write_loop :: "syscall list \<Rightarrow> nat \<Rightarrow> bytes \<Rightarrow> bytes \<Rightarrow> unit res \<times> syscall list \<times> bytes" where
  "write_loop [] at b f = (Inr (), [], if b = [] then f else pwrite f at b)"
| "write_loop (r # rs) at b f =
     (if b = [] then (Inr (), r # rs, f)
      else case r of
        Interrupted \<Rightarrow> write_loop rs at b f
      | Io_error \<Rightarrow> (Inl (System_error ''write journal''), rs, f)
      | Count k \<Rightarrow>
          if k = 0 then (Inl (Runtime_error ''zero journal write''), rs, f)
          else let n = min k (length b) in write_loop rs (at + n) (drop n b) (pwrite f at (take n b)))"

definition write_bytes :: "nat \<Rightarrow> bytes \<Rightarrow> (medium, unit) op" where
  "write_bytes at b m = (case write_loop (md_calls m) at b (md_file m) of
     (r, calls, f) \<Rightarrow> (r, m\<lparr>md_file := f, md_calls := calls\<rparr>))"

definition sys_call :: "string \<Rightarrow> (medium \<Rightarrow> medium) \<Rightarrow> (medium, unit) op" where
  "sys_call msg effect m = (case md_calls m of
       [] \<Rightarrow> (Inr (), effect m)
     | Count _ # rs \<Rightarrow> (Inr (), effect (m\<lparr>md_calls := rs\<rparr>))
     | _ # rs \<Rightarrow> (Inl (System_error msg), m\<lparr>md_calls := rs\<rparr>))"

definition sync_file :: "(medium, unit) op" where
  "sync_file = sys_call ''sync journal'' (\<lambda>m. m)"

definition truncate_file :: "string \<Rightarrow> nat \<Rightarrow> (medium, unit) op" where
  "truncate_file msg n = sys_call msg (\<lambda>m. m\<lparr>md_file := resize (md_file m) n\<rparr>)"

section \<open>Records\<close>

definition encode_record :: "nat \<Rightarrow> u64 \<Rightarrow> bytes \<Rightarrow> oid \<Rightarrow> bytes" where
  "encode_record type seq payload i =
     (let len = record_size (length payload);
          head = ''FFR0'' @ le_store 2 type @ le_store 2 1 @ le_store 4 len @ le_store 4 (length payload) @
            store64 seq @ oid_bytes i @ le_store 4 0 in
      head @ store32 (crc head) @ payload @ replicate (len - 80 - length payload) (CHR 0x00) @
        store32 (crc payload) @ le_store 4 len @ ''FFREND00'')"

record log_record =
  r_type :: nat
  r_sequence :: u64
  r_oid :: oid
  r_payload :: bytes
  r_encoded :: bytes

abbreviation zeros :: "bytes \<Rightarrow> bool" where "zeros b \<equiv> list_all (\<lambda>c. c = CHR 0x00) b"

text \<open>\<open>None\<close> is an incomplete record at the end of the file.\<close>

definition read_record :: "bytes \<Rightarrow> nat \<Rightarrow> nat \<Rightarrow> log_record option res" where
  "read_record f at eof =
     need (at \<le> eof) ''record offset past EOF'' (
     if eof - at < 64 then Inr None
     else bindR (read_bytes f at 64) (\<lambda>h.
       need (slice 0 4 h = ''FFR0'') ''invalid record magic'' (
       need (load_at h 60 4 = unat (crc (slice 0 60 h))) ''invalid record header checksum'' (
       let len = load_at h 8 4; n = load_at h 12 4 in
       need (80 \<le> len \<and> len \<le> 1024 * 1024 \<and> len mod 8 = 0 \<and> n \<le> len - 80 \<and> len = record_size n)
         ''invalid record length'' (
       need (len \<le> span - (at - log_base) mod span) ''record crosses segment boundary'' (
       if eof - at < len then Inr None
       else bindR (read_bytes f at len) (\<lambda>b.
         need (load_at b 6 2 = 1 \<and> load_at b 56 4 = 0) ''unsupported record schema or flags'' (
         need (load_at b (len - 12) 4 = len \<and> slice (len - 8) 8 b = ''FFREND00'') ''invalid record trailer'' (
         need (load_at b (len - 16) 4 = unat (crc (slice 64 n b))) ''invalid payload checksum'' (
         need (zeros (slice (64 + n) (len - 16 - (64 + n)) b)) ''nonzero record padding'' (
         Inr (Some \<lparr>r_type = load_at b 4 2, r_sequence = of_nat (load_at b 16 8), r_oid = oid_at b 24,
                    r_payload = slice 64 n b, r_encoded = b\<rparr>))))))))))))"

definition segment_header :: "bytes \<Rightarrow> nat \<Rightarrow> bytes" where
  "segment_header repo i =
     (let head = ''FFSEG000'' @ repo @ le_store 8 i @ le_store 8 1 @ replicate 4052 (CHR 0x00) in
      head @ store32 (crc head))"

section \<open>State\<close>

record location =
  loc_payload :: nat
  loc_length :: nat

text \<open>What replay rebuilds; a journal adds the file, its identity and two flags.\<close>

record log_state =
  lg_sequence :: u64
  lg_end :: nat
  lg_last :: oid
  lg_roots :: "(string, oid) smap"
  lg_objects :: "(oid, location) smap"
  lg_replayed :: u64

record fjournal = log_state +
  fj_medium :: medium
  fj_repository :: bytes
  fj_tail :: bool
  fj_poisoned :: bool

record checkpoint =
  ck_offset :: nat
  ck_length :: nat
  ck_sequence :: u64
  ck_replay_start :: nat
  ck_hash :: oid

definition empty_log :: log_state where
  "empty_log = \<lparr>lg_sequence = 0, lg_end = log_base, lg_last = 0, lg_roots = [], lg_objects = [], lg_replayed = 0\<rparr>"

section \<open>Replay\<close>

record replay = log_state +
  rp_at :: nat
  rp_phase :: nat
  rp_begin :: nat
  rp_prepare_at :: nat
  rp_prep_payload :: bytes
  rp_prep_size :: nat
  rp_pending :: "(oid, location) smap"
  rp_changes :: "(string, oid option) smap"
  rp_batch :: bytes

definition replay_data :: "(bytes \<Rightarrow> oid) \<Rightarrow> log_record \<Rightarrow> replay \<Rightarrow> replay res" where
  "replay_data sha r s =
     (let p = r_payload r; v = drop 4 p in
      need (4 \<le> length p \<and> length p \<le> max_payload + 4) ''invalid DATA eof'' (
      need (load_at p 0 2 = 4 \<and> load_at p 2 2 = 0) ''unsupported object type'' (
      need (object_hash sha v = r_oid r) ''object identity mismatch'' (
      need (length (rp_pending s) < 64 \<and> map_of (rp_pending s) (r_oid r) = None) ''duplicate or excess batch objects'' (
      Inr (s\<lparr>rp_pending := put (r_oid r) \<lparr>loc_payload = rp_at s, loc_length = length (r_encoded r)\<rparr> (rp_pending s),
             rp_batch := rp_batch s @ r_encoded r, rp_phase := 1\<rparr>))))))"

text \<open>The entries of a prepare record from the cursor on: the last key, the changes and the
  pending objects they name.\<close>

primrec prepare_entries ::
    "nat \<Rightarrow> nat \<Rightarrow> replay \<Rightarrow> bytes \<Rightarrow> nat \<Rightarrow> string option \<Rightarrow> (string, oid option) smap \<Rightarrow> (oid, bool) smap \<Rightarrow>
      (nat \<times> (string, oid option) smap \<times> (oid, bool) smap) res" where
  "prepare_entries 0 type s p cursor previous changes referenced = Inr (cursor, changes, referenced)"
| "prepare_entries (Suc count) type s p cursor previous changes referenced =
     need (cursor \<le> length p \<and> 8 \<le> length p - cursor) ''truncated batch entry'' (
     let oper = load_at p cursor 4; n = load_at p (cursor + 4) 4; cursor = cursor + 8 in
     need ((oper = 1 \<or> oper = 2) \<and> 0 < n \<and> n \<le> 1024 \<and> n + 32 \<le> length p - cursor) ''invalid batch entry'' (
     let key = slice cursor n p; i = oid_at p (cursor + n) in
     need (previous = None \<or> the previous < key) ''batch keys must be unique and sorted'' (
     if oper = 1 then
       need (map_of (rp_pending s) i \<noteq> None \<or> type = 8 \<and> map_of (lg_objects s) i \<noteq> None) ''batch references missing object'' (
       prepare_entries count type s p (cursor + n + 32) (Some key) (emplace key (Some i) changes)
         (if map_of (rp_pending s) i \<noteq> None then put i True referenced else referenced))
     else
       need (i = 0 \<and> map_of (lg_roots s) key \<noteq> None) ''invalid batch deletion'' (
       prepare_entries count type s p (cursor + n + 32) (Some key) (emplace key None changes) referenced))))"

definition prepare_changes :: "nat \<Rightarrow> bytes \<Rightarrow> replay \<Rightarrow> (string, oid option) smap res" where
  "prepare_changes type p s =
     (if type = 2 then
        let n = load_at p 32 4; i = oid_at p (36 + n) in
        need (0 < n \<and> n \<le> 1024 \<and> length p = 68 + n \<and> length (rp_pending s) = 1) ''invalid legacy prepare'' (
        need (map_of (rp_pending s) i \<noteq> None) ''prepare object mismatch'' (
        Inr (emplace (slice 36 n p) (Some i) (rp_changes s))))
      else
        need (44 \<le> length p \<and> load_at p 32 8 = unat (lg_sequence s)) ''batch sequence precondition mismatch'' (
        let count = load_at p 40 4 in
        need (0 < count \<and> count \<le> 64) ''invalid batch count'' (
        bindR (prepare_entries count type s p 44 None (rp_changes s) []) (\<lambda>(cursor, changes, referenced).
        need (cursor = length p \<and> length referenced = length (rp_pending s)) ''extra batch data'' (Inr changes)))))"

definition replay_prepare :: "log_record \<Rightarrow> replay \<Rightarrow> replay res" where
  "replay_prepare r s =
     (let p = r_payload r in
      need (r_oid r = 0 \<and> 36 \<le> length p) ''invalid prepare record'' (
      need (oid_at p 0 = lg_last s) ''prepare predecessor mismatch'' (
      bindR (prepare_changes (r_type r) p s) (\<lambda>changes.
      Inr (s\<lparr>rp_changes := changes, rp_prepare_at := rp_at s, rp_batch := rp_batch s @ r_encoded r,
             rp_prep_payload := p, rp_prep_size := length (r_encoded r), rp_phase := 2\<rparr>)))))"

definition replay_commit :: "(bytes \<Rightarrow> oid) \<Rightarrow> log_record \<Rightarrow> replay \<Rightarrow> replay res" where
  "replay_commit sha r s =
     (let p = r_payload r in
      need (rp_phase s = 2 \<and> r_type r = 3 \<and> r_oid r = 0 \<and> length p = 136) ''expected commit record'' (
      need (load_at p 0 8 = unat (r_sequence r) \<and> oid_at p 8 = lg_last s) ''commit predecessor mismatch'' (
      need (load_at p 40 8 = rp_prepare_at s \<and> load_at p 48 4 = rp_prep_size s \<and> load_at p 52 4 = 0)
        ''commit prepare location mismatch'' (
      need (oid_at p 56 = sha (rp_prep_payload s) \<and> load_at p 88 8 = rp_begin s \<and> load_at p 96 8 = rp_at s \<and>
          oid_at p 104 = sha (rp_batch s)) ''commit batch mismatch'' (
      Inr (s\<lparr>lg_objects := fold (\<lambda>(i, l). put i l) (rp_pending s) (lg_objects s),
             lg_roots := apply_changes (rp_changes s) (lg_roots s), lg_replayed := lg_replayed s + 1,
             lg_sequence := r_sequence r, lg_last := tagged sha ''forkfs.commit.v0'' p,
             lg_end := rp_at s + length (r_encoded r), rp_phase := 0\<rparr>))))))"

definition replay_record :: "(bytes \<Rightarrow> oid) \<Rightarrow> log_record \<Rightarrow> replay \<Rightarrow> replay res" where
  "replay_record sha r s =
     (let p = r_payload r; next = rp_at s + length (r_encoded r) in
      if rp_phase s = 0 \<and> r_type r = 5 then
        need (r_sequence r = lg_sequence s \<and> r_oid r = 0 \<and> 48 \<le> length p \<and> load_at p 0 8 = unat (lg_sequence s) \<and>
            oid_at p 8 = lg_last s) ''invalid checkpoint in replay'' (
        Inr (s\<lparr>rp_at := next, lg_end := next\<rparr>))
      else
        need (lg_sequence s \<noteq> - 1 \<and> r_sequence r = lg_sequence s + 1) ''journal sequence gap'' (
        let s = (if rp_phase s = 0 then s\<lparr>rp_begin := rp_at s, rp_batch := [], rp_pending := [], rp_changes := []\<rparr> else s) in
        bindR (if rp_phase s < 2 \<and> r_type r = 1 then replay_data sha r s
               else if rp_phase s < 2 \<and> (r_type r = 2 \<or> r_type r = 7 \<or> r_type r = 8) then replay_prepare r s
               else replay_commit sha r s) (\<lambda>s.
        need (length (rp_batch s) \<le> 2 * 1024 * 1024) ''transaction batch too large'' (
        Inr (s\<lparr>rp_at := next\<rparr>)))))"

text \<open>One turn of the replay loop; \<open>None\<close> leaves it.\<close>

definition replay_step :: "(bytes \<Rightarrow> oid) \<Rightarrow> bytes \<Rightarrow> bytes \<Rightarrow> replay \<Rightarrow> replay option res" where
  "replay_step sha repo f s =
     (let at = rp_at s; eof = length f; into = (at - log_base) mod span in
      if into = 0 then
        need (rp_phase s = 0) ''transaction spans segments in unsupported profile'' (
        if eof - at < header_size then Inr None
        else bindR (read_bytes f at header_size) (\<lambda>h.
          need (h = segment_header repo ((at - log_base) div span)) ''invalid segment header'' (
          Inr (Some (s\<lparr>rp_at := at + header_size\<rparr>)))))
      else bindR (read_bytes f at (min 4 (eof - at))) (\<lambda>start.
        if zeros start then
          need (rp_phase s = 0) ''padding inside transaction'' (
          bindR (read_bytes f at (min (span - into) (eof - at))) (\<lambda>pad.
          need (zeros pad) ''invalid segment padding'' (
          Inr (Some (s\<lparr>rp_at := at + length pad\<rparr>)))))
        else bindR (read_record f at eof) (\<lambda>r. case r of
            None \<Rightarrow> Inr None
          | Some r \<Rightarrow> bindR (replay_record sha r s) (\<lambda>s. Inr (Some s)))))"

lemma read_record_length:
  assumes "read_record f at eof = Inr (Some r)"
  shows "80 \<le> length (r_encoded r)"
  using assms by (auto simp: read_record_def read_bytes_def Let_def split: if_splits)

lemma replay_record_at:
  "replay_record sha r s = Inr s' \<Longrightarrow> rp_at s' = rp_at s + length (r_encoded r)"
  by (auto simp: replay_record_def Let_def split: if_splits)

lemma replay_step_advances:
  assumes "replay_step sha repo f s = Inr (Some s')" and "rp_at s < length f"
  shows "rp_at s < rp_at s'"
  using assms
  by (auto simp: replay_step_def Let_def read_bytes_def split: if_splits option.splits
      dest!: replay_record_at read_record_length)

function replay_loop :: "(bytes \<Rightarrow> oid) \<Rightarrow> bytes \<Rightarrow> bytes \<Rightarrow> replay \<Rightarrow> replay res" where
  "replay_loop sha repo f s =
     (if length f \<le> rp_at s then Inr s
      else case replay_step sha repo f s of
        Inl e \<Rightarrow> Inl e | Inr None \<Rightarrow> Inr s | Inr (Some s') \<Rightarrow> replay_loop sha repo f s')"
  by pat_completeness auto
termination
proof (relation "measure (\<lambda>(sha, repo, f, s). length f - rp_at s)", goal_cases)
  case (2 sha repo f s x s')
  then show ?case using replay_step_advances [of sha repo f s s'] by simp
qed simp

declare replay_loop.simps [simp del]

section \<open>Checkpoints\<close>

text \<open>The object index and the root index of a checkpoint payload.\<close>

primrec restore_objects ::
    "nat \<Rightarrow> bytes \<Rightarrow> nat \<Rightarrow> nat \<Rightarrow> oid option \<Rightarrow> (oid, location) smap \<Rightarrow> (nat \<times> (oid, location) smap) res" where
  "restore_objects 0 p limit at previous objects = Inr (at, objects)"
| "restore_objects (Suc count) p limit at previous objects =
     (let i = oid_at p at; off = load_at p (at + 32) 8; len = load_at p (at + 40) 4 in
      need (i \<noteq> 0 \<and> (previous = None \<or> the previous < i)) ''unordered checkpoint objects'' (
      need (log_base \<le> off \<and> off < limit \<and> len \<le> limit - off \<and> 88 \<le> len \<and> len \<le> max_payload + 88 \<and>
          off mod 8 = 0 \<and> len mod 8 = 0 \<and> header_size \<le> (off - log_base) mod span \<and>
          len \<le> span - (off - log_base) mod span) ''invalid object location'' (
      restore_objects count p limit (at + 44) (Some i) (emplace i \<lparr>loc_payload = off, loc_length = len\<rparr> objects))))"

primrec restore_roots ::
    "nat \<Rightarrow> bytes \<Rightarrow> (oid, location) smap \<Rightarrow> nat \<Rightarrow> string option \<Rightarrow> (string, oid) smap \<Rightarrow> (nat \<times> (string, oid) smap) res" where
  "restore_roots 0 p objects at previous roots = Inr (at, roots)"
| "restore_roots (Suc count) p objects at previous roots =
     need (at \<le> length p \<and> 4 \<le> length p - at) ''truncated root index'' (
     let n = load_at p at 4; at = at + 4 in
     need (0 < n \<and> n \<le> 1024 \<and> n + 32 \<le> length p - at) ''invalid root index entry'' (
     let key = slice at n p; i = oid_at p (at + n) in
     need ((previous = None \<or> the previous < key) \<and> map_of objects i \<noteq> None) ''invalid root reference'' (
     restore_roots count p objects (at + n + 32) (Some key) (emplace key i roots))))"

definition restore_checkpoint :: "(bytes \<Rightarrow> oid) \<Rightarrow> bytes \<Rightarrow> bytes \<Rightarrow> checkpoint \<Rightarrow> log_state res" where
  "restore_checkpoint sha repo f c =
     (let eof = length f; at = ck_offset c; segment = (at - log_base) div span in
      need (log_base \<le> at \<and> at \<le> eof \<and> ck_length c \<le> eof - at \<and> ck_replay_start c = at + ck_length c)
        ''invalid checkpoint range'' (
      need (header_size \<le> (at - log_base) mod span) ''checkpoint overlaps segment header'' (
      bindR (read_bytes f (log_base + segment * span) header_size) (\<lambda>h.
      need (h = segment_header repo segment) ''invalid checkpoint segment'' (
      bindR (read_record f at eof) (\<lambda>found. case found of
          None \<Rightarrow> Inl (Runtime_error ''invalid published checkpoint'')
        | Some r \<Rightarrow>
            let p = r_payload r in
            need (r_type r = 5 \<and> r_oid r = 0 \<and> r_sequence r = ck_sequence c \<and> length (r_encoded r) = ck_length c \<and>
                sha p = ck_hash c) ''invalid published checkpoint'' (
            need (48 \<le> length p \<and> load_at p 0 8 = unat (ck_sequence c)) ''invalid checkpoint sequence'' (
            need ((ck_sequence c = 0) = (oid_at p 8 = 0)) ''invalid checkpoint commit identity'' (
            let objects = load_at p 40 4; roots = load_at p 44 4 in
            need (objects \<le> (length p - 48) div 44 \<and> roots \<le> (length p - 48 - objects * 44) div 37)
              ''invalid checkpoint counts'' (
            bindR (restore_objects objects p at 48 None []) (\<lambda>(next, os).
            bindR (restore_roots roots p os next None []) (\<lambda>(next, rs).
            need (next = length p) ''unexpected checkpoint suffix'' (
            Inr \<lparr>lg_sequence = ck_sequence c, lg_end = ck_replay_start c, lg_last = oid_at p 8, lg_roots = rs,
                 lg_objects = os, lg_replayed = 0\<rparr>)))))))))))))"

section \<open>Opening\<close>

definition start_replay :: "log_state \<Rightarrow> replay" where
  "start_replay g = \<lparr>lg_sequence = lg_sequence g, lg_end = lg_end g, lg_last = lg_last g, lg_roots = lg_roots g,
     lg_objects = lg_objects g, lg_replayed = lg_replayed g, rp_at = lg_end g, rp_phase = 0, rp_begin = 0,
     rp_prepare_at = 0, rp_prep_payload = [], rp_prep_size = 0, rp_pending = [], rp_changes = [], rp_batch = []\<rparr>"

definition opened :: "medium \<Rightarrow> bytes \<Rightarrow> replay \<Rightarrow> fjournal" where
  "opened m repo s = \<lparr>lg_sequence = lg_sequence s, lg_end = lg_end s, lg_last = lg_last s, lg_roots = lg_roots s,
     lg_objects = lg_objects s, lg_replayed = lg_replayed s, fj_medium = m, fj_repository = repo,
     fj_tail = (length (md_file m) \<noteq> lg_end s), fj_poisoned = False\<rparr>"

definition open_journal :: "(bytes \<Rightarrow> oid) \<Rightarrow> medium \<Rightarrow> bytes \<Rightarrow> checkpoint \<Rightarrow> fjournal res" where
  "open_journal sha m repo c =
     (let f = md_file m in
      need (log_base \<le> length f) ''truncated container'' (
      bindR (if ck_offset c \<noteq> 0 then restore_checkpoint sha repo f c else Inr empty_log) (\<lambda>g.
      let at = lg_end g; segment = (at - log_base) div span in
      bindR (if log_base < at \<and> (at - log_base) mod span \<noteq> 0 then
               bindR (read_bytes f (log_base + segment * span) header_size) (\<lambda>h.
               need (h = segment_header repo segment) ''invalid replay segment'' (Inr ()))
             else Inr ()) (\<lambda>_.
      bindR (replay_loop sha repo f (start_replay g)) (\<lambda>s. Inr (opened m repo s))))))"

section \<open>Writing\<close>

text \<open>Whether the next batch opens a segment, and where it or the segment starts.\<close>

definition place :: "nat \<Rightarrow> nat \<Rightarrow> bool \<times> nat" where
  "place end want =
     (let into = (end - log_base) mod span; fresh = (into = 0 \<or> span - into < want) in
      (fresh, if fresh \<and> into \<noteq> 0 then end + (span - into) else end))"

primrec write_chunks :: "nat \<Rightarrow> bytes list \<Rightarrow> (medium, unit) op" where
  "write_chunks at [] = returnS ()"
| "write_chunks at (b # bs) = bindS (write_bytes at b) (\<lambda>_. bindS sync_file (\<lambda>_. write_chunks (at + length b) bs))"

definition append_log :: "string \<Rightarrow> fjournal \<Rightarrow> bool \<Rightarrow> nat \<Rightarrow> bytes list \<Rightarrow> (medium, unit) op" where
  "append_log msg j fresh at chunks =
     (let end = lg_end j in
      bindS (if fj_tail j then bindS (truncate_file msg end) (\<lambda>_. sync_file) else returnS ()) (\<lambda>_.
      bindS (if fresh then
               bindS (if end < at then write_bytes end (replicate (at - end) (CHR 0x00)) else returnS ()) (\<lambda>_.
               write_bytes at (segment_header (fj_repository j) ((at - log_base) div span)))
             else returnS ()) (\<lambda>_.
      write_chunks (at + (if fresh then header_size else 0)) chunks)))"

text \<open>The \<^verbatim>\<open>try\<close> block of a publication: the in-memory state changes only after the last sync; any
  failure poisons the journal.\<close>

definition publish :: "string \<Rightarrow> bool \<Rightarrow> nat \<Rightarrow> bytes list \<Rightarrow> (fjournal \<Rightarrow> fjournal) \<Rightarrow> (fjournal, unit) op" where
  "publish msg fresh at chunks committed j =
     (case append_log msg j fresh at chunks (fj_medium j) of
        (Inr _, m) \<Rightarrow> (Inr (), (committed j)\<lparr>fj_medium := m, fj_tail := False\<rparr>)
      | (Inl e, m) \<Rightarrow> (Inl e, j\<lparr>fj_medium := m, fj_poisoned := True\<rparr>))"

definition commit_payload :: "u64 \<Rightarrow> oid \<Rightarrow> nat \<Rightarrow> nat \<Rightarrow> oid \<Rightarrow> nat \<Rightarrow> nat \<Rightarrow> oid \<Rightarrow> bytes" where
  "commit_payload seq prev prepare_at prepare_size prepare_hash begin commit_at batch_hash =
     store64 seq @ oid_bytes prev @ le_store 8 prepare_at @ le_store 4 prepare_size @ le_store 4 0 @
     oid_bytes prepare_hash @ le_store 8 begin @ le_store 8 commit_at @ oid_bytes batch_hash"

definition data_payload :: "bytes \<Rightarrow> bytes" where
  "data_payload v = le_store 2 4 @ le_store 2 0 @ v"

definition healthyF :: "(fjournal, 'a) op \<Rightarrow> (fjournal, 'a) op" where
  "healthyF k = (\<lambda>j. needS (\<not> fj_poisoned j) ''journal requires reopen after write failure'' k j)"

text \<open>Seal a batch of encoded records with its commit record and publish both.\<close>

definition seal ::
    "(bytes \<Rightarrow> oid) \<Rightarrow> bytes \<Rightarrow> nat \<Rightarrow> bytes \<Rightarrow> (nat \<Rightarrow> fjournal \<Rightarrow> fjournal) \<Rightarrow> (fjournal, unit) op" where
  "seal sha batch prepare_relative prepare committed =
     bindS getS (\<lambda>j.
     let (fresh, at) = place (lg_end j) (length batch + 216);
         begin = at + (if fresh then header_size else 0);
         seq = lg_sequence j + 1;
         p = commit_payload seq (lg_last j) (begin + prepare_relative) (record_size (length prepare)) (sha prepare)
           begin (begin + length batch) (sha batch);
         commit = encode_record 3 seq p 0 in
     needS (at \<le> max_offset - span) ''container offset exhausted'' (
     publish ''truncate uncommitted tail'' fresh at [batch, commit] (\<lambda>j. (committed begin j)\<lparr>lg_sequence := seq,
       lg_last := tagged sha ''forkfs.commit.v0'' p, lg_end := begin + length batch + length commit\<rparr>)))"

definition put_prepare :: "oid \<Rightarrow> string \<Rightarrow> oid \<Rightarrow> bytes" where
  "put_prepare prev key i = oid_bytes prev @ le_store 4 (length key) @ key @ oid_bytes i"

definition file_put :: "(bytes \<Rightarrow> oid) \<Rightarrow> string \<Rightarrow> bytes \<Rightarrow> (fjournal, unit) op" where
  "file_put sha key v = healthyF (
     needS (key \<noteq> [] \<and> length key \<le> 1024) ''root name must be 1..1024 bytes'' (
     needS (length v \<le> max_payload) ''object exceeds 256 KiB'' (
     bindS getS (\<lambda>j.
     needS (lg_sequence j \<noteq> - 1) ''transaction sequence exhausted'' (
     let i = object_hash sha v; seq = lg_sequence j + 1;
         object = encode_record 1 seq (data_payload v) i;
         p = put_prepare (lg_last j) key i in
     seal sha (object @ encode_record 2 seq p 0) (length object) p (\<lambda>begin j.
       j\<lparr>lg_objects := put i \<lparr>loc_payload = begin, loc_length = length object\<rparr> (lg_objects j),
         lg_roots := put key i (lg_roots j)\<rparr>))))))"

section \<open>Reading\<close>

definition read_object :: "(bytes \<Rightarrow> oid) \<Rightarrow> fjournal \<Rightarrow> oid \<Rightarrow> bytes res" where
  "read_object sha j i = (case map_of (lg_objects j) i of
       None \<Rightarrow> Inl (Runtime_error ''object not indexed'')
     | Some l \<Rightarrow>
         bindR (read_record (md_file (fj_medium j)) (loc_payload l) (loc_payload l + loc_length l)) (\<lambda>found. case found of
             None \<Rightarrow> Inl (Runtime_error ''invalid indexed object'')
           | Some r \<Rightarrow>
               let p = r_payload r; v = drop 4 p in
               need (r_type r = 1 \<and> length (r_encoded r) = loc_length l \<and> 0 < r_sequence r \<and> r_sequence r \<le> lg_sequence j \<and>
                   r_oid r = i \<and> 4 \<le> length p \<and> length p \<le> max_payload + 4 \<and> load_at p 0 2 = 4 \<and> load_at p 2 2 = 0)
                 ''invalid indexed object'' (
               need (object_hash sha v = i) ''indexed object hash mismatch'' (Inr v))))"

definition healthyR :: "fjournal \<Rightarrow> 'a res \<Rightarrow> 'a res" where
  "healthyR j k = need (\<not> fj_poisoned j) ''journal requires reopen after write failure'' k"

definition file_root_object :: "fjournal \<Rightarrow> string \<Rightarrow> oid res" where
  "file_root_object j key = healthyR j (case map_of (lg_roots j) key of
     None \<Rightarrow> Inl (Runtime_error ''object root not found'') | Some i \<Rightarrow> Inr i)"

definition file_get_object :: "(bytes \<Rightarrow> oid) \<Rightarrow> fjournal \<Rightarrow> oid \<Rightarrow> bytes res" where
  "file_get_object sha j i = healthyR j (read_object sha j i)"

definition file_contains :: "fjournal \<Rightarrow> string \<Rightarrow> bool res" where
  "file_contains j key = healthyR j (Inr (map_of (lg_roots j) key \<noteq> None))"

definition file_keys :: "fjournal \<Rightarrow> string \<Rightarrow> string list res" where
  "file_keys j p = healthyR j (Inr (takeWhile (prefix p) (dropWhile (\<lambda>k. k < p) (map fst (lg_roots j)))))"

definition file_get :: "(bytes \<Rightarrow> oid) \<Rightarrow> fjournal \<Rightarrow> string \<Rightarrow> bytes res" where
  "file_get sha j key = healthyR j (case map_of (lg_roots j) key of
     None \<Rightarrow> Inl (Runtime_error ''object root not found'') | Some i \<Rightarrow> read_object sha j i)"

definition file_verify :: "(bytes \<Rightarrow> oid) \<Rightarrow> fjournal \<Rightarrow> unit res" where
  "file_verify sha j = healthyR j (foldR (\<lambda>(i, _) _. bindR (read_object sha j i) (\<lambda>_. Inr ())) (lg_objects j) ())"

section \<open>Batches\<close>

definition batch_mutation ::
    "(bytes \<Rightarrow> oid) \<Rightarrow> fjournal \<Rightarrow> mutation \<Rightarrow> jbatch \<times> bool \<Rightarrow> (jbatch \<times> bool) res" where
  "batch_mutation sha j m = (\<lambda>(t, references).
     need (m_key m \<noteq> [] \<and> length (m_key m) \<le> 1024) ''root name must be 1..1024 bytes'' (
     need (map_of (jb_changes t) (m_key m) = None) ''duplicate mutation key'' (
     need (\<not> (m_value m \<noteq> None \<and> m_reference m \<noteq> None)) ''mutation has both value and reference'' (
     case m_reference m of
       Some i \<Rightarrow>
         need (map_of (lg_objects j) i \<noteq> None) ''reference object not committed'' (
         bindR (read_object sha j i) (\<lambda>_. Inr (add_change (m_key m) (Some i) t, True)))
     | None \<Rightarrow> (case m_value m of
         Some v \<Rightarrow>
           need (length v \<le> max_payload) ''object exceeds 256 KiB'' (
           let t1 = add_value sha v t in
           need (jb_total t1 \<le> 1024 * 1024) ''batch values exceed 1 MiB'' (
           Inr (add_change (m_key m) (Some (object_hash sha v)) t1, references)))
       | None \<Rightarrow>
           need (map_of (lg_roots j) (m_key m) \<noteq> None) ''cannot delete absent root'' (
           Inr (add_change (m_key m) None t, references)))))))"

definition data_record :: "u64 \<Rightarrow> oid \<times> bytes \<Rightarrow> bytes" where
  "data_record seq = (\<lambda>(i, v). encode_record 1 seq (data_payload v) i)"

definition data_records :: "u64 \<Rightarrow> (oid, bytes) smap \<Rightarrow> bytes \<times> (oid, location) smap" where
  "data_records seq values = fold (\<lambda>x (batch, locations). let b = data_record seq x in
     (batch @ b, put (fst x) \<lparr>loc_payload = length batch, loc_length = length b\<rparr> locations)) values ([], [])"

definition change_entry :: "string \<times> oid option \<Rightarrow> bytes" where
  "change_entry = (\<lambda>(key, i). le_store 4 (if i \<noteq> None then 1 else 2) @ le_store 4 (length key) @ key @
     oid_bytes (case i of None \<Rightarrow> 0 | Some i \<Rightarrow> i))"

definition prepare_payload :: "oid \<Rightarrow> u64 \<Rightarrow> (string, oid option) smap \<Rightarrow> bytes" where
  "prepare_payload prev expected changes =
     oid_bytes prev @ store64 expected @ le_store 4 (length changes) @ concat (map change_entry changes)"

definition file_transact :: "(bytes \<Rightarrow> oid) \<Rightarrow> u64 \<Rightarrow> mutation list \<Rightarrow> (fjournal, unit) op" where
  "file_transact sha expected ms = healthyF (
     bindS getS (\<lambda>j.
     needS (expected = lg_sequence j) ''transaction conflict: sequence changed'' (
     needS (lg_sequence j \<noteq> - 1) ''transaction sequence exhausted'' (
     needS (ms \<noteq> [] \<and> length ms \<le> 64) ''batch requires 1..64 mutations'' (
     bindS (liftS (foldR (batch_mutation sha j) ms (empty_batch, False))) (\<lambda>(t, references).
     let seq = lg_sequence j + 1; (datas, locations) = data_records seq (jb_values t);
         p = prepare_payload (lg_last j) expected (jb_changes t);
         batch = datas @ encode_record (if references then 8 else 7) seq p 0 in
     needS (length batch \<le> 2 * 1024 * 1024) ''transaction batch too large'' (
     seal sha batch (length datas) p (\<lambda>begin j.
       j\<lparr>lg_objects := fold (\<lambda>(i, l). put i (l\<lparr>loc_payload := begin + loc_payload l\<rparr>)) locations (lg_objects j),
         lg_roots := apply_changes (jb_changes t) (lg_roots j)\<rparr>))))))))"

definition index_entry :: "oid \<times> location \<Rightarrow> bytes" where
  "index_entry = (\<lambda>(i, l). oid_bytes i @ le_store 8 (loc_payload l) @ le_store 4 (loc_length l))"

definition root_entry :: "string \<times> oid \<Rightarrow> bytes" where
  "root_entry = (\<lambda>(key, i). le_store 4 (length key) @ key @ oid_bytes i)"

definition checkpoint_payload :: "'a log_state_scheme \<Rightarrow> bytes" where
  "checkpoint_payload g = store64 (lg_sequence g) @ oid_bytes (lg_last g) @ le_store 4 (length (lg_objects g)) @
     le_store 4 (length (lg_roots g)) @ concat (map index_entry (lg_objects g)) @ concat (map root_entry (lg_roots g))"

definition file_checkpoint :: "(bytes \<Rightarrow> oid) \<Rightarrow> (fjournal, checkpoint) op" where
  "file_checkpoint sha = healthyF (
     bindS getS (\<lambda>j.
     let p = checkpoint_payload j; b = encode_record 5 (lg_sequence j) p 0;
         (fresh, at) = place (lg_end j) (length b); begin = at + (if fresh then header_size else 0) in
     needS (length p \<le> 1024 * 1024 - 87) ''checkpoint exceeds single-record profile limit'' (
     needS (at \<le> max_offset - span) ''container offset exhausted'' (
     bindS (publish ''truncate checkpoint tail'' fresh at [b] (\<lambda>j. j\<lparr>lg_end := begin + length b\<rparr>)) (\<lambda>_.
     returnS \<lparr>ck_offset = begin, ck_length = length b, ck_sequence = lg_sequence j, ck_replay_start = begin + length b,
              ck_hash = sha p\<rparr>)))))"

end
