(* ===== verification/File_Journal_Laws.thy ===== *)
theory File_Journal_Laws
  imports File_Journal
begin

text \<open>
  Laws of the single-file journal: encoded records read back, replay of a file depends only on the
  bytes it has passed, and a file that ends inside an unfinished batch replays to the state
  before the batch.
\<close>

section \<open>Fields\<close>

lemma load_at_skip [slices]: "length a \<le> at \<Longrightarrow> load_at (a @ b) at n = load_at b (at - length a) n"
  by (simp add: load_at_def slices)

lemma load_at_left [slices]: "at + n \<le> length a \<Longrightarrow> load_at (a @ b) at n = load_at a at n"
  by (simp add: load_at_def slices)

lemma load_at_field [slices]: "v < 256 ^ n \<Longrightarrow> load_at (le_store n v @ b) 0 n = v"
  by (simp add: load_at_def slices)

lemma load_at_whole [slices]: "v < 256 ^ n \<Longrightarrow> load_at (le_store n v) 0 n = v"
  by (simp add: load_at_def slices)

lemma oid_at_skip [slices]: "length a \<le> at \<Longrightarrow> oid_at (a @ b) at = oid_at b (at - length a)"
  by (simp add: oid_at_def slices)

lemma oid_at_left [slices]: "at + 32 \<le> length a \<Longrightarrow> oid_at (a @ b) at = oid_at a at"
  by (simp add: oid_at_def slices)

lemma oid_at_field [slices]: "oid_at (oid_bytes i @ b) 0 = i" "oid_at (oid_bytes i) 0 = i"
  by (simp_all add: oid_at_def slices)

section \<open>Records\<close>

text \<open>The first sixty bytes of a record, and everything from the payload on.\<close>

definition record_head :: "nat \<Rightarrow> u64 \<Rightarrow> nat \<Rightarrow> oid \<Rightarrow> bytes" where
  "record_head type seq n i = ''FFR0'' @ le_store 2 type @ le_store 2 1 @ le_store 4 (record_size n) @ le_store 4 n @
     store64 seq @ oid_bytes i @ le_store 4 0"

definition record_body :: "bytes \<Rightarrow> bytes" where
  "record_body p = p @ replicate (record_size (length p) - 80 - length p) (CHR 0x00) @
     store32 (crc p) @ le_store 4 (record_size (length p)) @ ''FFREND00''"

lemma encode_record_parts:
  "encode_record type seq p i =
     record_head type seq (length p) i @ store32 (crc (record_head type seq (length p) i)) @ record_body p"
  by (simp add: encode_record_def record_head_def record_body_def Let_def)

lemma length_record_head [simp]: "length (record_head type seq n i) = 60"
  by (simp add: record_head_def)

lemma record_size_bounds: "80 + n \<le> record_size n" "record_size n \<le> n + 87" "record_size n mod 8 = 0"
proof -
  have "(64 + n + 7) div 8 * 8 + (64 + n + 7) mod 8 = 64 + n + 7" by (rule div_mult_mod_eq)
  moreover have "(64 + n + 7) mod 8 < 8" by simp
  ultimately show "80 + n \<le> record_size n" "record_size n \<le> n + 87"
    unfolding record_size_def by linarith+
  show "record_size n mod 8 = 0" by (simp add: record_size_def mod_add_eq [symmetric])
qed

lemma length_record_body [simp]: "length (record_body p) = record_size (length p) - 64"
  using record_size_bounds(1) [of "length p"] by (simp add: record_body_def)

lemma length_encode_record [simp]: "length (encode_record type seq p i) = record_size (length p)"
  using record_size_bounds(1) [of "length p"] by (simp add: encode_record_parts)

text \<open>The limits the readers check.\<close>

definition record_fits :: "nat \<Rightarrow> bytes \<Rightarrow> bool" where
  "record_fits type p \<longleftrightarrow> type < 65536 \<and> record_size (length p) \<le> 1024 * 1024"

lemma record_head_fields:
  assumes "type < 65536" and "record_size n \<le> 1024 * 1024"
  shows "slice 0 4 (record_head type seq n i @ b) = ''FFR0''"
    "load_at (record_head type seq n i @ b) 4 2 = type"
    "load_at (record_head type seq n i @ b) 6 2 = 1"
    "load_at (record_head type seq n i @ b) 8 4 = record_size n"
    "load_at (record_head type seq n i @ b) 12 4 = n"
    "load_at (record_head type seq n i @ b) 16 8 = unat seq"
    "oid_at (record_head type seq n i @ b) 24 = i"
    "load_at (record_head type seq n i @ b) 56 4 = 0"
proof -
  have "n < 4294967296" using assms(2) record_size_bounds(1) [of n] by simp
  then show "slice 0 4 (record_head type seq n i @ b) = ''FFR0''"
    "load_at (record_head type seq n i @ b) 4 2 = type"
    "load_at (record_head type seq n i @ b) 6 2 = 1"
    "load_at (record_head type seq n i @ b) 8 4 = record_size n"
    "load_at (record_head type seq n i @ b) 12 4 = n"
    "load_at (record_head type seq n i @ b) 16 8 = unat seq"
    "oid_at (record_head type seq n i @ b) 24 = i"
    "load_at (record_head type seq n i @ b) 56 4 = 0"
    using assms by (simp_all add: record_head_def slices slice_def load_at_def oid_at_def)
qed

lemma slice_slice: "at + n \<le> k \<Longrightarrow> slice at n (slice b k f) = slice (b + at) n f"
proof -
  assume "at + n \<le> k"
  then have "min n (k - at) = n" by simp
  then show ?thesis by (simp add: slice_def drop_take add.commute)
qed

lemma record_body_fields:
  assumes "record_size (length p) \<le> 1024 * 1024"
  shows "slice 0 (length p) (record_body p) = p"
    "load_at (record_body p) (record_size (length p) - 80) 4 = unat (crc p)"
    "load_at (record_body p) (record_size (length p) - 76) 4 = record_size (length p)"
    "slice (record_size (length p) - 72) 8 (record_body p) = ''FFREND00''"
    "zeros (slice (length p) (record_size (length p) - 80 - length p) (record_body p))"
  using assms record_size_bounds(1) [of "length p"]
  by (simp_all add: record_body_def slices list_all_iff)

text \<open>The bytes of the file from \<open>at\<close> on that a record occupies.\<close>

definition record_at :: "bytes \<Rightarrow> nat \<Rightarrow> nat \<Rightarrow> u64 \<Rightarrow> bytes \<Rightarrow> oid \<Rightarrow> bool" where
  "record_at f at type seq p i \<longleftrightarrow> record_fits type p \<and> at + record_size (length p) \<le> length f \<and>
     record_size (length p) \<le> span - (at - log_base) mod span \<and>
     slice at (record_size (length p)) f = encode_record type seq p i"

definition log_record_of :: "nat \<Rightarrow> u64 \<Rightarrow> bytes \<Rightarrow> oid \<Rightarrow> log_record" where
  "log_record_of type seq p i =
     \<lparr>r_type = type, r_sequence = seq, r_oid = i, r_payload = p, r_encoded = encode_record type seq p i\<rparr>"

lemma read_record_at:
  assumes at: "record_at f at type seq p i" and eof: "at + record_size (length p) \<le> eof"
  shows "read_record f at eof = Inr (Some (log_record_of type seq p i))"
proof -
  let ?n = "record_size (length p)"
  let ?b = "encode_record type seq p i"
  have fits: "type < 65536" "?n \<le> 1024 * 1024" and len: "at + ?n \<le> length f"
    and seg: "?n \<le> span - (at - log_base) mod span" and b: "slice at ?n f = ?b"
    using at by (simp_all add: record_at_def record_fits_def)
  have n: "80 + length p \<le> ?n" "?n mod 8 = 0" by (simp_all add: record_size_bounds)
  have h: "slice at 64 f = record_head type seq (length p) i @ store32 (crc (record_head type seq (length p) i))"
  proof -
    have "slice at 64 f = slice 0 64 (slice at ?n f)" using n by (subst slice_slice) simp_all
    then show ?thesis unfolding b by (simp add: encode_record_parts slice_def)
  qed
  have fields: "load_at ?b 4 2 = type" "load_at ?b 6 2 = 1" "load_at ?b 56 4 = 0" "load_at ?b 16 8 = unat seq"
      "oid_at ?b 24 = i"
    unfolding encode_record_parts by (simp_all only: record_head_fields [OF fits])
  have body: "slice 64 (length p) ?b = p" "load_at ?b (?n - 16) 4 = unat (crc p)" "load_at ?b (?n - 12) 4 = ?n"
      "slice (?n - 8) 8 ?b = ''FFREND00''" "zeros (slice (64 + length p) (?n - (80 + length p)) ?b)"
    using n record_body_fields [OF fits(2)] by (simp_all add: encode_record_parts slices)
  have head: "slice 0 4 (slice at 64 f) = ''FFR0''" "load_at (slice at 64 f) 60 4 = unat (crc (slice 0 60 (slice at 64 f)))"
      "load_at (slice at 64 f) 8 4 = ?n" "load_at (slice at 64 f) 12 4 = length p"
    unfolding h by (simp_all only: record_head_fields [OF fits]) (simp add: slices)
  have "\<not> eof - at < ?n" "\<not> eof - at < 64" "length p \<le> ?n - 80" "at \<le> eof" "at + 64 \<le> length f"
    using n eof len by linarith+
  then show ?thesis
    using n len fits(2) seg by (simp add: read_record_def read_bytes_def Let_def head b fields body log_record_of_def)
qed

lemma read_record_cut:
  assumes "record_fits type p" and "record_size (length p) \<le> span - (at - log_base) mod span"
    and eof: "at \<le> eof" "eof < at + record_size (length p)" "eof \<le> length f"
    and b: "slice at (eof - at) f = take (eof - at) (encode_record type seq p i)"
  shows "read_record f at eof = Inr None"
proof (cases "eof - at < 64")
  case True
  then show ?thesis using eof by (simp add: read_record_def)
next
  case False
  have fits: "type < 65536" "record_size (length p) \<le> 1024 * 1024"
    using assms by (simp_all add: record_fits_def)
  have n: "80 + length p \<le> record_size (length p)" "record_size (length p) mod 8 = 0" by (simp_all add: record_size_bounds)
  have "slice at 64 f = take 64 (encode_record type seq p i)"
  proof -
    have "slice at 64 f = slice 0 64 (slice at (eof - at) f)" using False by (subst slice_slice) simp_all
    then show ?thesis unfolding b using False by (simp add: slice_def min_def)
  qed
  then have h: "slice at 64 f = record_head type seq (length p) i @ store32 (crc (record_head type seq (length p) i))"
    by (simp add: encode_record_parts)
  have head: "slice 0 4 (slice at 64 f) = ''FFR0''" "load_at (slice at 64 f) 60 4 = unat (crc (slice 0 60 (slice at 64 f)))"
      "load_at (slice at 64 f) 8 4 = record_size (length p)" "load_at (slice at 64 f) 12 4 = length p"
    unfolding h by (simp_all only: record_head_fields [OF fits]) (simp add: slices)
  have "eof - at < record_size (length p)" "at + 64 \<le> length f" "length p \<le> record_size (length p) - 80"
    using n eof False by linarith+
  then show ?thesis
    using n fits False assms(2) eof by (simp add: read_record_def read_bytes_def Let_def head)
qed

section \<open>Files that agree\<close>

lemma slice_agree:
  assumes "take n f = take n f'" and "at + k \<le> n"
  shows "slice at k f = slice at k f'"
proof -
  have "slice at k (take n g) = slice at k g" for g :: "'a list"
    using assms(2) by (simp add: slice_def drop_take min_def)
  then show ?thesis using assms(1) by metis
qed

lemma read_record_some:
  assumes "read_record f at eof = Inr (Some r)" and "len = load_at (slice at 64 f) 8 4"
  shows "r_encoded r = slice at len f" "80 \<le> len" "len mod 8 = 0" "at + len \<le> length f" "\<not> eof - at < 64" "at \<le> eof"
    "\<not> eof - at < len" "at + 64 \<le> length f" "len \<le> span - (at - log_base) mod span"
  using assms by (auto simp: read_record_def read_bytes_def Let_def split: if_splits)

lemma read_record_span:
  assumes "read_record f at eof = Inr (Some r)"
  shows "8 dvd length (r_encoded r)" "at + length (r_encoded r) \<le> length f"
    "length (r_encoded r) \<le> span - (at - log_base) mod span"
  using read_record_some [OF assms refl] by (simp_all add: mod_eq_0_iff_dvd)

lemma read_record_agree:
  assumes r: "read_record f at eof = Inr (Some r)"
    and agree: "take n f = take n f'" "at + length (r_encoded r) \<le> n" "n \<le> length f'" "n \<le> eof'"
  shows "read_record f' at eof' = Inr (Some r)"
proof -
  let ?len = "load_at (slice at 64 f) 8 4"
  note len = read_record_some [OF r refl]
  then have "length (r_encoded r) = ?len" by simp
  then have n: "at + ?len \<le> n" "at + 64 \<le> n" using agree(2) len(2) by simp_all
  then have same: "slice at 64 f' = slice at 64 f" "slice at ?len f' = slice at ?len f"
    using slice_agree [OF agree(1)] by metis+
  have "\<not> eof' - at < 64" "\<not> eof' - at < ?len" "at \<le> eof'" "at + 64 \<le> length f'" "at + ?len \<le> length f'"
    using n agree(3,4) by linarith+
  then have "read_record f' at eof' = read_record f at eof"
    unfolding read_record_def read_bytes_def Let_def using len(4-) by (simp only: same if_True if_False simp_thms sum.case same)
  then show ?thesis using r by simp
qed

section \<open>Turns of the replay loop\<close>

definition log_of :: "'a log_state_scheme \<Rightarrow> u64 \<times> nat \<times> oid \<times> (string, oid) smap \<times> (oid, location) smap" where
  "log_of s = (lg_sequence s, lg_end s, lg_last s, lg_roots s, lg_objects s)"

inductive replays :: "(bytes \<Rightarrow> oid) \<Rightarrow> bytes \<Rightarrow> bytes \<Rightarrow> replay \<Rightarrow> replay \<Rightarrow> bool" for sha repo f where
  here: "replays sha repo f s s"
| turn: "replays sha repo f s t \<Longrightarrow> rp_at t < length f \<Longrightarrow> replay_step sha repo f t = Inr (Some u) \<Longrightarrow> replays sha repo f s u"

lemma replays_trans: "replays sha repo f t u \<Longrightarrow> replays sha repo f s t \<Longrightarrow> replays sha repo f s u"
  by (induction rule: replays.induct) (auto intro: replays.turn)

lemma replays_loop: "replays sha repo f s t \<Longrightarrow> replay_loop sha repo f s = replay_loop sha repo f t"
proof (induction rule: replays.induct)
  case (turn s t u)
  then show ?case by (simp add: replay_loop.simps [of sha repo f t])
qed simp

lemma loop_replays: "replay_loop sha repo f s = Inr t \<Longrightarrow> replays sha repo f s t"
proof (induction sha repo f s rule: replay_loop.induct)
  case (1 sha repo f s)
  show ?case
  proof (cases "length f \<le> rp_at s")
    case True
    with 1 show ?thesis by (simp add: replay_loop.simps [of sha repo f s] replays.here)
  next
    case False
    show ?thesis
    proof (cases "replay_step sha repo f s")
      case (Inl e)
      with 1 False show ?thesis by (simp add: replay_loop.simps [of sha repo f s])
    next
      case (Inr v)
      show ?thesis
      proof (cases v)
        case None
        with 1 False Inr show ?thesis by (simp add: replay_loop.simps [of sha repo f s] replays.here)
      next
        case (Some s')
        then have "replay_loop sha repo f s' = Inr t"
          using 1(2) False Inr by (simp add: replay_loop.simps [of sha repo f s])
        then have "replays sha repo f s' t" using 1(1) False Inr Some by blast
        moreover have "replays sha repo f s s'" using False Inr Some by (auto intro: replays.intros)
        ultimately show ?thesis by (rule replays_trans)
      qed
    qed
  qed
qed

text \<open>What a turn can do to the log: nothing, or settle at the end of a commit or checkpoint record.\<close>

lemma replay_record_log:
  "replay_record sha r s = Inr s' \<Longrightarrow>
     log_of s' = log_of s \<and> lg_end s' = lg_end s \<or> rp_at s' = lg_end s' \<and> rp_phase s' = 0"
  by (auto simp: replay_record_def replay_data_def replay_prepare_def replay_commit_def log_of_def Let_def split: if_splits)

end
