(* ===== verification/File_Journal_Recovery.thy ===== *)
theory File_Journal_Recovery
  imports File_Journal_Laws
begin

text \<open>
  Recovery of the single-file journal. Replay depends only on the bytes it has passed, so the log
  can be cut at its end and continued; a file that ends anywhere inside an unfinished batch
  replays to the state before the batch.
\<close>

section \<open>Turns on files that agree\<close>

lemma lg_end_log_of: "log_of s = log_of t \<Longrightarrow> lg_end s = lg_end t"
  by (simp add: log_of_def)

text \<open>Positions are multiples of eight, except at the end of a file that ends in padding.\<close>

definition settled :: "bytes \<Rightarrow> replay \<Rightarrow> bool" where
  "settled f s \<longleftrightarrow> log_base \<le> lg_end s \<and> lg_end s \<le> rp_at s \<and> 8 dvd lg_end s \<and> (8 dvd rp_at s \<or> rp_at s = length f) \<and>
     rp_at s \<le> length f"

abbreviation into_segment :: "nat \<Rightarrow> nat" where
  "into_segment at \<equiv> (at - log_base) mod span"

lemma into_segment_dvd:
  assumes "8 dvd at"
  shows "8 dvd into_segment at" "8 dvd span - into_segment at"
proof -
  have "8 dvd at - log_base" using assms by (intro dvd_diff_nat) simp_all
  then show a: "8 dvd into_segment at" by (intro dvd_mod) simp_all
  then show "8 dvd span - into_segment at" by (intro dvd_diff_nat) simp_all
qed

lemma into_segment_add:
  assumes "log_base \<le> at" and "n \<le> span - into_segment at"
  shows "into_segment (at + n) = (if into_segment at + n = span then 0 else into_segment at + n)"
proof -
  have "at + n - log_base = (at - log_base) + n" using assms(1) by simp
  then have "into_segment (at + n) = (into_segment at + n) mod span" by (simp only: mod_add_left_eq)
  moreover have "into_segment at < span" by simp
  then have "into_segment at + n \<le> span" using assms(2) by linarith
  ultimately show ?thesis by (simp only: le_eq_less_or_eq) (metis mod_less mod_self)
qed

lemma room_in_segment:
  assumes "8 dvd at"
  shows "8 \<le> span - into_segment at"
proof -
  have "into_segment at < span" by simp
  then have "0 < span - into_segment at" by linarith
  with into_segment_dvd(2) [OF assms] show ?thesis by (rule dvd_imp_le)
qed

lemma replay_step_cases:
  assumes step: "replay_step sha repo f s = Inr (Some s')" and at: "rp_at s < length f"
  obtains (Header) "into_segment (rp_at s) = 0" "rp_phase s = 0" "rp_at s + header_size \<le> length f"
      "slice (rp_at s) header_size f = segment_header repo ((rp_at s - log_base) div span)"
      "s' = s\<lparr>rp_at := rp_at s + header_size\<rparr>"
  | (Pad) k where "into_segment (rp_at s) \<noteq> 0" "rp_phase s = 0" "k = min (span - into_segment (rp_at s)) (length f - rp_at s)"
      "zeros (slice (rp_at s) (min 4 (length f - rp_at s)) f)" "zeros (slice (rp_at s) k f)" "s' = s\<lparr>rp_at := rp_at s + k\<rparr>"
  | (Record) r where "into_segment (rp_at s) \<noteq> 0" "\<not> zeros (slice (rp_at s) (min 4 (length f - rp_at s)) f)"
      "read_record f (rp_at s) (length f) = Inr (Some r)" "replay_record sha r s = Inr s'"
proof (cases "into_segment (rp_at s) = 0")
  case True
  then show ?thesis
    using step by (auto simp: replay_step_def Let_def read_bytes_def intro!: Header split: if_splits)
next
  case into: False
  show ?thesis
  proof (cases "zeros (slice (rp_at s) (min 4 (length f - rp_at s)) f)")
    case True
    show ?thesis
      using step into True at by (intro Pad [OF into _ refl True]) (auto simp: replay_step_def Let_def read_bytes_def split: if_splits)
  next
    case False
    show ?thesis
      using step into False at
      by (auto simp: replay_step_def Let_def read_bytes_def intro!: Record split: if_splits option.splits)
  qed
qed

lemma replay_step_log:
  assumes step: "replay_step sha repo f s = Inr (Some s')" and at: "rp_at s < length f"
  shows "log_of s' = log_of s \<or> rp_at s' = lg_end s' \<and> rp_phase s' = 0"
  by (rule replay_step_cases [OF step at]) (auto simp: log_of_def dest: replay_record_log)

lemma replay_step_settled:
  assumes step: "replay_step sha repo f s = Inr (Some s')" and at: "rp_at s < length f" and s: "settled f s"
  shows "settled f s'"
proof -
  have adv: "rp_at s < rp_at s'" by (rule replay_step_advances [OF step at])
  have dvd: "8 dvd rp_at s" using s at by (simp add: settled_def)
  show ?thesis
  proof (rule replay_step_cases [OF step at])
    fix k assume k: "k = min (span - into_segment (rp_at s)) (length f - rp_at s)" "s' = s\<lparr>rp_at := rp_at s + k\<rparr>"
    have "8 dvd rp_at s + k \<or> rp_at s + k = length f"
    proof (cases "span - into_segment (rp_at s) \<le> length f - rp_at s")
      case True
      then have "k = span - into_segment (rp_at s)" using k(1) by (simp only: min_absorb1)
      then have "8 dvd rp_at s + k" using dvd into_segment_dvd(2) [OF dvd] by (simp only: dvd_add)
      then show ?thesis ..
    qed (use k at in simp)
    moreover have "rp_at s + k \<le> length f" using k(1) at by linarith
    ultimately show ?thesis using k(2) s by (simp add: settled_def)
  next
    fix r assume r: "read_record f (rp_at s) (length f) = Inr (Some r)" "replay_record sha r s = Inr s'"
    then have "8 dvd rp_at s'" "rp_at s' \<le> length f" using dvd by (simp_all add: replay_record_at read_record_span)
    then show ?thesis using replay_record_log [OF r(2)] s adv by (auto simp: settled_def)
  qed (use dvd s in \<open>simp add: settled_def\<close>)
qed

lemma replay_step_header:
  assumes "into_segment (rp_at s) = 0" "rp_phase s = 0" "rp_at s + header_size \<le> length f"
    "slice (rp_at s) header_size f = segment_header repo ((rp_at s - log_base) div span)"
  shows "replay_step sha repo f s = Inr (Some (s\<lparr>rp_at := rp_at s + header_size\<rparr>))"
proof -
  have "\<not> length f - rp_at s < header_size" using assms(3) by linarith
  then show ?thesis using assms by (simp add: replay_step_def Let_def read_bytes_def)
qed

lemma replay_step_pad:
  assumes "into_segment (rp_at s) \<noteq> 0" "rp_phase s = 0" "rp_at s < length f" "8 dvd rp_at s"
    and k: "k = min (span - into_segment (rp_at s)) (length f - rp_at s)" "zeros (slice (rp_at s) k f)"
  shows "replay_step sha repo f s = Inr (Some (s\<lparr>rp_at := rp_at s + k\<rparr>))"
proof -
  have "8 \<le> span - into_segment (rp_at s)" by (rule room_in_segment [OF assms(4)])
  then have four: "min 4 (length f - rp_at s) \<le> k" unfolding k(1) by linarith
  have "slice (rp_at s) (min 4 (length f - rp_at s)) f = take (min 4 (length f - rp_at s)) (slice (rp_at s) k f)"
    using four by (simp add: slice_def min_def)
  then have start: "zeros (slice (rp_at s) (min 4 (length f - rp_at s)) f)"
    using k(2) by (metis append_take_drop_id list_all_append)
  have "k \<le> length f - rp_at s" unfolding k(1) by (rule min.cobounded2)
  then have len: "rp_at s + k \<le> length f" "length (slice (rp_at s) k f) = k" "rp_at s + min 4 (length f - rp_at s) \<le> length f"
    using assms(3) by (linarith, simp, linarith)
  show ?thesis
    unfolding replay_step_def Let_def k(1) [symmetric] read_bytes_def
    using start len assms(1,2) k(2) by simp
qed

lemma replay_step_record:
  assumes "into_segment (rp_at s) \<noteq> 0" "rp_at s < length f" "\<not> zeros (slice (rp_at s) (min 4 (length f - rp_at s)) f)"
    and "read_record f (rp_at s) (length f) = Inr r"
  shows "replay_step sha repo f s = (case r of None \<Rightarrow> Inr None | Some r \<Rightarrow> bindR (replay_record sha r s) (\<lambda>s. Inr (Some s)))"
proof -
  have "rp_at s + min 4 (length f - rp_at s) \<le> length f" using assms(2) by linarith
  then show ?thesis using assms by (simp add: replay_step_def Let_def read_bytes_def)
qed

lemma replay_step_agree:
  assumes step: "replay_step sha repo f s = Inr (Some s')" and at: "rp_at s < length f" and s: "settled f s"
    and agree: "take n f = take n f'" "n \<le> length f'" "rp_at s' \<le> n"
    and last: "rp_at s' < length f \<or> lg_end s' = rp_at s'"
  shows "replay_step sha repo f' s = Inr (Some s')"
proof -
  note same = slice_agree [OF agree(1)]
  have adv: "rp_at s < rp_at s'" using replay_step_advances [OF step at] .
  then have at': "rp_at s < length f'" using agree by linarith
  show ?thesis
  proof (rule replay_step_cases [OF step at])
    assume *: "into_segment (rp_at s) = 0" "rp_phase s = 0"
      "slice (rp_at s) header_size f = segment_header repo ((rp_at s - log_base) div span)"
      "s' = s\<lparr>rp_at := rp_at s + header_size\<rparr>"
    then have "rp_at s + header_size \<le> n" using agree(3) by simp
    then have "slice (rp_at s) header_size f' = slice (rp_at s) header_size f" "rp_at s + header_size \<le> length f'"
      using same agree(2) by (metis, linarith)
    then show ?thesis using * by (simp add: replay_step_header)
  next
    fix k assume *: "into_segment (rp_at s) \<noteq> 0" "rp_phase s = 0" "k = min (span - into_segment (rp_at s)) (length f - rp_at s)"
      "zeros (slice (rp_at s) k f)" "s' = s\<lparr>rp_at := rp_at s + k\<rparr>"
    have "lg_end s' \<noteq> rp_at s'" using *(5) s adv by (simp add: settled_def)
    with last have "rp_at s + k < length f" using *(5) by simp
    with *(3) have k: "k = span - into_segment (rp_at s)" by linarith
    have n: "rp_at s + k \<le> n" using agree(3) *(5) by simp
    then have k': "k = min (span - into_segment (rp_at s)) (length f' - rp_at s)" using k agree(2) by linarith
    have "slice (rp_at s) k f' = slice (rp_at s) k f" using same n by metis
    then show ?thesis
      using replay_step_pad [OF *(1,2) at' _ k'] s at *(4,5) by (simp add: settled_def)
  next
    fix r assume *: "into_segment (rp_at s) \<noteq> 0" "\<not> zeros (slice (rp_at s) (min 4 (length f - rp_at s)) f)"
      "read_record f (rp_at s) (length f) = Inr (Some r)" "replay_record sha r s = Inr s'"
    have len: "80 \<le> length (r_encoded r)" "rp_at s + length (r_encoded r) \<le> n" "rp_at s + length (r_encoded r) \<le> length f"
      using read_record_length [OF *(3)] replay_record_at [OF *(4)] agree(3) read_record_span [OF *(3)] by simp_all
    then have "min 4 (length f - rp_at s) = 4" "min 4 (length f' - rp_at s) = 4" "rp_at s + 4 \<le> n"
      using agree(2) by linarith+
    then have "\<not> zeros (slice (rp_at s) (min 4 (length f' - rp_at s)) f')" using *(2) same by metis
    moreover have "read_record f' (rp_at s) (length f') = Inr (Some r)"
      by (rule read_record_agree [OF *(3) agree(1) len(2) agree(2) agree(2)])
    ultimately show ?thesis using replay_step_record [OF *(1) at'] *(4) by simp
  qed
qed

section \<open>The settled prefix\<close>

text \<open>A run that ends on a settled state can be cut there and continued.\<close>

lemma replays_settled: "replays sha repo f s t \<Longrightarrow> settled f s \<Longrightarrow> settled f t \<and> lg_end s \<le> lg_end t \<and> rp_at s \<le> rp_at t"
proof (induction rule: replays.induct)
  case (turn s t u)
  then have "settled f t" "settled f u" using replay_step_settled [of sha repo f t u] by simp_all
  moreover have "lg_end t \<le> lg_end u" "rp_at t < rp_at u"
    using replay_step_log [OF turn.hyps(3,2)] replay_step_advances [OF turn.hyps(3,2)] \<open>settled f t\<close>
    by (auto simp: settled_def dest: lg_end_log_of)
  ultimately show ?case using turn by simp
qed simp

lemma replays_cut:
  assumes "replays sha repo f s t" "settled f s" "rp_at s = lg_end s" "rp_phase s = 0"
  obtains u where "replays sha repo f s u" "rp_at u = lg_end t" "rp_phase u = 0" "log_of u = log_of t"
  using assms
proof (induction arbitrary: thesis rule: replays.induct)
  case (here s)
  then show ?case using replays.here by metis
next
  case (turn s t u)
  have su: "replays sha repo f s u" using turn.hyps by (rule replays.turn)
  show ?case
  proof (cases "log_of u = log_of t")
    case True
    obtain v where v: "replays sha repo f s v" "rp_at v = lg_end t" "rp_phase v = 0" "log_of v = log_of t"
      using turn.IH turn.prems(2-) by blast
    then show ?thesis using True turn.prems(1) by (metis lg_end_log_of)
  next
    case False
    then show ?thesis using replay_step_log [OF turn.hyps(3,2)] turn.prems(1) [OF su] by simp
  qed
qed

lemma replays_agree:
  assumes "replays sha repo f s t" "settled f s" "rp_at t = lg_end t"
    and agree: "take n f = take n f'" "n \<le> length f'" "n \<le> length f" "rp_at t \<le> n"
  shows "replays sha repo f' s t"
proof -
  have "replays sha repo f' s t \<and> (rp_at t < length f \<or> lg_end t = rp_at t)"
    if "replays sha repo f s t" "rp_at t \<le> n" "rp_at t < length f \<or> lg_end t = rp_at t" for t
    using that assms(2)
  proof (induction rule: replays.induct)
    case (here s)
    then show ?case by (simp add: replays.here)
  next
    case (turn s t u)
    have adv: "rp_at t < rp_at u" by (rule replay_step_advances [OF turn.hyps(3,2)])
    with turn have t: "replays sha repo f' s t" by simp
    have "settled f t" using replays_settled [OF turn.hyps(1) turn.prems(3)] by simp
    then have "replay_step sha repo f' t = Inr (Some u)"
      using replay_step_agree [OF turn.hyps(3,2) _ agree(1,2) turn.prems(1,2)] by blast
    moreover have "rp_at t < length f'" using adv turn.prems(1) agree(2) by linarith
    ultimately show ?case using replays.turn [OF t] turn.prems(2) by blast
  qed
  then show ?thesis using assms by simp
qed

end
