(* ===== verification/File_Journal_Open.thy ===== *)
theory File_Journal_Open
  imports File_Journal_Recovery
begin

text \<open>
  Opening a file continues from a checkpoint or the empty log; a journal that opened can be cut at the
  end of its log and opened again with any prefix of an unfinished write behind it.
\<close>

section \<open>Opening\<close>

text \<open>What opening starts from: a checkpoint or the empty log, with the header of its segment in place.\<close>

definition restored :: "(bytes \<Rightarrow> oid) \<Rightarrow> bytes \<Rightarrow> bytes \<Rightarrow> checkpoint \<Rightarrow> log_state \<Rightarrow> bool" where
  "restored sha repo f c g \<longleftrightarrow>
     (if ck_offset c \<noteq> 0 then restore_checkpoint sha repo f c = Inr g else g = empty_log) \<and>
     (log_base < lg_end g \<and> into_segment (lg_end g) \<noteq> 0 \<longrightarrow>
       read_bytes f (log_base + (lg_end g - log_base) div span * span) header_size =
         Inr (segment_header repo ((lg_end g - log_base) div span)))"

lemma open_journal_iff:
  "open_journal sha m repo c = Inr j \<longleftrightarrow>
     log_base \<le> length (md_file m) \<and> (\<exists>g t. restored sha repo (md_file m) c g \<and>
       replay_loop sha repo (md_file m) (start_replay g) = Inr t \<and> j = opened m repo t)"
  by (auto simp: open_journal_def restored_def Let_def split: if_splits)

lemma read_bytes_agree:
  "take n f = take n f' \<Longrightarrow> n \<le> length f' \<Longrightarrow> at + k \<le> n \<Longrightarrow> read_bytes f at k = Inr b \<Longrightarrow> read_bytes f' at k = Inr b"
  by (auto simp: read_bytes_def dest: slice_agree [where at = at and k = k])

lemma restore_checkpoint_ok:
  assumes "restore_checkpoint sha repo f c = Inr g"
  obtains r where "read_record f (ck_offset c) (length f) = Inr (Some r)" "length (r_encoded r) = ck_length c"
    "lg_end g = ck_offset c + ck_length c" "log_base \<le> ck_offset c" "header_size \<le> into_segment (ck_offset c)"
    "read_bytes f (log_base + (ck_offset c - log_base) div span * span) header_size =
       Inr (segment_header repo ((ck_offset c - log_base) div span))"
  using assms by (auto simp: restore_checkpoint_def Let_def split: if_splits option.splits prod.splits)

lemma segment_start: "log_base \<le> at \<Longrightarrow> log_base + (at - log_base) div span * span + into_segment at = at"
  by (simp add: div_mult_mod_eq add.assoc)

lemma restore_checkpoint_agree:
  assumes g: "restore_checkpoint sha repo f c = Inr g"
    and agree: "take n f = take n f'" "n \<le> length f'" "lg_end g \<le> n"
  shows "restore_checkpoint sha repo f' c = Inr g"
proof -
  obtain r where r: "read_record f (ck_offset c) (length f) = Inr (Some r)" "length (r_encoded r) = ck_length c"
    and e: "lg_end g = ck_offset c + ck_length c" and at: "log_base \<le> ck_offset c" "header_size \<le> into_segment (ck_offset c)"
    and h: "read_bytes f (log_base + (ck_offset c - log_base) div span * span) header_size =
      Inr (segment_header repo ((ck_offset c - log_base) div span))"
    using g by (rule restore_checkpoint_ok)
  have r': "read_record f' (ck_offset c) (length f') = Inr (Some r)"
    using read_record_agree [OF r(1) agree(1) _ agree(2,2)] agree(3) e r(2) by simp
  have "log_base + (ck_offset c - log_base) div span * span + header_size \<le> n"
    using segment_start [OF at(1)] at(2) agree(3) e by linarith
  then have h': "read_bytes f' (log_base + (ck_offset c - log_base) div span * span) header_size =
      Inr (segment_header repo ((ck_offset c - log_base) div span))"
    using read_bytes_agree [OF agree(1,2) _ h] by blast
  have "ck_offset c \<le> length f'" "ck_length c \<le> length f' - ck_offset c" "ck_offset c \<le> length f" "ck_length c \<le> length f - ck_offset c"
    using agree e r read_record_span(2) [OF r(1)] by linarith+
  then have "restore_checkpoint sha repo f' c = restore_checkpoint sha repo f c"
    unfolding restore_checkpoint_def Let_def r(1) r' h h' by (simp only: simp_thms)
  then show ?thesis using g by simp
qed

lemma restored_agree:
  assumes g: "restored sha repo f c g" and f: "log_base \<le> length f" "8 dvd ck_offset c"
  shows "settled f (start_replay g)" "lg_end g \<le> length f"
    "take n f = take n f' \<Longrightarrow> n \<le> length f' \<Longrightarrow> lg_end g \<le> n \<Longrightarrow> restored sha repo f' c g"
proof -
  have ok: "log_base \<le> lg_end g \<and> lg_end g \<le> length f \<and> 8 dvd lg_end g \<and>
      (log_base < lg_end g \<and> into_segment (lg_end g) \<noteq> 0 \<longrightarrow> header_size \<le> into_segment (lg_end g))"
  proof (cases "ck_offset c = 0")
    case True
    then show ?thesis using g f by (simp add: restored_def empty_log_def)
  next
    case False
    then have "restore_checkpoint sha repo f c = Inr g" using g by (simp add: restored_def)
    then obtain r where r: "read_record f (ck_offset c) (length f) = Inr (Some r)" "length (r_encoded r) = ck_length c"
        "lg_end g = ck_offset c + ck_length c" "log_base \<le> ck_offset c" "header_size \<le> into_segment (ck_offset c)"
      by (rule restore_checkpoint_ok)
    then have d: "8 dvd lg_end g" "lg_end g \<le> length f" using read_record_span [OF r(1)] f(2) by simp_all
    have "ck_length c \<le> span - into_segment (ck_offset c)" using read_record_span(3) [OF r(1)] r(2) by simp
    then have "into_segment (lg_end g) \<noteq> 0 \<longrightarrow> header_size \<le> into_segment (lg_end g)"
      using into_segment_add [OF r(4), of "ck_length c"] r(3,5) by simp
    then show ?thesis using d r(3,4) by simp
  qed
  then show "settled f (start_replay g)" "lg_end g \<le> length f"
    by (simp_all add: settled_def start_replay_def)
  assume agree: "take n f = take n f'" "n \<le> length f'" "lg_end g \<le> n"
  have "read_bytes f' (log_base + (lg_end g - log_base) div span * span) header_size =
      Inr (segment_header repo ((lg_end g - log_base) div span))"
    if "log_base < lg_end g" "into_segment (lg_end g) \<noteq> 0"
  proof (rule read_bytes_agree [OF agree(1,2)])
    show "log_base + (lg_end g - log_base) div span * span + header_size \<le> n"
      using segment_start [of "lg_end g"] ok that agree(3) by linarith
  qed (use g that in \<open>simp add: restored_def\<close>)
  moreover have "ck_offset c \<noteq> 0 \<longrightarrow> restore_checkpoint sha repo f' c = Inr g"
    using g restore_checkpoint_agree [OF _ agree] by (simp add: restored_def)
  ultimately show "restored sha repo f' c g" using g by (simp add: restored_def)
qed

text \<open>A journal that opened can be cut at the end of its log and opened again with anything behind it.\<close>

lemma opened_prefix:
  assumes o: "open_journal sha m repo c = Inr j" and c: "8 dvd ck_offset c"
  obtains u where "log_base \<le> lg_end j" "lg_end j \<le> length (md_file m)" "8 dvd lg_end j" "rp_at u = lg_end j"
    "rp_phase u = 0" "log_of u = log_of j"
    "\<And>m' x. md_file m' = take (lg_end j) (md_file m) @ x \<Longrightarrow>
       open_journal sha m' repo c = bindR (replay_loop sha repo (md_file m') u) (\<lambda>t. Inr (opened m' repo t))"
proof -
  let ?f = "md_file m"
  obtain g t where f: "log_base \<le> length ?f" and g: "restored sha repo ?f c g"
    and t: "replay_loop sha repo ?f (start_replay g) = Inr t" and j: "j = opened m repo t"
    using o by (auto simp: open_journal_iff)
  have log: "log_of j = log_of t" by (simp add: j opened_def log_of_def)
  have s0: "settled ?f (start_replay g)" "rp_at (start_replay g) = lg_end (start_replay g)" "rp_phase (start_replay g) = 0"
    using restored_agree(1) [OF g f c] by (simp_all add: start_replay_def)
  have run: "replays sha repo ?f (start_replay g) t" using t by (rule loop_replays)
  obtain u where u: "replays sha repo ?f (start_replay g) u" "rp_at u = lg_end t" "rp_phase u = 0" "log_of u = log_of t"
    using replays_cut [OF run s0] .
  have su: "settled ?f u" and le: "lg_end g \<le> lg_end u" using replays_settled [OF u(1) s0(1)] by (simp_all add: start_replay_def)
  have le_f: "lg_end j \<le> length ?f" "lg_end u = lg_end j" "rp_at u = lg_end j"
    using su u log by (simp_all add: settled_def log_of_def)
  show thesis
  proof (rule that)
    show "log_base \<le> lg_end j" "8 dvd lg_end j" using su le_f by (simp_all add: settled_def)
    show "log_of u = log_of j" using u(4) log by simp
    fix m' :: medium and x
    assume m': "md_file m' = take (lg_end j) ?f @ x"
    have agree: "take (lg_end j) ?f = take (lg_end j) (md_file m')" "lg_end j \<le> length (md_file m')"
      using le_f(1) by (simp_all add: m')
    have g': "restored sha repo (md_file m') c g"
      using restored_agree(3) [OF g f c agree] le le_f(2) by simp
    have "replays sha repo (md_file m') (start_replay g) u"
      using replays_agree [OF u(1) s0(1) _ agree le_f(1)] le_f by simp
    then have loop: "replay_loop sha repo (md_file m') (start_replay g) = replay_loop sha repo (md_file m') u"
      by (rule replays_loop)
    have "log_base \<le> length (md_file m')" using agree(2) su le_f by (simp add: settled_def)
    then show "open_journal sha m' repo c = bindR (replay_loop sha repo (md_file m') u) (\<lambda>t. Inr (opened m' repo t))"
      using g' unfolding open_journal_def restored_def Let_def loop [symmetric]
      by (auto simp: empty_log_def split: if_splits)
  qed (use le_f u in simp_all)
qed

section \<open>Files that end inside a write\<close>

text \<open>\<open>torn f s w l\<close>: replay that reached the end of \<open>f\<close> in state \<open>s\<close>, with the log \<open>l0\<close>, continues
  over any proper prefix of \<open>w\<close> without changing the log, and over all of \<open>w\<close> to the log \<open>l\<close>.\<close>

definition torn where
  "torn sha repo f s w l \<longleftrightarrow> rp_at s = length f \<and>
     (\<forall>k. \<exists>t. replay_loop sha repo (f @ take k w) s = Inr t \<and> log_of t = (if k < length w then log_of s else l))"

lemma torn_nil: "rp_at s = length f \<Longrightarrow> torn sha repo f s [] (log_of s)"
  by (simp add: torn_def replay_loop.simps)

lemma torn_chunk:
  assumes a: "a \<noteq> []" and at: "rp_at s = length f"
    and cut: "\<And>k. 0 < k \<Longrightarrow> k < length a \<Longrightarrow>
      replay_step sha repo (f @ take k a) s = Inr None \<or>
      replay_step sha repo (f @ take k a) s = Inr (Some (s\<lparr>rp_at := length f + k\<rparr>))"
    and whole: "\<And>x. replay_step sha repo (f @ a @ x) s = Inr (Some s')"
    and rest: "torn sha repo (f @ a) s' w l" and log: "log_of s' = log_of s \<or> w = []"
  shows "torn sha repo f s (a @ w) l"
proof -
  have "\<exists>t. replay_loop sha repo (f @ take k (a @ w)) s = Inr t \<and> log_of t = (if k < length (a @ w) then log_of s else l)" for k
  proof (cases "k < length a")
    case True
    consider "k = 0" | "replay_step sha repo (f @ take k a) s = Inr None" "0 < k"
      | "replay_step sha repo (f @ take k a) s = Inr (Some (s\<lparr>rp_at := length f + k\<rparr>))" "0 < k"
      using cut True by blast
    then show ?thesis
      using True at by cases (simp_all add: replay_loop.simps log_of_def)
  next
    case False
    let ?g = "f @ a @ take (k - length a) w"
    obtain t where t: "replay_loop sha repo ?g s' = Inr t" "log_of t = (if k - length a < length w then log_of s' else l)"
      using rest unfolding torn_def by (metis append_assoc)
    have "replay_loop sha repo ?g s = Inr t"
      using t(1) whole a at by (simp add: replay_loop.simps [of sha repo ?g s])
    then show ?thesis using t(2) log False by (auto simp: less_diff_conv2)
  qed
  then show ?thesis using at by (simp add: torn_def)
qed

lemma torn_pad:
  assumes at: "rp_at s = length f" "8 dvd length f" "rp_phase s = 0" and into: "into_segment (length f) \<noteq> 0"
    and rest: "torn sha repo (f @ replicate (span - into_segment (length f)) (CHR 0x00))
      (s\<lparr>rp_at := length f + (span - into_segment (length f))\<rparr>) w l"
  shows "torn sha repo f s (replicate (span - into_segment (length f)) (CHR 0x00) @ w) l"
proof (rule torn_chunk [OF _ at(1) _ _ rest])
  let ?n = "span - into_segment (length f)"
  have n: "0 < ?n" using room_in_segment [OF at(2)] by linarith
  then show "replicate ?n (CHR 0x00) \<noteq> []" by simp
  show "log_of (s\<lparr>rp_at := length f + ?n\<rparr>) = log_of s \<or> w = []" by (simp add: log_of_def)
  show "replay_step sha repo (f @ replicate ?n (CHR 0x00) @ x) s = Inr (Some (s\<lparr>rp_at := length f + ?n\<rparr>))" for x
    using replay_step_pad [of s "f @ replicate ?n (CHR 0x00) @ x" ?n] at into n
    by (simp add: slices list_all_iff)
  show "replay_step sha repo (f @ take k (replicate ?n (CHR 0x00))) s = Inr None \<or>
      replay_step sha repo (f @ take k (replicate ?n (CHR 0x00))) s = Inr (Some (s\<lparr>rp_at := length f + k\<rparr>))"
    if "0 < k" "k < length (replicate ?n (CHR 0x00))" for k
  proof -
    let ?g = "f @ take k (replicate ?n (CHR 0x00))"
    have k: "k < ?n" "take k (replicate ?n (CHR 0x00)) = replicate k (CHR 0x00)" using that(2) by simp_all
    have len: "length ?g - length f = k" unfolding k(2) by simp
    have "replay_step sha repo ?g s = Inr (Some (s\<lparr>rp_at := rp_at s + k\<rparr>))"
    proof (rule replay_step_pad)
      show "k = min (span - into_segment (rp_at s)) (length ?g - rp_at s)" unfolding at(1) len using k(1) by linarith
      show "zeros (slice (rp_at s) k ?g)" unfolding k(2) at(1) by (simp add: slices list_all_iff)
      show "rp_at s < length ?g" unfolding k(2) at(1) using that(1) by simp
    qed (use at into in simp_all)
    then show ?thesis unfolding at(1) ..
  qed
qed

lemma length_segment_header: "length repo = 16 \<Longrightarrow> length (segment_header repo i) = header_size"
  by (simp add: segment_header_def Let_def)

lemma torn_header:
  assumes at: "rp_at s = length f" "rp_phase s = 0" and into: "into_segment (length f) = 0" and repo: "length repo = 16"
    and rest: "torn sha repo (f @ segment_header repo ((length f - log_base) div span)) (s\<lparr>rp_at := length f + header_size\<rparr>) w l"
  shows "torn sha repo f s (segment_header repo ((length f - log_base) div span) @ w) l"
proof (rule torn_chunk [OF _ at(1) _ _ rest])
  let ?h = "segment_header repo ((length f - log_base) div span)"
  have n: "length ?h = header_size" using repo by (rule length_segment_header)
  then show "?h \<noteq> []" by force
  show "log_of (s\<lparr>rp_at := length f + header_size\<rparr>) = log_of s \<or> w = []" by (simp add: log_of_def)
  show "replay_step sha repo (f @ ?h @ x) s = Inr (Some (s\<lparr>rp_at := length f + header_size\<rparr>))" for x
    using replay_step_header [of s "f @ ?h @ x"] at into n by (simp add: slices)
  show "replay_step sha repo (f @ take k ?h) s = Inr None \<or>
      replay_step sha repo (f @ take k ?h) s = Inr (Some (s\<lparr>rp_at := length f + k\<rparr>))"
    if "0 < k" "k < length ?h" for k
    using at into n that by (simp add: replay_step_def Let_def)
qed

text \<open>A record: what follows depends on what replay makes of it.\<close>

lemma torn_record:
  assumes at: "rp_at s = length f" and into: "into_segment (length f) \<noteq> 0"
    and fits: "record_fits type p" "record_size (length p) \<le> span - into_segment (length f)"
    and s': "replay_record sha (log_record_of type seq p i) s = Inr s'"
    and log: "log_of s' = log_of s \<or> w = []"
    and rest: "torn sha repo (f @ encode_record type seq p i) s' w l"
  shows "torn sha repo f s (encode_record type seq p i @ w) l"
proof (rule torn_chunk [OF _ at _ _ rest log])
  let ?b = "encode_record type seq p i"
  have n: "80 \<le> length ?b" using record_size_bounds(1) [of "length p"] by simp
  then show "?b \<noteq> []" by force
  have magic: "take k ?b = take k (''FFR0'' @ drop 4 ?b)" for k
    by (simp add: encode_record_def Let_def)
  have nz: "\<not> zeros (slice (length f) (min 4 (length g - length f)) g)" if "g = f @ take k ?b @ x" "0 < k" for g k x
    using that n by (simp add: magic slices) (simp add: slice_def take_Cons' min_def)
  show "replay_step sha repo (f @ ?b @ x) s = Inr (Some s')" for x
  proof -
    have "record_at (f @ ?b @ x) (length f) type seq p i" using fits by (simp add: record_at_def slices)
    then have "read_record (f @ ?b @ x) (length f) (length (f @ ?b @ x)) = Inr (Some (log_record_of type seq p i))"
      by (rule read_record_at) simp
    moreover have "\<not> zeros (slice (rp_at s) (min 4 (length (f @ ?b @ x) - rp_at s)) (f @ ?b @ x))"
      using nz [of "f @ ?b @ x" "length ?b" x] n at by simp
    ultimately show ?thesis
      using replay_step_record [of s "f @ ?b @ x" "Some (log_record_of type seq p i)"] s' into at n by simp
  qed
  show "replay_step sha repo (f @ take k ?b) s = Inr None \<or>
      replay_step sha repo (f @ take k ?b) s = Inr (Some (s\<lparr>rp_at := length f + k\<rparr>))" if "0 < k" "k < length ?b" for k
  proof -
    have "read_record (f @ take k ?b) (length f) (length (f @ take k ?b)) = Inr None"
      using that fits by (intro read_record_cut) (auto simp: slices)
    moreover have "\<not> zeros (slice (rp_at s) (min 4 (length (f @ take k ?b) - rp_at s)) (f @ take k ?b))"
      using nz [of "f @ take k ?b" k "[]"] that at by simp
    ultimately show ?thesis using replay_step_record [of s "f @ take k ?b" None] into at that by simp
  qed
qed

end
