(* ===== verification/File_Journal_Write.thy ===== *)
theory File_Journal_Write
  imports File_Journal_Open
begin

text \<open>
  Writing to the single-file journal: whatever the system calls return, an append leaves the log
  followed by a prefix of what was to be written, and all of it when the append returns.
\<close>

section \<open>Appending\<close>

lemma pwrite_end: "at = length f \<Longrightarrow> pwrite f at b = f @ b"
  by (simp add: pwrite_def)

lemma write_loop_file:
  assumes "write_loop calls at b f = (r, calls', f')" and "at = length f"
  shows "\<exists>k. f' = f @ take k b \<and> (is_ok r \<longrightarrow> length b \<le> k)"
  using assms
proof (induction calls arbitrary: at b f)
  case Nil
  then show ?case by (auto simp: pwrite_end intro: exI [of _ "length b"] split: if_splits)
next
  case (Cons c calls)
  show ?case
  proof (cases "b = []")
    case True
    with Cons.prems show ?thesis by auto
  next
    case False
    show ?thesis
    proof (cases c)
      case (Count n)
      show ?thesis
      proof (cases "n = 0")
        case True
        with Cons.prems Count False show ?thesis by (auto intro: exI [of _ 0])
      next
        case n: False
        let ?n = "min n (length b)"
        have "write_loop calls (at + ?n) (drop ?n b) (f @ take ?n b) = (r, calls', f')"
          using Cons.prems Count False n by (simp add: pwrite_end Let_def)
        moreover have "at + ?n = length (f @ take ?n b)" using Cons.prems(2) by simp
        ultimately obtain k where k: "f' = (f @ take ?n b) @ take k (drop ?n b)" "is_ok r \<longrightarrow> length (drop ?n b) \<le> k"
          using Cons.IH by blast
        then have "f' = f @ take (?n + k) b" by (simp add: take_add)
        moreover have "is_ok r \<longrightarrow> length b \<le> ?n + k" using k(2) by auto
        ultimately show ?thesis by blast
      qed
    next
      case Interrupted
      with Cons False show ?thesis by simp
    next
      case Io_error
      with Cons.prems False show ?thesis by (auto intro: exI [of _ 0])
    qed
  qed
qed

text \<open>\<open>extends n w m\<close>: on a file of \<open>n\<close> bytes the operation appends a prefix of \<open>w\<close>, or all of it.\<close>

definition extends :: "nat \<Rightarrow> bytes \<Rightarrow> (medium, 'a) op \<Rightarrow> bool" where
  "extends n w m \<longleftrightarrow> (\<forall>s r t. length (md_file s) = n \<longrightarrow> m s = (r, t) \<longrightarrow>
     (\<exists>k. md_file t = md_file s @ take k w \<and> (is_ok r \<longrightarrow> length w \<le> k)))"

lemma extendsD:
  "extends n w m \<Longrightarrow> m s = (r, t) \<Longrightarrow> length (md_file s) = n \<Longrightarrow>
    \<exists>k. md_file t = md_file s @ take k w \<and> (is_ok r \<longrightarrow> length w \<le> k)"
  unfolding extends_def by blast

named_theorems extending \<open>operations that append to a file\<close>

lemma extends_return [extending]: "extends n [] (returnS x)"
  by (simp add: extends_def)

lemma extends_write [extending]: "n = at \<Longrightarrow> extends n b (write_bytes at b)"
  unfolding extends_def write_bytes_def by (auto split: prod.splits dest!: write_loop_file)

lemma extends_sync [extending]: "extends n [] sync_file"
  by (auto simp: extends_def sync_file_def sys_call_def split: list.splits syscall.splits)

lemma extends_bind:
  assumes a: "extends n a m" and b: "\<And>x. extends (n + length a) b (g x)"
  shows "extends n (a @ b) (bindS m g)"
  unfolding extends_def
proof (intro allI impI)
  fix s r t assume n: "length (md_file s) = n" and run: "bindS m g s = (r, t)"
  obtain r1 u where m: "m s = (r1, u)" by force
  obtain k where k: "md_file u = md_file s @ take k a" "is_ok r1 \<longrightarrow> length a \<le> k"
    using a n m unfolding extends_def by blast
  show "\<exists>k. md_file t = md_file s @ take k (a @ b) \<and> (is_ok r \<longrightarrow> length (a @ b) \<le> k)"
  proof (cases r1)
    case (Inl e)
    then have "r = Inl e" "t = u" using run m by (simp_all add: bindS_def)
    then show ?thesis using k(1) by (intro exI [of _ "min k (length a)"]) (simp add: min_def)
  next
    case (Inr x)
    then have u: "md_file u = md_file s @ a" "g x u = (r, t)" using k run m by (simp_all add: bindS_def)
    then have "length (md_file u) = n + length a" using n by simp
    then obtain k' where "md_file t = md_file u @ take k' b" "is_ok r \<longrightarrow> length b \<le> k'"
      using b [of x] u(2) unfolding extends_def by blast
    then show ?thesis using u(1) by (intro exI [of _ "length a + k'"]) simp
  qed
qed

lemma extends_chunks: "n = at \<Longrightarrow> extends n (concat bs) (write_chunks at bs)"
proof (induction bs arbitrary: n at)
  case (Cons b bs)
  have "extends n (b @ ([] @ concat bs))
      (bindS (write_bytes at b) (\<lambda>_. bindS sync_file (\<lambda>_. write_chunks (at + length b) bs)))"
    using Cons by (intro extends_bind extending) simp_all
  then show ?case by simp
qed (simp add: extending)

text \<open>What an append writes behind the end of the log.\<close>

definition appended :: "fjournal \<Rightarrow> bool \<Rightarrow> nat \<Rightarrow> bytes list \<Rightarrow> bytes" where
  "appended j fresh at chunks =
     (if fresh then replicate (at - lg_end j) (CHR 0x00) @ segment_header (fj_repository j) ((at - log_base) div span) else []) @
     concat chunks"

lemma append_log_file:
  assumes run: "append_log msg j fresh at chunks m = (r, m')"
    and tail: "fj_tail j \<or> length (md_file m) = lg_end j" "lg_end j \<le> length (md_file m)"
    and at: "lg_end j \<le> at" "fresh \<or> at = lg_end j" and repo: "length (fj_repository j) = 16"
  shows "\<not> is_ok r \<and> md_file m' = md_file m \<or>
    (\<exists>k. md_file m' = take (lg_end j) (md_file m) @ take k (appended j fresh at chunks) \<and>
      (is_ok r \<longrightarrow> length (appended j fresh at chunks) \<le> k))"
proof -
  let ?e = "lg_end j"
  let ?head = "if fresh then
      bindS (if ?e < at then write_bytes ?e (replicate (at - ?e) (CHR 0x00)) else returnS ()) (\<lambda>_.
        write_bytes at (segment_header (fj_repository j) ((at - log_base) div span)))
      else returnS ()"
  let ?rest = "bindS ?head (\<lambda>_. write_chunks (at + (if fresh then header_size else 0)) chunks)"
  have pad: "extends ?e (replicate (at - ?e) (CHR 0x00)) (if ?e < at then write_bytes ?e (replicate (at - ?e) (CHR 0x00)) else returnS ())"
    by (simp add: extending)
  have rest: "extends ?e (appended j fresh at chunks) ?rest"
  proof (cases fresh)
    case True
    then have fresh: "fresh = True" by simp
    show ?thesis
      unfolding appended_def fresh if_True
      by (intro extends_bind pad extending extends_chunks) (use at(1) repo in \<open>simp_all add: length_segment_header\<close>)
  next
    case False
    show ?thesis using False at(2) extends_chunks [of ?e ?e chunks] by (simp add: appended_def monad_laws)
  qed
  define w where "w = appended j fresh at chunks"
  obtain go where go: "go = ?rest" by blast
  have cut: "\<exists>k. md_file m' = take ?e (md_file m) @ take k w \<and> (is_ok r \<longrightarrow> length w \<le> k)"
    if u: "go u = (r, m')" "md_file u = take ?e (md_file m)" for u
  proof -
    have "length (md_file u) = ?e" using u(2) tail(2) by simp
    then show ?thesis using extendsD [OF rest [folded go w_def] u(1)] by (simp only: u(2))
  qed
  have split: "append_log msg j fresh at chunks =
      bindS (if fj_tail j then bindS (truncate_file msg ?e) (\<lambda>_. sync_file) else returnS ()) (\<lambda>_. go)"
    by (simp only: append_log_def Let_def go)
  show ?thesis
  proof (cases "fj_tail j")
    case False
    then have "go m = (r, m')" using run by (simp add: split monad_laws)
    then show ?thesis using cut [of m] tail(1) False by (simp add: w_def)
  next
    case True
    then have run': "bindS (truncate_file msg ?e) (\<lambda>_. bindS sync_file (\<lambda>_. go)) m = (r, m')"
      using run by (simp add: split monad_laws)
    obtain r1 u where u: "truncate_file msg ?e m = (r1, u)" by force
    then have kept: "\<not> is_ok r1 \<and> md_file u = md_file m \<or> is_ok r1 \<and> md_file u = take ?e (md_file m)"
      using tail(2) by (auto simp: truncate_file_def sys_call_def resize_def split: list.splits syscall.splits)
    obtain r2 v where v: "sync_file u = (r2, v)" by force
    then have same: "md_file v = md_file u"
      by (auto simp: sync_file_def sys_call_def split: list.splits syscall.splits)
    consider "is_ok r1" "is_ok r2" | "is_ok r1" "\<not> is_ok r2" | "\<not> is_ok r1" by blast
    then show ?thesis
    proof cases
      case 1
      then have "go v = (r, m')" using run' u v by (auto simp: bindS_def is_ok_iff)
      then show ?thesis using cut [of v] kept 1 same by (simp add: w_def)
    next
      case 2
      then have "\<not> is_ok r" "m' = v" using run' u v by (auto simp: bindS_def is_ok_iff split: sum.splits)
      then show ?thesis using kept 2 same by (intro disjI2 exI [of _ 0]) simp
    next
      case 3
      then have "\<not> is_ok r" "m' = u" using run' u by (auto simp: bindS_def is_ok_iff split: sum.splits)
      then show ?thesis using kept 3 by simp
    qed
  qed
qed

end
