(* ===== verification/File_Journal_Batch.thy ===== *)
theory File_Journal_Batch
  imports File_Journal_Write
begin

text \<open>
  Replay of one batch, record by record: data records, the prepare record and the commit record
  that the journal writes are accepted, and only the commit record changes the log.
\<close>

section \<open>Room in the segment\<close>

lemma place_begin:
  assumes e: "log_base \<le> e" "8 dvd e" and place: "place e want = (fresh, at)" and want: "want + header_size \<le> span" "0 < want"
    and first: "begin = at + (if fresh then header_size else 0)"
  shows "e \<le> at" "fresh \<or> at = e" "log_base \<le> begin" "into_segment begin \<noteq> 0" "want \<le> span - into_segment begin"
    "fresh \<Longrightarrow> into_segment at = 0" "at - e = (if fresh \<and> into_segment e \<noteq> 0 then span - into_segment e else 0)"
    "8 dvd begin" "begin \<le> at + header_size"
proof -
  let ?i = "into_segment e"
  have i: "?i < span" by simp
  have fresh: "fresh = (?i = 0 \<or> span - ?i < want)" and at: "at = (if fresh \<and> ?i \<noteq> 0 then e + (span - ?i) else e)"
    using place by (auto simp: place_def Let_def)
  show ea: "e \<le> at" and "fresh \<or> at = e" "at - e = (if fresh \<and> ?i \<noteq> 0 then span - ?i else 0)" using at by auto
  show "log_base \<le> begin" using ea e(1) first by (cases fresh) simp_all
  have "8 dvd at"
    unfolding at using e(2) into_segment_dvd(2) [OF e(2)]
    by (cases "fresh \<and> ?i \<noteq> 0") (simp_all only: if_True if_False dvd_add simp_thms)
  then show "8 dvd begin" using first by (cases fresh) (simp_all add: dvd_add)
  show "begin \<le> at + header_size" using first by simp
  have zero: "into_segment at = 0" if fresh
  proof (cases "?i = 0")
    case False
    then have "into_segment (e + (span - ?i)) = 0" using into_segment_add [OF e(1) order.refl] i by simp
    then show ?thesis using at that False by simp
  qed (use at in simp)
  then show "fresh \<Longrightarrow> into_segment at = 0" .
  have "into_segment begin = (if fresh then header_size else ?i)"
  proof (cases fresh)
    case False
    then show ?thesis using at first by simp
  next
    case True
    have "log_base \<le> at" using at e by auto
    then have "into_segment (at + header_size) = header_size"
      using into_segment_add [of at header_size] zero [OF True] by simp
    then show ?thesis using True first by simp
  qed
  then consider "fresh" "into_segment begin = header_size" | "into_segment begin = ?i" "?i \<noteq> 0" "want \<le> span - ?i"
    using fresh by (cases fresh) auto
  then show "into_segment begin \<noteq> 0" "want \<le> span - into_segment begin"
    using want(1) by (cases, simp, simp, cases, simp, simp)
qed

lemma torn_appended:
  assumes e: "lg_end j = length f" "log_base \<le> length f" "8 dvd length f"
    and place: "place (lg_end j) want = (fresh, at)" and want: "want + header_size \<le> span" "0 < want"
    and first: "begin = at + (if fresh then header_size else 0)" and repo: "length (fj_repository j) = 16"
    and s: "rp_at s = length f" "rp_phase s = 0"
    and rest: "\<And>g. length g = begin \<Longrightarrow> torn sha (fj_repository j) g (s\<lparr>rp_at := begin\<rparr>) (concat chunks) l"
  shows "torn sha (fj_repository j) f s (appended j fresh at chunks) l"
proof (cases fresh)
  case False
  then have "begin = length f" using place_begin(2) [OF _ _ place want first] e first by simp
  then have "torn sha (fj_repository j) f (s\<lparr>rp_at := length f\<rparr>) (concat chunks) l" using rest [of f] by simp
  moreover have "s\<lparr>rp_at := length f\<rparr> = s" by (simp add: s(1) [symmetric])
  ultimately show ?thesis using False by (simp add: appended_def)
next
  case True
  let ?h = "segment_header (fj_repository j) ((at - log_base) div span)"
  note pb = place_begin [OF _ _ place want first, unfolded e(1), OF e(2,3)]
  have header: "torn sha (fj_repository j) g (s\<lparr>rp_at := at\<rparr>) (?h @ concat chunks) l" if g: "length g = at" for g
  proof -
    have "torn sha (fj_repository j) (g @ ?h) ((s\<lparr>rp_at := at\<rparr>)\<lparr>rp_at := length g + header_size\<rparr>) (concat chunks) l"
      using rest [of "g @ ?h"] True g first repo by (simp add: length_segment_header)
    then show ?thesis
      using torn_header [of "s\<lparr>rp_at := at\<rparr>" g] pb(6) True g s(2) repo by simp
  qed
  show ?thesis
  proof (cases "into_segment (length f) = 0")
    case zero: True
    then have "at = length f" using pb(1,7) by simp
    then have "torn sha (fj_repository j) f (s\<lparr>rp_at := length f\<rparr>) (?h @ concat chunks) l" using header [of f] by simp
    moreover have "s\<lparr>rp_at := length f\<rparr> = s" by (simp add: s(1) [symmetric])
    ultimately show ?thesis using True e(1) \<open>at = length f\<close> by (simp add: appended_def)
  next
    case pad: False
    let ?n = "span - into_segment (length f)"
    have at: "at - length f = ?n" "at = length f + ?n" using pb(1,7) True pad by simp_all
    have "torn sha (fj_repository j) (f @ replicate ?n (CHR 0x00)) (s\<lparr>rp_at := length f + ?n\<rparr>) (?h @ concat chunks) l"
      using header [of "f @ replicate ?n (CHR 0x00)"] at(2) by simp
    then have "torn sha (fj_repository j) f s (replicate ?n (CHR 0x00) @ ?h @ concat chunks) l"
      by (rule torn_pad [OF s(1) e(3) s(2) pad])
    then show ?thesis using True at e(1) by (simp add: appended_def)
  qed
qed

section \<open>Data records\<close>

definition fresh_batch :: "replay \<Rightarrow> replay" where
  "fresh_batch s = (if rp_phase s = 0 then s\<lparr>rp_begin := rp_at s, rp_batch := [], rp_pending := [], rp_changes := []\<rparr> else s)"

definition data_turn :: "u64 \<Rightarrow> oid \<times> bytes \<Rightarrow> replay \<Rightarrow> replay" where
  "data_turn seq x s = (let s = fresh_batch s; b = data_record seq x in
     s\<lparr>rp_pending := put (fst x) \<lparr>loc_payload = rp_at s, loc_length = length b\<rparr> (rp_pending s), rp_batch := rp_batch s @ b,
       rp_phase := 1, rp_at := rp_at s + length b\<rparr>)"

lemma length_data_payload [simp]: "length (data_payload v) = 4 + length v"
  by (simp add: data_payload_def)

lemma data_payload_fields [simp]:
  "load_at (data_payload v) 0 2 = 4" "load_at (data_payload v) 2 2 = 0" "drop 4 (data_payload v) = v"
  by (simp_all add: data_payload_def slices)

lemma data_record_fits: "length v \<le> max_payload \<Longrightarrow> record_fits 1 (data_payload v)"
  using record_size_bounds(2) [of "4 + length v"] by (simp add: record_fits_def)

lemma replay_data_turn:
  assumes "rp_phase s < 2" and seq: "lg_sequence s \<noteq> - 1" "seq = lg_sequence s + 1"
    and v: "object_hash sha v = i" "length v \<le> max_payload"
    and room: "length (rp_pending (fresh_batch s)) < 64" "map_of (rp_pending (fresh_batch s)) i = None"
      "length (rp_batch (fresh_batch s)) + length (data_record seq (i, v)) \<le> 2 * 1024 * 1024"
  shows "replay_record sha (log_record_of 1 seq (data_payload v) i) s = Inr (data_turn seq (i, v) s)"
  using assms
  by (simp add: replay_record_def replay_data_def log_record_of_def Let_def data_turn_def data_record_def fresh_batch_def)

lemma data_turn_log [simp]: "log_of (data_turn seq x s) = log_of s" "lg_sequence (data_turn seq x s) = lg_sequence s"
  "rp_phase (data_turn seq x s) = 1" "rp_at (data_turn seq x s) = rp_at s + length (data_record seq x)"
  by (simp_all add: data_turn_def fresh_batch_def log_of_def Let_def)

lemma data_turn_batch:
  "rp_batch (fresh_batch (data_turn seq x s)) = rp_batch (fresh_batch s) @ data_record seq x"
  "rp_pending (fresh_batch (data_turn seq x s)) =
     put (fst x) \<lparr>loc_payload = rp_at s, loc_length = length (data_record seq x)\<rparr> (rp_pending (fresh_batch s))"
  "rp_begin (fresh_batch (data_turn seq x s)) = rp_begin (fresh_batch s)"
  "rp_changes (fresh_batch (data_turn seq x s)) = rp_changes (fresh_batch s)"
  by (simp_all add: data_turn_def fresh_batch_def Let_def)

lemma length_put: "map_of m k = None \<Longrightarrow> length (put k v m) = Suc (length m)"
  by (induction m) (auto split: if_splits)

text \<open>The encoded data records of a list of objects.\<close>

definition datas_of :: "u64 \<Rightarrow> (oid \<times> bytes) list \<Rightarrow> bytes" where
  "datas_of seq xs = concat (map (data_record seq) xs)"

lemma datas_of_simps [simp]: "datas_of seq [] = []" "datas_of seq (x # xs) = data_record seq x @ datas_of seq xs"
  by (simp_all add: datas_of_def)

definition objects_fit :: "(bytes \<Rightarrow> oid) \<Rightarrow> (oid \<times> bytes) list \<Rightarrow> bool" where
  "objects_fit sha xs \<longleftrightarrow> list_all (\<lambda>(i, v). object_hash sha v = i \<and> length v \<le> max_payload) xs \<and> distinct (map fst xs)"

lemma torn_datas:
  assumes "objects_fit sha xs" and "rp_at s = length f" and "log_base \<le> length f" "into_segment (length f) \<noteq> 0"
    and "length (datas_of seq xs) < span - into_segment (length f)"
    and "rp_phase s < 2" "lg_sequence s \<noteq> - 1" "seq = lg_sequence s + 1"
    and "length (rp_pending (fresh_batch s)) + length xs \<le> 64" "\<forall>x \<in> set xs. map_of (rp_pending (fresh_batch s)) (fst x) = None"
    and "length (rp_batch (fresh_batch s)) + length (datas_of seq xs) \<le> 2 * 1024 * 1024"
    and "torn sha repo (f @ datas_of seq xs) (fold (data_turn seq) xs s) w l"
  shows "torn sha repo f s (datas_of seq xs @ w) l"
  using assms
proof (induction xs arbitrary: f s)
  case (Cons x xs)
  obtain i v where x: "x = (i, v)" by force
  let ?b = "data_record seq x"
  let ?s = "data_turn seq x s"
  have v: "object_hash sha v = i" "length v \<le> max_payload" "objects_fit sha xs" "i \<notin> fst ` set xs"
    using Cons.prems(1) x by (simp_all add: objects_fit_def)
  have b: "?b = encode_record 1 seq (data_payload v) i" by (simp add: x data_record_def)
  have room: "length ?b < span - into_segment (length f)" using Cons.prems(5) by simp
  have turn: "replay_record sha (log_record_of 1 seq (data_payload v) i) s = Inr ?s"
    using replay_data_turn [of s seq sha v i] Cons.prems v x by simp
  have into: "into_segment (length f + length ?b) = into_segment (length f) + length ?b"
  proof -
    have "into_segment (length f) + length ?b \<noteq> span" using room by linarith
    then show ?thesis using into_segment_add [OF Cons.prems(3), of "length ?b"] room by simp
  qed
  have "torn sha repo (f @ ?b) ?s (datas_of seq xs @ w) l"
  proof (rule Cons.IH)
    show "objects_fit sha xs" by fact
    show "into_segment (length (f @ ?b)) \<noteq> 0" using into Cons.prems(4) by simp
    have "length ?b + length (datas_of seq xs) < span - into_segment (length f)" using Cons.prems(5) by simp
    then show "length (datas_of seq xs) < span - into_segment (length (f @ ?b))"
      unfolding length_append into by linarith
    show "length (rp_pending (fresh_batch ?s)) + length xs \<le> 64"
      using Cons.prems(9,10) by (simp add: data_turn_batch length_put x)
    show "\<forall>y \<in> set xs. map_of (rp_pending (fresh_batch ?s)) (fst y) = None"
      using Cons.prems(10) v(4) x by (auto simp: data_turn_batch)
    show "length (rp_batch (fresh_batch ?s)) + length (datas_of seq xs) \<le> 2 * 1024 * 1024"
      using Cons.prems(11) by (simp add: data_turn_batch)
    show "torn sha repo ((f @ ?b) @ datas_of seq xs) (fold (data_turn seq) xs ?s) w l" using Cons.prems(12) by simp
  qed (use Cons.prems in simp_all)
  then have "torn sha repo f s (?b @ datas_of seq xs @ w) l"
    using torn_record [of s f 1 "data_payload v" sha seq i ?s] turn Cons.prems(2,4) data_record_fits [OF v(2)] room
    by (simp add: b)
  then show ?case by simp
qed simp

text \<open>The state after the data records, read off the function that writes them.\<close>

definition shift :: "nat \<Rightarrow> oid \<times> location \<Rightarrow> oid \<times> location" where
  "shift n = (\<lambda>(i, l). (i, l\<lparr>loc_payload := n + loc_payload l\<rparr>))"

lemma map_shift_put: "map (shift n) (put i l m) = put i (l\<lparr>loc_payload := n + loc_payload l\<rparr>) (map (shift n) m)"
  by (induction m) (auto simp: shift_def split: prod.splits)

lemma data_records_turns:
  assumes "fold (\<lambda>x (batch, locations). let b = data_record seq x in
      (batch @ b, put (fst x) \<lparr>loc_payload = length batch, loc_length = length b\<rparr> locations)) xs (b, ls) = (b', ls')"
    and "rp_batch (fresh_batch s) = b" "rp_pending (fresh_batch s) = map (shift n) ls" "rp_at s = n + length b" "rp_phase s < 2"
    and "t = fold (data_turn seq) xs s"
  shows "rp_batch (fresh_batch t) = b' \<and> rp_pending (fresh_batch t) = map (shift n) ls' \<and> rp_at t = n + length b' \<and>
    b' = b @ datas_of seq xs \<and> rp_begin (fresh_batch t) = rp_begin (fresh_batch s) \<and>
    rp_changes (fresh_batch t) = rp_changes (fresh_batch s) \<and> log_of t = log_of s \<and> rp_phase t < 2"
  using assms
proof (induction xs arbitrary: s b ls)
  case (Cons x xs)
  let ?b = "data_record seq x"
  let ?s = "data_turn seq x s"
  note step = Cons.IH [of "b @ ?b" "put (fst x) \<lparr>loc_payload = length b, loc_length = length ?b\<rparr> ls" ?s]
  have "rp_batch (fresh_batch t) = b' \<and> rp_pending (fresh_batch t) = map (shift n) ls' \<and> rp_at t = n + length b' \<and>
    b' = (b @ ?b) @ datas_of seq xs \<and> rp_begin (fresh_batch t) = rp_begin (fresh_batch ?s) \<and>
    rp_changes (fresh_batch t) = rp_changes (fresh_batch ?s) \<and> log_of t = log_of ?s \<and> rp_phase t < 2"
    by (rule step) (use Cons.prems in \<open>simp_all add: data_turn_batch map_shift_put Let_def\<close>)
  then show ?case by (simp add: data_turn_batch)
qed simp

end
