(* ===== verification/File_Journal_Commit.thy ===== *)
theory File_Journal_Commit
  imports File_Journal_Batch
begin

text \<open>
  The prepare and commit records of a batch, and the batch as a whole.
\<close>

section \<open>Prepare records\<close>

definition change_ok :: "nat \<Rightarrow> replay \<Rightarrow> string \<times> oid option \<Rightarrow> bool" where
  "change_ok type s = (\<lambda>(key, io). key \<noteq> [] \<and> length key \<le> 1024 \<and> (case io of
       Some i \<Rightarrow> map_of (rp_pending s) i \<noteq> None \<or> type = 8 \<and> map_of (lg_objects s) i \<noteq> None
     | None \<Rightarrow> map_of (lg_roots s) key \<noteq> None))"

definition note_reference :: "replay \<Rightarrow> string \<times> oid option \<Rightarrow> (oid, bool) smap \<Rightarrow> (oid, bool) smap" where
  "note_reference s = (\<lambda>(key, io) refs. case io of
     Some i \<Rightarrow> if map_of (rp_pending s) i \<noteq> None then put i True refs else refs | None \<Rightarrow> refs)"

lemma note_reference_simps:
  "note_reference s (key, None) refs = refs"
  "note_reference s (key, Some i) refs = (if map_of (rp_pending s) i \<noteq> None then put i True refs else refs)"
  by (simp_all add: note_reference_def)

lemma put_last: "\<forall>x \<in> set m. fst x < k \<Longrightarrow> put k v m = m @ [(k, v)]"
  by (induction m) auto

lemma emplace_at_end: "\<forall>x \<in> set m. fst x < k \<Longrightarrow> emplace k v m = m @ [(k, v)]"
proof -
  assume *: "\<forall>x \<in> set m. fst x < k"
  then have "map_of m k = None" by (force simp: map_of_eq_None_iff)
  then show ?thesis using * by (simp add: emplace_def put_last)
qed

lemma length_change_entry: "length (change_entry (key, io)) = 40 + length key"
  by (simp add: change_entry_def)

lemma change_entry_fields:
  assumes "length key \<le> 1024"
  shows "load_at (a @ change_entry (key, io) @ b) (length a) 4 = (if io \<noteq> None then 1 else 2)"
    "load_at (a @ change_entry (key, io) @ b) (length a + 4) 4 = length key"
    "slice (length a + 8) (length key) (a @ change_entry (key, io) @ b) = key"
    "oid_at (a @ change_entry (key, io) @ b) (length a + 8 + length key) = (case io of None \<Rightarrow> 0 | Some i \<Rightarrow> i)"
  using assms by (simp_all add: change_entry_def slices)

lemma prepare_entries_ok:
  assumes "p = a @ concat (map change_entry cs)" "list_all (change_ok type s) cs" "smap_ok (acc @ cs)"
    and "previous = None \<or> (\<exists>k. previous = Some k \<and> (\<forall>x \<in> set cs. k < fst x))"
  shows "prepare_entries (length cs) type s p (length a) previous acc refs =
    Inr (length p, acc @ cs, fold (note_reference s) cs refs)"
  using assms
proof (induction cs arbitrary: a acc refs previous)
  case (Cons x cs)
  obtain key io where x: "x = (key, io)" by force
  let ?rest = "concat (map change_entry cs)"
  have p: "p = a @ change_entry (key, io) @ ?rest" using Cons.prems(1) x by simp
  have ok: "key \<noteq> []" "length key \<le> 1024" and io: "case io of
       Some i \<Rightarrow> map_of (rp_pending s) i \<noteq> None \<or> type = 8 \<and> map_of (lg_objects s) i \<noteq> None
     | None \<Rightarrow> map_of (lg_roots s) key \<noteq> None"
    using Cons.prems(2) x by (simp_all add: change_ok_def)
  note fields = change_entry_fields [OF ok(2), of a io ?rest, folded p]
  have len: "length p = length a + 40 + length key + length ?rest" by (simp add: p length_change_entry)
  have prev: "previous = None \<or> the previous < key" using Cons.prems(4) x by auto
  have last: "\<forall>y \<in> set acc. fst y < key" and tl: "\<forall>y \<in> set cs. key < fst y"
    using Cons.prems(3) x by (auto simp: smap_ok_append)
  have IH: "prepare_entries (length cs) type s p (length (a @ change_entry (key, io))) (Some key) (acc @ [(key, io)]) r =
      Inr (length p, (acc @ [(key, io)]) @ cs, fold (note_reference s) cs r)" for r
    by (rule Cons.IH) (use p Cons.prems x tl in simp_all)
  have step: "length (a @ change_entry (key, io)) = 40 + (length a + length key)" by (simp add: length_change_entry)
  have room: "length a \<le> length p" "8 \<le> length p - length a" "length key + 32 \<le> length p - (length a + 8)"
    using len by linarith+
  show ?case
  proof (cases io)
    case None
    then show ?thesis
      using ok io prev room IH [of refs, unfolded step]
      by (simp add: x fields [unfolded None] Let_def emplace_at_end [OF last] note_reference_simps)
  next
    case (Some i)
    then show ?thesis
      using ok io prev room IH [of refs, unfolded step] IH [of "put i True refs", unfolded step]
      by (simp add: x fields [unfolded Some] Let_def emplace_at_end [OF last] note_reference_simps)
  qed
qed simp

lemma note_references:
  "smap_ok refs \<Longrightarrow> smap_ok (fold (note_reference s) cs refs) \<and>
    dom (map_of (fold (note_reference s) cs refs)) =
      dom (map_of refs) \<union> {i. map_of (rp_pending s) i \<noteq> None \<and> (\<exists>key. (key, Some i) \<in> set cs)}"
proof (induction cs arbitrary: refs)
  case (Cons x cs)
  have "smap_ok (note_reference s x refs)" using Cons.prems by (auto simp: note_reference_def split: prod.split option.split)
  moreover have "dom (map_of (note_reference s x refs)) =
      dom (map_of refs) \<union> {i. map_of (rp_pending s) i \<noteq> None \<and> (\<exists>key. (key, Some i) = x)}"
    by (cases x) (auto simp: note_reference_def split: option.split)
  ultimately show ?case using Cons.IH [of "note_reference s x refs"] by auto
qed simp

lemma smap_length: "smap_ok m \<Longrightarrow> length m = card (dom (map_of m))"
  by (metis distinct_card dom_map_of_conv_image_fst length_map list.set_map smap_ok_distinct)

lemma length_prepare_payload: "length (prepare_payload prev expected cs) = 44 + length (concat (map change_entry cs))"
  by (simp add: prepare_payload_def)

lemma prepare_changes_ok:
  assumes p: "p = prepare_payload prev (lg_sequence s) cs" and n: "0 < length cs" "length cs \<le> 64"
    and type: "type = 7 \<or> type = 8" and ok: "list_all (change_ok type s) cs" "smap_ok cs" "rp_changes s = []"
    and all: "smap_ok (rp_pending s)" "\<forall>i \<in> dom (map_of (rp_pending s)). \<exists>key. (key, Some i) \<in> set cs"
  shows "prepare_changes type p s = Inr cs"
proof -
  let ?a = "oid_bytes prev @ store64 (lg_sequence s) @ le_store 4 (length cs)"
  let ?refs = "fold (note_reference s) cs []"
  have p': "p = ?a @ concat (map change_entry cs)" by (simp add: p prepare_payload_def)
  have fields: "load_at p 32 8 = unat (lg_sequence s)" "load_at p 40 4 = length cs" "44 \<le> length p"
    using n by (simp_all add: p' slices)
  have entries: "prepare_entries (length cs) type s p 44 None [] [] = Inr (length p, cs, ?refs)"
    using prepare_entries_ok [OF p' ok(1), of "[]" None "[]"] ok(2) by simp
  have "smap_ok ?refs" "dom (map_of ?refs) = dom (map_of (rp_pending s))"
    using note_references [of "[]" s cs] all(2) by auto
  then have "length ?refs = length (rp_pending s)" using all(1) by (simp add: smap_length)
  then show ?thesis using type fields n entries ok(3) by (auto simp: prepare_changes_def)
qed

definition prepare_turn :: "nat \<Rightarrow> u64 \<Rightarrow> bytes \<Rightarrow> (string, oid option) smap \<Rightarrow> replay \<Rightarrow> replay" where
  "prepare_turn type seq p cs s = (let s = fresh_batch s; b = encode_record type seq p 0 in
     s\<lparr>rp_changes := cs, rp_prepare_at := rp_at s, rp_batch := rp_batch s @ b, rp_prep_payload := p,
       rp_prep_size := length b, rp_phase := 2, rp_at := rp_at s + length b\<rparr>)"

lemma replay_prepare_turn:
  assumes "rp_phase s < 2" "type = 2 \<or> type = 7 \<or> type = 8" and seq: "lg_sequence s \<noteq> - 1" "seq = lg_sequence s + 1"
    and p: "36 \<le> length p" "oid_at p 0 = lg_last s" "prepare_changes type p (fresh_batch s) = Inr cs"
    and room: "length (rp_batch (fresh_batch s)) + record_size (length p) \<le> 2 * 1024 * 1024"
  shows "replay_record sha (log_record_of type seq p 0) s = Inr (prepare_turn type seq p cs s)"
proof -
  have last: "lg_last (fresh_batch s) = lg_last s" "rp_phase (fresh_batch s) = rp_phase s" "rp_at (fresh_batch s) = rp_at s"
    by (simp_all add: fresh_batch_def)
  have "replay_prepare (log_record_of type seq p 0) (fresh_batch s) =
      Inr ((fresh_batch s)\<lparr>rp_changes := cs, rp_prepare_at := rp_at s, rp_batch := rp_batch (fresh_batch s) @ encode_record type seq p 0,
        rp_prep_payload := p, rp_prep_size := length (encode_record type seq p 0), rp_phase := 2\<rparr>)"
    using p last by (simp add: replay_prepare_def log_record_of_def)
  then show ?thesis
    unfolding replay_record_def Let_def fresh_batch_def [symmetric]
    using assms(1,2) seq room last by (auto simp: log_record_of_def prepare_turn_def Let_def)
qed

lemma prepare_turn_fields:
  "rp_phase (prepare_turn type seq p cs s) = 2" "rp_prepare_at (prepare_turn type seq p cs s) = rp_at s"
  "rp_prep_payload (prepare_turn type seq p cs s) = p" "rp_prep_size (prepare_turn type seq p cs s) = record_size (length p)"
  "rp_begin (prepare_turn type seq p cs s) = rp_begin (fresh_batch s)"
  "rp_at (prepare_turn type seq p cs s) = rp_at s + record_size (length p)"
  "rp_batch (prepare_turn type seq p cs s) = rp_batch (fresh_batch s) @ encode_record type seq p 0"
  "rp_changes (prepare_turn type seq p cs s) = cs" "rp_pending (prepare_turn type seq p cs s) = rp_pending (fresh_batch s)"
  "log_of (prepare_turn type seq p cs s) = log_of s"
  by (simp_all add: prepare_turn_def Let_def fresh_batch_def log_of_def)

section \<open>Commit records\<close>

lemma length_commit_payload [simp]: "length (commit_payload seq prev at psize h first cat bh) = 136"
  by (simp add: commit_payload_def)

lemma record_size_commit: "record_size 136 = 216"
  by (simp add: record_size_def)

lemma commit_payload_fields:
  assumes "at < 2 ^ 64" "psize < 2 ^ 32" "first < 2 ^ 64" "cat < 2 ^ 64" and p: "p = commit_payload seq prev at psize h first cat bh"
  shows "load_at p 0 8 = unat seq" "oid_at p 8 = prev" "load_at p 40 8 = at" "load_at p 48 4 = psize" "load_at p 52 4 = 0"
    "oid_at p 56 = h" "load_at p 88 8 = first" "load_at p 96 8 = cat" "oid_at p 104 = bh"
  using assms(1-4) unfolding p by (simp_all add: commit_payload_def slices)

lemma replay_commit_turn:
  assumes s: "rp_phase s = 2" "lg_sequence s \<noteq> - 1" "seq = lg_sequence s + 1"
    and p: "p = commit_payload seq (lg_last s) (rp_prepare_at s) (rp_prep_size s) (sha (rp_prep_payload s)) (rp_begin s) (rp_at s)
      (sha (rp_batch s))"
    and small: "rp_prepare_at s < 2 ^ 64" "rp_prep_size s < 2 ^ 32" "rp_begin s < 2 ^ 64" "rp_at s < 2 ^ 64"
      "length (rp_batch s) \<le> 2 * 1024 * 1024"
  obtains s' where "replay_record sha (log_record_of 3 seq p 0) s = Inr s'" "rp_at s' = rp_at s + 216"
    "log_of s' = (seq, rp_at s + 216, tagged sha ''forkfs.commit.v0'' p, apply_changes (rp_changes s) (lg_roots s),
       fold (\<lambda>(i, l). put i l) (rp_pending s) (lg_objects s))"
proof -
  note fields = commit_payload_fields [OF small(1-4) p]
  have "length p = 136" by (simp add: p)
  then show thesis
    using that s small(5) fields
    by (simp add: replay_record_def replay_commit_def log_record_of_def Let_def record_size_commit log_of_def)
qed

section \<open>A whole batch\<close>

text \<open>Replay of the data records, the prepare record and the commit record of one batch: any proper
  prefix leaves the log alone, the whole of it is the committed log.\<close>

lemma torn_batch:
  assumes s: "rp_at s = length f" "rp_phase s = 0" and f: "log_base \<le> length f" "into_segment (length f) \<noteq> 0"
    "length f + span < 2 ^ 64"
    and seq: "lg_sequence s \<noteq> - 1" "seq = lg_sequence s + 1"
    and xs: "objects_fit sha xs" "length xs \<le> 64" "data_records seq xs = (datas, ls)"
    and type: "type = 2 \<or> type = 7 \<or> type = 8"
    and p: "36 \<le> length p" "oid_at p 0 = lg_last s" "record_fits type p"
      "prepare_changes type p (fresh_batch (fold (data_turn seq) xs s)) = Inr cs"
    and batch: "batch = datas @ encode_record type seq p 0" "length batch \<le> 2 * 1024 * 1024"
    and room: "length batch + 216 \<le> span - into_segment (length f)"
    and q: "q = commit_payload seq (lg_last s) (length f + length datas) (record_size (length p)) (sha p) (length f)
      (length f + length batch) (sha batch)"
  shows "torn sha repo f s (batch @ encode_record 3 seq q 0)
    (seq, length f + length batch + 216, tagged sha ''forkfs.commit.v0'' q, apply_changes cs (lg_roots s),
     fold (\<lambda>(i, l). put i l) (map (shift (length f)) ls) (lg_objects s))"
proof -
  define t where "t = fold (data_turn seq) xs s"
  define u where "u = prepare_turn type seq p cs t"
  let ?b = "encode_record type seq p 0"
  have fb: "rp_batch (fresh_batch s) = []" "rp_pending (fresh_batch s) = map (shift (length f)) []" "rp_begin (fresh_batch s) = length f"
    using s by (simp_all add: fresh_batch_def)
  have t: "rp_batch (fresh_batch t) = datas" "rp_pending (fresh_batch t) = map (shift (length f)) ls"
      "rp_at t = length f + length datas" "datas = datas_of seq xs" "rp_begin (fresh_batch t) = length f" "log_of t = log_of s" "rp_phase t < 2"
    using data_records_turns [OF xs(3) [unfolded data_records_def] fb(1,2), of t] s fb t_def by simp_all
  have logt: "lg_sequence t = lg_sequence s" "lg_last t = lg_last s" "lg_roots t = lg_roots s" "lg_objects t = lg_objects s"
    using t(6) by (simp_all add: log_of_def)
  have n: "length datas + record_size (length p) = length batch" "80 + length p \<le> record_size (length p)"
    by (simp_all add: batch(1) record_size_bounds)
  have into: "into_segment (length f + k) = into_segment (length f) + k" if "k \<le> length batch" for k
  proof -
    have "into_segment (length f) + k \<noteq> span" "k \<le> span - into_segment (length f)" using room that by linarith+
    then show ?thesis using into_segment_add [OF f(1), of k] by simp
  qed
  have prep: "replay_record sha (log_record_of type seq p 0) t = Inr u"
    unfolding u_def
  proof (rule replay_prepare_turn [OF t(7) type _ _ p(1)])
    show "prepare_changes type p (fresh_batch t) = Inr cs" using p(4) by (simp only: t_def)
  qed (use seq logt p(2) t(1) n(1) batch(2) in simp_all)
  have u: "rp_phase u = 2" "rp_prepare_at u = length f + length datas" "rp_prep_payload u = p" "rp_prep_size u = record_size (length p)"
      "rp_begin u = length f" "rp_at u = length f + length batch" "rp_batch u = batch" "rp_changes u = cs"
      "rp_pending u = map (shift (length f)) ls" "log_of u = log_of t"
    unfolding u_def prepare_turn_fields using t n(1) batch(1) by simp_all
  have logu: "lg_sequence u = lg_sequence s" "lg_last u = lg_last s" "lg_roots u = lg_roots s" "lg_objects u = lg_objects s"
    using u(10) logt by (simp_all add: log_of_def)
  have small: "length f + length batch < 2 ^ 64" "record_size (length p) < 2 ^ 32"
    using f(3) room p(3) by (simp_all add: record_fits_def)
  obtain v where v: "replay_record sha (log_record_of 3 seq q 0) u = Inr v" "rp_at v = rp_at u + 216"
    "log_of v = (seq, rp_at u + 216, tagged sha ''forkfs.commit.v0'' q, apply_changes (rp_changes u) (lg_roots u),
       fold (\<lambda>(i, l). put i l) (rp_pending u) (lg_objects u))"
    by (rule replay_commit_turn [of u seq q sha]) (use u logu seq small n batch(2) q in simp_all)
  have lq: "length q = 136" by (simp add: q)
  let ?l = "log_of v"
  have "torn sha repo (f @ batch @ encode_record 3 seq q 0) v [] ?l"
    using v(2) u(6) by (intro torn_nil) (simp add: lq record_size_commit)
  moreover have "216 \<le> span - (into_segment (length f) + length batch)" using room by linarith
  ultimately have c: "torn sha repo (f @ batch) u (encode_record 3 seq q 0) ?l"
    using torn_record [of u "f @ batch" 3 q sha seq 0 v "[]" repo ?l] v(1) u(6) into [of "length batch"] f(2) lq
    by (simp add: record_fits_def record_size_commit)
  have "torn sha repo (f @ datas) t (?b @ encode_record 3 seq q 0) ?l"
  proof (rule torn_record [OF _ _ p(3) _ prep])
    show "torn sha repo ((f @ datas) @ ?b) u (encode_record 3 seq q 0) ?l" using c by (simp add: batch(1))
    have "into_segment (length (f @ datas)) = into_segment (length f) + length datas" using into [of "length datas"] n by simp
    then show "record_size (length p) \<le> span - into_segment (length (f @ datas))" "into_segment (length (f @ datas)) \<noteq> 0"
      using room n f(2) by linarith+
  qed (use t(3) u(10) in simp_all)
  moreover have "length (datas_of seq xs) < span - into_segment (length f)" "length (datas_of seq xs) \<le> 2 * 1024 * 1024"
    using t(4) n room batch(2) by (simp_all only: t(4) [symmetric])
  ultimately have "torn sha repo f s (datas_of seq xs @ ?b @ encode_record 3 seq q 0) ?l"
    using torn_datas [OF xs(1) s(1) f(1,2) _ _ seq] s(2) fb xs(2) by (simp add: t(4) t_def)
  then show ?thesis using v(3) u logu t(4) by (simp add: batch(1))
qed

end
