(* ===== verification/File_Journal_Contract.thy ===== *)
theory File_Journal_Contract
  imports File_Journal_Commit
begin

text \<open>
  The single-file journal survives a failing or interrupted write: whatever the system calls
  return, reopening the file gives the state before the operation or the state after it, and the
  state after it when the operation returned. Batches refine the journal contract.
\<close>

section \<open>Publication\<close>

text \<open>Reopening the file gives the state of the journal.\<close>

definition recovers :: "(bytes \<Rightarrow> oid) \<Rightarrow> checkpoint \<Rightarrow> fjournal \<Rightarrow> bool" where
  "recovers sha c j \<longleftrightarrow> 8 dvd ck_offset c \<and> length (fj_repository j) = 16 \<and>
     (fj_tail j \<or> length (md_file (fj_medium j)) = lg_end j) \<and>
     (\<exists>j2. open_journal sha (fj_medium j) (fj_repository j) c = Inr j2 \<and> log_of j2 = log_of j)"

lemma open_journal_same_file:
  "open_journal sha m repo c = Inr j \<Longrightarrow> md_file m' = md_file m \<Longrightarrow>
    \<exists>j'. open_journal sha m' repo c = Inr j' \<and> log_of j' = log_of j"
  by (fastforce simp: open_journal_iff opened_def log_of_def)

lemma opened_recovers:
  assumes "open_journal sha m repo c = Inr j" "8 dvd ck_offset c" "length repo = 16"
  shows "recovers sha c j"
proof -
  obtain t where "j = opened m repo t" using assms(1) by (auto simp: open_journal_iff)
  then have "fj_medium j = m" "fj_repository j = repo" "fj_tail j \<or> length (md_file m) = lg_end j"
    by (simp_all add: opened_def)
  then show ?thesis using assms by (simp add: recovers_def)
qed

definition same_prefix :: "nat \<Rightarrow> bytes \<Rightarrow> bytes \<Rightarrow> bool" where
  "same_prefix n f g \<longleftrightarrow> take n f = take n g \<and> n \<le> length f \<and> n \<le> length g"

lemma publish_recovers:
  assumes j: "recovers sha c j" and pub: "publish msg fresh at chunks committed j = (r, j')"
    and place: "place (lg_end j) (length (concat chunks)) = (fresh, at)"
    and room: "length (concat chunks) + header_size \<le> span" "concat chunks \<noteq> []"
    and first: "first = at + (if fresh then header_size else 0)"
    and torn: "\<And>s g. length g = first \<Longrightarrow> rp_at s = first \<Longrightarrow> rp_phase s = 0 \<Longrightarrow> log_of s = log_of j \<Longrightarrow>
        log_base \<le> first \<Longrightarrow> into_segment first \<noteq> 0 \<Longrightarrow> length (concat chunks) \<le> span - into_segment first \<Longrightarrow>
        torn sha (fj_repository j) g s (concat chunks) l"
    and committed: "log_of (committed j) = l" "fj_repository (committed j) = fj_repository j"
      "lg_end (committed j) = first + length (concat chunks)"
  shows "\<exists>j2. open_journal sha (fj_medium j') (fj_repository j) c = Inr j2 \<and>
        (log_of j2 = log_of j \<and> same_prefix (lg_end j) (md_file (fj_medium j)) (md_file (fj_medium j')) \<or>
         log_of j2 = l \<and> md_file (fj_medium j') = take (lg_end j) (md_file (fj_medium j)) @ appended j fresh at chunks)"
    and "is_ok r \<Longrightarrow> recovers sha c j' \<and> log_of j' = l \<and>
        md_file (fj_medium j') = take (lg_end j) (md_file (fj_medium j)) @ appended j fresh at chunks"
    and "\<not> is_ok r \<Longrightarrow> fj_poisoned j' \<and> log_of j' = log_of j"
proof -
  let ?f = "md_file (fj_medium j)"
  let ?repo = "fj_repository j"
  let ?w = "appended j fresh at chunks"
  obtain j2 where o: "open_journal sha (fj_medium j) ?repo c = Inr j2" "log_of j2 = log_of j"
    and repo: "length ?repo = 16" and tail: "fj_tail j \<or> length ?f = lg_end j" and c: "8 dvd ck_offset c"
    using j by (auto simp: recovers_def)
  have e: "lg_end j2 = lg_end j" using o(2) by (simp add: log_of_def)
  obtain u where u: "log_base \<le> lg_end j" "lg_end j \<le> length ?f" "8 dvd lg_end j" "rp_at u = lg_end j" "rp_phase u = 0"
      "log_of u = log_of j"
    and re: "\<And>m' x. md_file m' = take (lg_end j) ?f @ x \<Longrightarrow>
       open_journal sha m' ?repo c = bindR (replay_loop sha ?repo (md_file m') u) (\<lambda>t. Inr (opened m' ?repo t))"
    by (rule opened_prefix [OF o(1) c]) (metis e o(2))
  obtain m' where run: "append_log msg j fresh at chunks (fj_medium j) = (r, m')" and m': "fj_medium j' = m'"
    and ok: "is_ok r \<Longrightarrow> j' = (committed j)\<lparr>fj_medium := m', fj_tail := False\<rparr>"
    and bad: "\<not> is_ok r \<Longrightarrow> j' = j\<lparr>fj_medium := m', fj_poisoned := True\<rparr>"
    using pub by (auto simp: publish_def split: prod.splits sum.splits)
  have len: "length (take (lg_end j) ?f) = lg_end j" using u(2) by simp
  have pos: "0 < length (concat chunks)" by (rule length_greater_0_conv [THEN iffD2, OF room(2)])
  note pb = place_begin [OF u(1,3) place room(1) pos first]
  have t: "torn sha ?repo (take (lg_end j) ?f) u ?w l"
  proof (rule torn_appended [OF _ _ _ place room(1) pos first repo])
    show "torn sha ?repo g (u\<lparr>rp_at := first\<rparr>) (concat chunks) l" if "length g = first" for g
      using torn [OF that, of "u\<lparr>rp_at := first\<rparr>"] u(5,6) pb(3-5) by (simp add: log_of_def)
  qed (use len u in simp_all)
  have cases: "\<not> is_ok r \<and> md_file m' = ?f \<or>
      (\<exists>k. md_file m' = take (lg_end j) ?f @ take k ?w \<and> (is_ok r \<longrightarrow> length ?w \<le> k))"
    using append_log_file [OF run tail u(2) pb(1,2) repo] .
  have torn_open: "\<exists>j3. open_journal sha m' ?repo c = Inr j3 \<and> log_of j3 = (if k < length ?w then log_of j else l)"
    if k: "md_file m' = take (lg_end j) ?f @ take k ?w" for k
  proof -
    obtain t where "replay_loop sha ?repo (md_file m') u = Inr t" "log_of t = (if k < length ?w then log_of u else l)"
      using t unfolding torn_def k by blast
    then show ?thesis using re [OF k] u(6) by (simp add: opened_def log_of_def)
  qed
  show "\<exists>j2. open_journal sha (fj_medium j') ?repo c = Inr j2 \<and>
        (log_of j2 = log_of j \<and> same_prefix (lg_end j) ?f (md_file (fj_medium j')) \<or>
         log_of j2 = l \<and> md_file (fj_medium j') = take (lg_end j) ?f @ ?w)"
    using cases
  proof
    assume "\<not> is_ok r \<and> md_file m' = ?f"
    then show ?thesis using open_journal_same_file [OF o(1), of m'] o(2) m' u(2) by (auto simp: same_prefix_def)
  next
    assume "\<exists>k. md_file m' = take (lg_end j) ?f @ take k ?w \<and> (is_ok r \<longrightarrow> length ?w \<le> k)"
    then obtain k where k: "md_file m' = take (lg_end j) ?f @ take k ?w" by blast
    show ?thesis
    proof (cases "k < length ?w")
      case True
      then show ?thesis using torn_open [OF k] m' k u(2) by (auto simp: same_prefix_def)
    next
      case False
      then show ?thesis using torn_open [OF k] m' k by auto
    qed
  qed
  show "fj_poisoned j' \<and> log_of j' = log_of j" if "\<not> is_ok r"
    using bad [OF that] by (simp add: log_of_def)
  show "recovers sha c j' \<and> log_of j' = l \<and> md_file (fj_medium j') = take (lg_end j) ?f @ ?w" if r: "is_ok r"
  proof -
    obtain k where k: "md_file m' = take (lg_end j) ?f @ take k ?w" "length ?w \<le> k" using cases r by blast
    obtain j3 where j3: "open_journal sha m' ?repo c = Inr j3" "log_of j3 = l" using torn_open [OF k(1)] k(2) by auto
    have log: "log_of j' = l" "fj_repository j' = ?repo" "fj_medium j' = m'" "lg_end j' = first + length (concat chunks)"
      using ok [OF r] committed by (simp_all add: log_of_def)
    have "length ?w = first + length (concat chunks) - lg_end j"
      using pb(1,2) first repo by (auto simp: appended_def length_segment_header)
    moreover have "lg_end j \<le> first" using pb(1) first by simp
    ultimately have "length (md_file m') = lg_end j'" using k len log(4) by simp
    then show ?thesis using log j3 repo c k by (simp add: recovers_def)
  qed
qed

section \<open>Objects in the file\<close>

definition stored :: "(bytes \<Rightarrow> oid) \<Rightarrow> bytes \<Rightarrow> 'a log_state_scheme \<Rightarrow> oid \<Rightarrow> bytes \<Rightarrow> bool" where
  "stored sha f s i v \<longleftrightarrow> (\<exists>l seq. map_of (lg_objects s) i = Some l \<and> record_at f (loc_payload l) 1 seq (data_payload v) i \<and>
     loc_length l = record_size (4 + length v) \<and> loc_payload l + loc_length l \<le> lg_end s \<and> 0 < seq \<and> seq \<le> lg_sequence s \<and>
     object_hash sha v = i \<and> length v \<le> max_payload)"

lemma record_at_prefix:
  assumes "record_at f at type seq p i" "same_prefix n f g" "at + record_size (length p) \<le> n"
  shows "record_at g at type seq p i"
  using assms slice_agree [of n f g at "record_size (length p)"] by (auto simp: record_at_def same_prefix_def)

lemma stored_read:
  assumes "stored sha (md_file (fj_medium j)) j i v"
  shows "read_object sha j i = Inr v"
proof -
  obtain l seq where l: "map_of (lg_objects j) i = Some l" "record_at (md_file (fj_medium j)) (loc_payload l) 1 seq (data_payload v) i"
      "loc_length l = record_size (4 + length v)" "0 < seq" "seq \<le> lg_sequence j" "object_hash sha v = i" "length v \<le> max_payload"
    using assms by (auto simp: stored_def)
  have "read_record (md_file (fj_medium j)) (loc_payload l) (loc_payload l + loc_length l) =
      Inr (Some (log_record_of 1 seq (data_payload v) i))"
    using l(3) by (intro read_record_at [OF l(2)]) simp
  then show ?thesis using l by (simp add: read_object_def log_record_of_def)
qed

text \<open>The abstract journal that a file journal stands for.\<close>

definition represents :: "(bytes \<Rightarrow> oid) \<Rightarrow> fjournal \<Rightarrow> journal \<Rightarrow> bool" where
  "represents sha j a \<longleftrightarrow> \<not> j_leveldb a \<and> j_sequence a = lg_sequence j \<and> j_roots a = lg_roots j \<and>
     smap_ok (lg_objects j) \<and> smap_ok (j_objects a) \<and> dom (map_of (j_objects a)) = dom (map_of (lg_objects j)) \<and>
     (\<forall>i v. map_of (j_objects a) i = Some v \<longrightarrow> stored sha (md_file (fj_medium j)) j i v)"

lemma stored_prefix:
  assumes "stored sha f s i v" "log_of t = log_of s" "same_prefix (lg_end s) f g"
  shows "stored sha g t i v"
  using assms record_at_prefix [OF _ assms(3)] by (fastforce simp: stored_def log_of_def)

lemma represents_prefix:
  assumes "represents sha j a" "log_of j' = log_of j"
    "same_prefix (lg_end j) (md_file (fj_medium j)) (md_file (fj_medium j'))"
  shows "represents sha j' a"
  using assms(1,2) stored_prefix [OF _ assms(2,3)] by (auto simp: represents_def log_of_def)

text \<open>The journal contract's checks on a batch are those of the file journal.\<close>

lemma batch_mutation_represents:
  assumes "represents sha j a"
  shows "foldR (batch_mutation sha j) ms (t, refs) =
    map_sum (\<lambda>e. e) (\<lambda>t. (t, refs \<or> list_ex (\<lambda>m. m_reference m \<noteq> None) ms)) (foldR (file_mutation sha a) ms t)"
proof (induction ms arbitrary: t refs)
  case (Cons m ms)
  have roots: "map_of (lg_roots j) (m_key m) \<noteq> None \<longleftrightarrow> j_contains a (m_key m)"
    using assms by (simp add: represents_def j_contains_def)
  have ref: "map_of (lg_objects j) i \<noteq> None \<longleftrightarrow> map_of (j_objects a) i \<noteq> None" for i
    using assms by (auto simp: represents_def dom_def)
  have readable: "\<exists>v. read_object sha j i = Inr v" if "map_of (j_objects a) i \<noteq> None" for i
    using assms that stored_read unfolding represents_def by (metis not_None_eq)
  have "batch_mutation sha j m (t, refs) =
      map_sum (\<lambda>e. e) (\<lambda>t. (t, refs \<or> m_reference m \<noteq> None)) (file_mutation sha a m t)"
    unfolding batch_mutation_def file_mutation_def prod.case roots ref
    using readable by (auto simp: Let_def split: option.split)
  then show ?case using Cons.IH by (cases "file_mutation sha a m t") auto
qed simp

section \<open>Batches\<close>

text \<open>What the checks establish of a batch.\<close>

definition change_valid :: "journal \<Rightarrow> bool \<Rightarrow> oid set \<Rightarrow> string \<times> oid option \<Rightarrow> bool" where
  "change_valid a refs new = (\<lambda>(k, io). k \<noteq> [] \<and> length k \<le> 1024 \<and> (case io of None \<Rightarrow> j_contains a k
     | Some i \<Rightarrow> i \<in> new \<or> refs \<and> i \<in> dom (map_of (j_objects a))))"

definition batch_ok :: "(bytes \<Rightarrow> oid) \<Rightarrow> journal \<Rightarrow> bool \<Rightarrow> jbatch \<Rightarrow> bool" where
  "batch_ok sha a refs t \<longleftrightarrow> smap_ok (jb_changes t) \<and> smap_ok (jb_values t) \<and> length (jb_values t) \<le> length (jb_changes t) \<and>
     (\<forall>x \<in> set (jb_values t). object_hash sha (snd x) = fst x \<and> length (snd x) \<le> max_payload) \<and>
     (\<forall>x \<in> set (jb_changes t). change_valid a refs (dom (map_of (jb_values t))) x) \<and>
     (\<forall>i \<in> dom (map_of (jb_values t)). Some i \<in> snd ` set (jb_changes t))"

lemma change_valid_mono: "change_valid a refs new x \<Longrightarrow> (refs \<Longrightarrow> refs') \<Longrightarrow> new \<subseteq> new' \<Longrightarrow> change_valid a refs' new' x"
  by (auto simp: change_valid_def split: prod.splits option.splits)

lemma set_put_new: "map_of m k = None \<Longrightarrow> set (put k v m) = insert (k, v) (set m)"
  by (induction m) (auto split: if_splits)

lemma batch_ok_mono:
  assumes "batch_ok sha a refs t"
  shows "batch_ok sha a (refs \<or> more_refs) t"
proof -
  have "change_valid a (refs \<or> more_refs) new x" if "change_valid a refs new x" for new x
    by (rule change_valid_mono [OF that]) simp_all
  then show ?thesis using assms unfolding batch_ok_def by blast
qed

lemma batch_ok_change:
  assumes t: "batch_ok sha a refs t" and k: "map_of (jb_changes t) k = None"
    and io: "change_valid a refs (dom (map_of (jb_values t))) (k, io)"
  shows "batch_ok sha a refs (add_change k io t)" "length (jb_changes (add_change k io t)) = Suc (length (jb_changes t))"
  using t io unfolding batch_ok_def add_change_def
  by (simp_all add: set_put_new [OF k] length_put [OF k])

lemma batch_ok_value:
  assumes t: "batch_ok sha a refs t" and k: "map_of (jb_changes t) k = None" "k \<noteq> []" "length k \<le> 1024" and v: "length v \<le> max_payload"
  shows "batch_ok sha a refs (add_change k (Some (object_hash sha v)) (add_value sha v t)) \<and>
    length (jb_changes (add_change k (Some (object_hash sha v)) (add_value sha v t))) = Suc (length (jb_changes t))"
proof (cases "map_of (jb_values t) (object_hash sha v)")
  case (Some w)
  then have "change_valid a refs (dom (map_of (jb_values t))) (k, Some (object_hash sha v))"
    using k by (simp add: change_valid_def dom_def)
  then show ?thesis using batch_ok_change [OF t k(1)] Some by (simp add: add_value_def)
next
  case None
  let ?h = "object_hash sha v"
  let ?new = "insert ?h (dom (map_of (jb_values t)))"
  have new: "dom (map_of (put ?h v (jb_values t))) = ?new" by simp
  have "change_valid a refs ?new (k, Some ?h)" using k by (simp add: change_valid_def)
  moreover have "change_valid a refs ?new x" if "x \<in> set (jb_changes t)" for x
    using t that change_valid_mono [of a refs _ x refs ?new] unfolding batch_ok_def by (metis subset_insertI)
  moreover have "\<forall>i \<in> ?new. Some i \<in> insert (Some ?h) (snd ` set (jb_changes t))" using t by (auto simp: batch_ok_def)
  ultimately show ?thesis
    using t v unfolding batch_ok_def add_change_def add_value_def Let_def
    by (simp add: None set_put_new [OF k(1)] length_put [OF k(1)] set_put_new [OF None] length_put [OF None] new del: dom_fun_upd map_of_put)
qed

lemma file_mutation_ok:
  assumes t: "batch_ok sha a refs t" and m: "file_mutation sha a m t = Inr t'"
  shows "batch_ok sha a (refs \<or> m_reference m \<noteq> None) t' \<and> length (jb_changes t') = Suc (length (jb_changes t))"
proof -
  have k: "map_of (jb_changes t) (m_key m) = None" "m_key m \<noteq> []" "length (m_key m) \<le> 1024"
    using m by (auto simp: file_mutation_def split: if_splits)
  show ?thesis
  proof (cases "m_reference m")
    case (Some i)
    then have "t' = add_change (m_key m) (Some i) t" "i \<in> dom (map_of (j_objects a))"
      using m by (auto simp: file_mutation_def split: if_splits)
    then show ?thesis
      using batch_ok_change [OF batch_ok_mono [OF t, of True] k(1), of "Some i"] Some k by (simp add: change_valid_def)
  next
    case None
    show ?thesis
    proof (cases "m_value m")
      case v: (Some v)
      then have "t' = add_change (m_key m) (Some (object_hash sha v)) (add_value sha v t)" "length v \<le> max_payload"
        using m None by (auto simp: file_mutation_def Let_def split: if_splits)
      then show ?thesis using batch_ok_value [OF t k] None by simp
    next
      case v: None
      then have "t' = add_change (m_key m) None t" "j_contains a (m_key m)"
        using m None by (auto simp: file_mutation_def split: if_splits)
      then show ?thesis using batch_ok_change [OF t k(1), of None] None k by (simp add: change_valid_def)
    qed
  qed
qed

lemma file_mutations_ok:
  assumes "foldR (file_mutation sha a) ms t = Inr t'" "batch_ok sha a refs t"
  shows "batch_ok sha a (refs \<or> list_ex (\<lambda>m. m_reference m \<noteq> None) ms) t' \<and>
    length (jb_changes t') = length (jb_changes t) + length ms"
  using assms
proof (induction ms arbitrary: t refs)
  case (Cons m ms)
  obtain u where u: "file_mutation sha a m t = Inr u" "foldR (file_mutation sha a) ms u = Inr t'"
    using Cons.prems(1) by auto
  note step = file_mutation_ok [OF Cons.prems(2) u(1)]
  show ?case using Cons.IH [OF u(2) conjunct1 [OF step]] step by (simp add: disj_assoc)
qed simp

lemma empty_batch_ok: "batch_ok sha a False empty_batch"
  by (simp add: batch_ok_def)

lemma data_records_snoc:
  "data_records seq (xs @ [x]) = (case data_records seq xs of (b, ls) \<Rightarrow>
     (b @ data_record seq x, put (fst x) \<lparr>loc_payload = length b, loc_length = length (data_record seq x)\<rparr> ls))"
  by (simp add: data_records_def Let_def split: prod.split)

lemma data_records_located:
  assumes "data_records seq xs = (b, ls)" "distinct (map fst xs)"
  shows "smap_ok ls \<and> dom (map_of ls) = fst ` set xs \<and> b = datas_of seq xs \<and>
    (\<forall>x \<in> set xs. \<exists>off. map_of ls (fst x) = Some \<lparr>loc_payload = off, loc_length = length (data_record seq x)\<rparr> \<and>
      off + length (data_record seq x) \<le> length b \<and> slice off (length (data_record seq x)) b = data_record seq x)"
  using assms
proof (induction xs arbitrary: b ls rule: rev_induct)
  case Nil
  then show ?case by (simp add: data_records_def)
next
  case (snoc x xs)
  obtain b0 ls0 where r: "data_records seq xs = (b0, ls0)" by force
  let ?d = "data_record seq x"
  have b: "b = b0 @ ?d" "ls = put (fst x) \<lparr>loc_payload = length b0, loc_length = length ?d\<rparr> ls0"
    using snoc.prems(1) by (simp_all add: data_records_snoc r)
  have new: "fst x \<notin> fst ` set xs" "distinct (map fst xs)" using snoc.prems(2) by auto
  note IH = snoc.IH [OF r new(2)]
  have old: "\<exists>off. map_of ls (fst y) = Some \<lparr>loc_payload = off, loc_length = length (data_record seq y)\<rparr> \<and>
      off + length (data_record seq y) \<le> length b \<and> slice off (length (data_record seq y)) b = data_record seq y"
    if y: "y \<in> set xs" for y
  proof -
    obtain off where off: "map_of ls0 (fst y) = Some \<lparr>loc_payload = off, loc_length = length (data_record seq y)\<rparr>"
      "off + length (data_record seq y) \<le> length b0" "slice off (length (data_record seq y)) b0 = data_record seq y"
      using IH y by blast
    moreover have "fst y \<noteq> fst x" using new(1) y by (metis image_eqI)
    ultimately show ?thesis by (intro exI [of _ off]) (simp add: b slices)
  qed
  have "map_of ls (fst x) = Some \<lparr>loc_payload = length b0, loc_length = length ?d\<rparr>" "length b0 + length ?d \<le> length b"
      "slice (length b0) (length ?d) b = ?d"
    by (simp_all add: b slices)
  moreover have "smap_ok ls" "dom (map_of ls) = fst ` set (xs @ [x])" "b = datas_of seq (xs @ [x])"
    using IH by (simp_all add: b datas_of_def)
  ultimately show ?case using old by auto
qed

lemma fold_put_shift:
  "fold (\<lambda>(i, l). put i (l\<lparr>loc_payload := n + loc_payload l\<rparr>)) ls m = fold (\<lambda>(i, l). put i l) (map (shift n) ls) m"
  by (induction ls arbitrary: m) (auto simp: shift_def)

lemma fold_put:
  assumes "smap_ok ls" "smap_ok m"
  shows "smap_ok (fold (\<lambda>(i, l). put i l) ls m)" "map_of (fold (\<lambda>(i, l). put i l) ls m) = map_of m ++ map_of ls"
proof -
  have "smap_ok (fold (\<lambda>(i, l). put i l) ls m) \<and> map_of (fold (\<lambda>(i, l). put i l) ls m) = map_of m ++ map_of ls"
    using assms
  proof (induction ls arbitrary: m)
    case (Cons x ls)
    obtain i l where x: "x = (i, l)" by force
    have "map_of ls i = None" using map_of_below [OF Cons.prems(1), of i] x by simp
    then show ?case using Cons.IH [of "put i l m"] Cons.prems x by (auto simp: map_add_def fun_eq_iff split: option.splits)
  qed simp
  then show "smap_ok (fold (\<lambda>(i, l). put i l) ls m)" "map_of (fold (\<lambda>(i, l). put i l) ls m) = map_of m ++ map_of ls" by simp_all
qed

lemma map_shift_smap: "smap_ok ls \<Longrightarrow> smap_ok (map (shift n) ls)" "map_of (map (shift n) ls) i = map_option (\<lambda>l. l\<lparr>loc_payload := n + loc_payload l\<rparr>) (map_of ls i)"
  by (induction ls) (auto simp: shift_def)

lemma map_shift_dom: "dom (map_of (map (shift n) ls)) = dom (map_of ls)"
  by (auto simp: dom_def map_shift_smap(2))

text \<open>The prepare record of a checked batch is accepted after its data records.\<close>

lemma prepare_fits:
  assumes "\<forall>x \<in> set cs. length (fst x) \<le> 1024" "length cs \<le> 64" "type < 65536"
  shows "record_fits type (prepare_payload prev expected cs)"
proof -
  have "length (concat (map change_entry cs)) \<le> 1064 * length cs"
    using assms(1) by (induction cs) (auto simp: length_change_entry)
  then have "length (prepare_payload prev expected cs) \<le> 44 + 1064 * 64" using assms(2) by (simp add: length_prepare_payload)
  then show ?thesis
    using record_size_bounds(2) [of "length (prepare_payload prev expected cs)"] assms(3) by (simp add: record_fits_def)
qed

lemma checked_prepare:
  assumes j: "represents sha j a" and t: "batch_ok sha a refs t" and n: "0 < length (jb_changes t)" "length (jb_changes t) \<le> 64"
    and s: "rp_phase s = 0" "log_of s = log_of j" and d: "data_records seq (jb_values t) = (datas, ls)"
    and p: "p = prepare_payload (lg_last j) (lg_sequence j) (jb_changes t)"
  shows "prepare_changes (if refs then 8 else 7) p (fresh_batch (fold (data_turn seq) (jb_values t) s)) = Inr (jb_changes t)"
proof -
  let ?u = "fold (data_turn seq) (jb_values t) s"
  let ?t = "fresh_batch ?u"
  have distinct: "distinct (map fst (jb_values t))" using t by (simp add: batch_ok_def smap_ok_distinct)
  have start: "rp_batch (fresh_batch s) = []" "rp_pending (fresh_batch s) = map (shift (rp_at s)) []" "rp_at s = rp_at s + length ([] :: bytes)"
      "rp_changes (fresh_batch s) = []" "rp_phase s < 2"
    using s(1) by (simp_all add: fresh_batch_def)
  have u: "rp_pending ?t = map (shift (rp_at s)) ls" "rp_changes ?t = []" "log_of ?u = log_of j"
    using data_records_turns [OF d [unfolded data_records_def] start(1,2,3,5) refl] start(4) s(2) by simp_all
  have log: "lg_sequence ?t = lg_sequence j" "lg_roots ?t = lg_roots j" "lg_objects ?t = lg_objects j"
    using u(3) by (simp_all add: log_of_def fresh_batch_def)
  note located = data_records_located [OF d distinct]
  have pending: "smap_ok (rp_pending ?t)" "dom (map_of (rp_pending ?t)) = dom (map_of (jb_values t))"
    using located unfolding u(1) map_shift_dom by (simp_all add: map_shift_smap(1) dom_map_of_conv_image_fst)
  show ?thesis
  proof (rule prepare_changes_ok [OF _ n])
    show "p = prepare_payload (lg_last j) (lg_sequence ?t) (jb_changes t)" using p log by simp
    have "change_ok (if refs then 8 else 7) ?t x" if "x \<in> set (jb_changes t)" for x
    proof -
      have "change_valid a refs (dom (map_of (jb_values t))) x" using t that by (simp add: batch_ok_def)
      then show ?thesis
        using j pending(2) log unfolding represents_def
        by (auto simp: change_valid_def change_ok_def j_contains_def dom_def split: prod.splits option.splits)
    qed
    then show "list_all (change_ok (if refs then 8 else 7) ?t) (jb_changes t)" by (simp add: list_all_iff)
    show "\<forall>i \<in> dom (map_of (rp_pending ?t)). \<exists>key. (key, Some i) \<in> set (jb_changes t)"
      using t unfolding pending(2) batch_ok_def by (metis (no_types, lifting) imageE prod.collapse)
  qed (use t u pending in \<open>simp_all add: batch_ok_def\<close>)
qed

end
