(* ===== verification/File_Journal_Props.thy ===== *)
theory File_Journal_Props
  imports File_Journal_Contract
begin

text \<open>
  Correctness of the single-file journal: batches refine the journal contract, and a crash or a
  failing system call at any point of a batch leaves a file that reopens to the state before or
  after it.
\<close>

section \<open>Sealing a batch\<close>

text \<open>The in-memory change of a sealed batch.\<close>

definition sealed_state :: "jbatch \<Rightarrow> (oid, location) smap \<Rightarrow> nat \<Rightarrow> fjournal \<Rightarrow> fjournal" where
  "sealed_state t ls first j = j\<lparr>lg_objects := fold (\<lambda>(i, l). put i (l\<lparr>loc_payload := first + loc_payload l\<rparr>)) ls (lg_objects j),
     lg_roots := apply_changes (jb_changes t) (lg_roots j)\<rparr>"

lemma sealed_represents:
  assumes j: "represents sha j a" and t: "batch_ok sha a refs t" and seq: "lg_sequence j \<noteq> - 1" "seq = lg_sequence j + 1"
    and d: "data_records seq (jb_values t) = (datas, ls)"
    and g: "same_prefix (lg_end j) (md_file (fj_medium j)) g" "lg_end j \<le> first" "first + length datas \<le> end" "end \<le> length g"
      "slice first (length datas) g = datas"
    and room: "log_base \<le> first" "length datas < span - into_segment first"
    and k: "md_file (fj_medium k) = g" "log_of k = (seq, end, h, lg_roots (sealed_state t ls first j), lg_objects (sealed_state t ls first j))"
  shows "represents sha k (j_commit t a)"
proof -
  have distinct: "distinct (map fst (jb_values t))" using t by (simp add: batch_ok_def smap_ok_distinct)
  note located = data_records_located [OF d distinct]
  let ?ls = "map (shift first) ls"
  have ls: "smap_ok ?ls" "dom (map_of ?ls) = dom (map_of (jb_values t))"
    using located unfolding map_shift_dom by (simp_all add: map_shift_smap(1) dom_map_of_conv_image_fst)
  have log: "lg_sequence k = seq" "lg_end k = end" "lg_roots k = apply_changes (jb_changes t) (lg_roots j)"
      "lg_objects k = fold (\<lambda>(i, l). put i l) ?ls (lg_objects j)"
    using k(2) by (simp_all add: log_of_def sealed_state_def fold_put_shift)
  have ok: "smap_ok (lg_objects j)" "smap_ok (j_objects a)" "smap_ok (jb_values t)" using j t by (simp_all add: represents_def batch_ok_def)
  have objects: "smap_ok (lg_objects k)" "map_of (lg_objects k) = map_of (lg_objects j) ++ map_of ?ls"
    using fold_put [OF ls(1) ok(1)] log(4) by simp_all
  have commit: "j_objects (j_commit t a) = fold (\<lambda>(i, v). put i v) (jb_values t) (j_objects a)"
    using j by (simp add: j_commit_def represents_def)
  have objects': "smap_ok (j_objects (j_commit t a))" "map_of (j_objects (j_commit t a)) = map_of (j_objects a) ++ map_of (jb_values t)"
    unfolding commit using fold_put [OF ok(3,2)] by simp_all
  have le: "lg_sequence j \<le> seq" "0 < seq"
    using u64_less_succ [OF seq(1)] seq(2) by (auto simp: word_gt_0) 
  have stored: "stored sha g k i v" if v: "map_of (j_objects (j_commit t a)) i = Some v" for i v
  proof (cases "map_of (jb_values t) i")
    case None
    then have old: "map_of (j_objects a) i = Some v" "map_of ?ls i = None" using v objects'(2) ls(2) by (auto simp: map_add_def)
    then obtain l q where l: "map_of (lg_objects j) i = Some l" "record_at (md_file (fj_medium j)) (loc_payload l) 1 q (data_payload v) i"
        "loc_length l = record_size (4 + length v)" "loc_payload l + loc_length l \<le> lg_end j" "0 < q" "q \<le> lg_sequence j"
        "object_hash sha v = i" "length v \<le> max_payload"
      using j unfolding represents_def stored_def by blast
    have "record_at g (loc_payload l) 1 q (data_payload v) i" using record_at_prefix [OF l(2) g(1)] l(3,4) by simp
    moreover have "map_of (lg_objects k) i = Some l" using objects(2) l(1) old(2) by (simp add: map_add_def)
    moreover have "loc_payload l + loc_length l \<le> lg_end k" "q \<le> lg_sequence k" using l(4,6) g(2,3) log le by auto
    ultimately show ?thesis using l unfolding stored_def by blast
  next
    case (Some w)
    then have w: "w = v" using v objects'(2) by (simp add: map_add_def)
    then have x: "(i, v) \<in> set (jb_values t)" using Some by (simp add: map_of_SomeD)
    have hash: "object_hash sha v = i" "length v \<le> max_payload" using t x by (auto simp: batch_ok_def)
    let ?n = "record_size (4 + length v)"
    have n: "length (data_record seq (i, v)) = ?n" by (simp add: data_record_def)
    obtain off where off: "map_of ls i = Some \<lparr>loc_payload = off, loc_length = ?n\<rparr>" "off + ?n \<le> length datas"
        "slice off ?n datas = data_record seq (i, v)"
      using located x n by (metis (no_types, lifting) fst_conv)
    have "slice (first + off) ?n g = data_record seq (i, v)"
      using off(2,3) slice_slice [of off ?n "length datas" first g] g(5) by simp
    moreover have "?n \<le> span - into_segment (first + off)"
    proof -
      have "into_segment first + off \<noteq> span" "off \<le> span - into_segment first" using off(2) room(2) record_size_bounds(1) [of "4 + length v"] by linarith+
      then have "into_segment (first + off) = into_segment first + off" using into_segment_add [OF room(1), of off] by simp
      then show ?thesis using off(2) room(2) by linarith
    qed
    ultimately have at: "record_at g (first + off) 1 seq (data_payload v) i"
      using data_record_fits [OF hash(2)] off(2) g(3,4) by (simp add: record_at_def data_record_def)
    have "map_of (lg_objects k) i = Some \<lparr>loc_payload = first + off, loc_length = ?n\<rparr>"
      using objects(2) off(1) by (simp add: map_add_def map_shift_smap(2))
    then show ?thesis
      unfolding stored_def using at hash off(2) g(3) log le
      by (intro exI [of _ "\<lparr>loc_payload = first + off, loc_length = ?n\<rparr>"] exI [of _ seq]) simp
  qed
  have "dom (map_of (j_objects (j_commit t a))) = dom (map_of (lg_objects k))"
    using j ls(2) unfolding objects(2) objects'(2) represents_def by simp
  then show ?thesis
    using j stored objects(1) objects'(1) log seq(2) k(1) unfolding represents_def by (simp add: j_commit_def)
qed

text \<open>What reopening finds after a batch was tried: the journal before it, or the journal after it, and
  the latter when the batch returned.\<close>

definition crash_safe :: "(bytes \<Rightarrow> oid) \<Rightarrow> checkpoint \<Rightarrow> fjournal \<Rightarrow> journal \<Rightarrow> journal \<Rightarrow> unit res \<Rightarrow> fjournal \<Rightarrow> bool" where
  "crash_safe sha c j a b r j' \<longleftrightarrow>
     (\<exists>j2. open_journal sha (fj_medium j') (fj_repository j) c = Inr j2 \<and> recovers sha c j2 \<and>
        (represents sha j2 a \<and> \<not> is_ok r \<or> represents sha j2 b)) \<and>
     (is_ok r \<longrightarrow> recovers sha c j' \<and> represents sha j' b)"

lemma unchanged_crash_safe:
  assumes "recovers sha c j" "represents sha j a" "\<not> is_ok r"
  shows "crash_safe sha c j a b r j"
proof -
  obtain j2 where o: "open_journal sha (fj_medium j) (fj_repository j) c = Inr j2" "log_of j2 = log_of j"
      "8 dvd ck_offset c" "length (fj_repository j) = 16"
    using assms(1) by (auto simp: recovers_def)
  obtain u where "lg_end j2 \<le> length (md_file (fj_medium j))" by (rule opened_prefix [OF o(1,3)])
  moreover have "fj_medium j2 = fj_medium j" using o(1) by (auto simp: open_journal_iff opened_def)
  ultimately have "same_prefix (lg_end j) (md_file (fj_medium j)) (md_file (fj_medium j2))"
    using o(2) by (simp add: same_prefix_def log_of_def)
  then have "represents sha j2 a" by (rule represents_prefix [OF assms(2) o(2)])
  moreover have "recovers sha c j2" by (rule opened_recovers [OF o(1,3,4)])
  ultimately show ?thesis using o(1) assms(3) by (auto simp: crash_safe_def)
qed

lemma seal_crash_safe:
  assumes j: "recovers sha c j" "represents sha j a" and t: "batch_ok sha a refs t"
    and n: "0 < length (jb_changes t)" "length (jb_changes t) \<le> 64" and seq: "lg_sequence j \<noteq> - 1" "seq = lg_sequence j + 1"
    and d: "data_records seq (jb_values t) = (datas, ls)" and p: "p = prepare_payload (lg_last j) (lg_sequence j) (jb_changes t)"
    and batch: "batch = datas @ encode_record (if refs then 8 else 7) seq p 0" "length batch \<le> 2 * 1024 * 1024"
    and run: "seal sha batch (length datas) p (sealed_state t ls) j = (r, j')"
  shows "crash_safe sha c j a (j_commit t a) r j'"
proof -
  obtain fresh at where place: "place (lg_end j) (length batch + 216) = (fresh, at)" by force
  define first where "first = at + (if fresh then header_size else 0)"
  define q where "q = commit_payload seq (lg_last j) (first + length datas) (record_size (length p)) (sha p) first (first + length batch) (sha batch)"
  define commit where "commit = encode_record 3 seq q 0"
  define finish where "finish = (\<lambda>j. (sealed_state t ls first j)\<lparr>lg_sequence := seq, lg_last := tagged sha ''forkfs.commit.v0'' q,
      lg_end := first + length batch + length commit\<rparr>)"
  have seal: "seal sha batch (length datas) p (sealed_state t ls) j =
      (if at \<le> max_offset - span then publish ''truncate uncommitted tail'' fresh at [batch, commit] finish j
       else (Inl (Runtime_error ''container offset exhausted''), j))"
    unfolding seal_def bindS_get place Let_def prod.case by (simp add: first_def q_def commit_def finish_def seq(2))
  show ?thesis
  proof (cases "at \<le> max_offset - span")
    case False
    then have "r = Inl (Runtime_error ''container offset exhausted'')" "j' = j" using seal run by simp_all
    then show ?thesis using unchanged_crash_safe [OF j] by simp
  next
    case True
    then have pub: "publish ''truncate uncommitted tail'' fresh at [batch, commit] finish j = (r, j')" using seal run by simp
    have c: "length commit = 216" by (simp add: commit_def q_def record_size_commit)
    let ?w = "concat [batch, commit]" and ?l = "log_of (finish j)"
    let ?f = "md_file (fj_medium j)" and ?g = "md_file (fj_medium j')"
    have w: "?w = batch @ commit" "length ?w = length batch + 216" by (simp_all add: c)
    have ls: "log_of (finish j) = (seq, first + length batch + 216, tagged sha ''forkfs.commit.v0'' q,
        lg_roots (sealed_state t ls first j), lg_objects (sealed_state t ls first j))"
      by (simp add: finish_def log_of_def c)
    have torn: "torn sha (fj_repository j) g s ?w ?l"
      if s: "length g = first" "rp_at s = first" "rp_phase s = 0" "log_of s = log_of j" "log_base \<le> first" "into_segment first \<noteq> 0"
        "length ?w \<le> span - into_segment first" for s g
    proof -
      have log: "lg_sequence s = lg_sequence j" "lg_last s = lg_last j" "lg_roots s = lg_roots j" "lg_objects s = lg_objects j"
        using s(4) by (simp_all add: log_of_def)
      have fits: "objects_fit sha (jb_values t)" "length (jb_values t) \<le> 64"
        using t n(2) by (auto simp: batch_ok_def objects_fit_def list_all_iff smap_ok_distinct)
      have keys: "\<forall>x \<in> set (jb_changes t). length (fst x) \<le> 1024"
        using t by (auto simp: batch_ok_def change_valid_def)
      have "torn sha (fj_repository j) g s (batch @ encode_record 3 seq q 0)
        (seq, length g + length batch + 216, tagged sha ''forkfs.commit.v0'' q, apply_changes (jb_changes t) (lg_roots s),
         fold (\<lambda>(i, l). put i l) (map (shift (length g)) ls) (lg_objects s))"
      proof (rule torn_batch [OF _ _ _ _ _ _ _ fits d, where type = "if refs then 8 else 7" and p = p and batch = batch])
        show "length g + span < 2 ^ 64" using True s(1) first_def by (simp split: if_splits)
        show "prepare_changes (if refs then 8 else 7) p (fresh_batch (fold (data_turn seq) (jb_values t) s)) = Inr (jb_changes t)"
          by (rule checked_prepare [OF j(2) t n s(3,4) d p])
        show "record_fits (if refs then 8 else 7) p" unfolding p by (rule prepare_fits [OF keys n(2)]) simp
        show "oid_at p 0 = lg_last s" "36 \<le> length p" using log by (simp_all add: p prepare_payload_def slices)
        show "q = commit_payload seq (lg_last s) (length g + length datas) (record_size (length p)) (sha p) (length g)
            (length g + length batch) (sha batch)" by (simp add: q_def s(1) log)
        show "length batch + 216 \<le> span - into_segment (length g)" using s(1,7) w(2) by simp
      qed (use s seq log batch in simp_all)
      then show ?thesis
        using s(1) log unfolding w(1) commit_def ls by (simp add: sealed_state_def fold_put_shift)
    qed
    have place': "place (lg_end j) (length ?w) = (fresh, at)" using place w(2) by simp
    have room: "length ?w + header_size \<le> span" "?w \<noteq> []" using batch(2) w(2) c by (auto simp del: concat.simps)
    have fin: "fj_repository (finish j) = fj_repository j" "lg_end (finish j) = first + length ?w"
      by (simp_all add: finish_def sealed_state_def w)
    have reopen: "\<exists>j2. open_journal sha (fj_medium j') (fj_repository j) c = Inr j2 \<and>
        (log_of j2 = log_of j \<and> same_prefix (lg_end j) ?f ?g \<or>
         log_of j2 = ?l \<and> ?g = take (lg_end j) ?f @ appended j fresh at [batch, commit])"
      by (rule publish_recovers(1) [OF j(1) pub place' room first_def _ refl fin]) (rule torn)
    have returned: "recovers sha c j' \<and> log_of j' = ?l \<and> ?g = take (lg_end j) ?f @ appended j fresh at [batch, commit]" if "is_ok r"
      by (rule publish_recovers(2) [OF j(1) pub place' room first_def _ refl fin that]) (rule torn)
    obtain j0 where o: "open_journal sha (fj_medium j) (fj_repository j) c = Inr j0" "log_of j0 = log_of j"
      and repo: "length (fj_repository j) = 16" and dvd: "8 dvd ck_offset c"
      using j(1) by (auto simp: recovers_def)
    obtain u where "log_base \<le> lg_end j0" "lg_end j0 \<le> length ?f" "8 dvd lg_end j0" by (rule opened_prefix [OF o(1) dvd])
    then have e: "log_base \<le> lg_end j" "lg_end j \<le> length ?f" "8 dvd lg_end j" using o(2) by (simp_all add: log_of_def)
    have pb: "lg_end j \<le> at" "fresh \<or> at = lg_end j" "log_base \<le> first" "length ?w \<le> span - into_segment first"
      using place_begin(1,2,3,5) [OF e(1,3) place' room(1) length_greater_0_conv [THEN iffD2, OF room(2)] first_def] by blast+
    have new: "represents sha k (j_commit t a)"
      if k: "md_file (fj_medium k) = take (lg_end j) ?f @ appended j fresh at [batch, commit]" "log_of k = ?l" for k
    proof -
      let ?pre = "if fresh then replicate (at - lg_end j) (CHR 0x00) @ segment_header (fj_repository j) ((at - log_base) div span) else []"
      have g: "md_file (fj_medium k) = (take (lg_end j) ?f @ ?pre) @ datas @ encode_record (if refs then 8 else 7) seq p 0 @ commit"
        using k(1) batch(1) by (simp add: appended_def)
      have len: "length (take (lg_end j) ?f @ ?pre) = first"
        using e(2) pb(1,2) repo first_def by (auto simp: length_segment_header)
      have datas: "length datas < length batch" using batch(1) record_size_bounds(1) [of "length p"] by simp
      show ?thesis
      proof (rule sealed_represents [OF j(2) t seq d _ _ _ _ _ pb(3) _ refl k(2) [unfolded ls]])
        show "same_prefix (lg_end j) ?f (md_file (fj_medium k))" using e(2) by (simp add: same_prefix_def k(1))
        show "lg_end j \<le> first" using pb(1) first_def by simp
        show "first + length datas \<le> first + length batch + 216" using datas by simp
        show "first + length batch + 216 \<le> length (md_file (fj_medium k))" unfolding g length_append len [unfolded length_append] by (simp add: batch(1) c)
        show "slice first (length datas) (md_file (fj_medium k)) = datas" unfolding g using len by (simp add: slices)
        show "length datas < span - into_segment first" using pb(4) datas w(2) by linarith
      qed
    qed
    obtain j2 where j2: "open_journal sha (fj_medium j') (fj_repository j) c = Inr j2"
      and cases: "log_of j2 = log_of j \<and> same_prefix (lg_end j) ?f ?g \<or> log_of j2 = ?l \<and> ?g = take (lg_end j) ?f @ appended j fresh at [batch, commit]"
      using reopen by blast
    have m: "fj_medium j2 = fj_medium j'" using j2 by (auto simp: open_journal_iff opened_def)
    have reps: "represents sha j2 a \<or> represents sha j2 (j_commit t a)"
      using cases represents_prefix [OF j(2), of j2] new [of j2] m by auto
    have ok: "recovers sha c j' \<and> represents sha j' (j_commit t a) \<and> represents sha j2 (j_commit t a)" if r: "is_ok r"
    proof -
      have j': "recovers sha c j'" "log_of j' = ?l" "?g = take (lg_end j) ?f @ appended j fresh at [batch, commit]" using returned [OF r] by simp_all
      then obtain j3 where j3: "open_journal sha (fj_medium j') (fj_repository j') c = Inr j3" "log_of j3 = log_of j'"
        by (auto simp: recovers_def)
      have "fj_repository j' = fj_repository j"
        using pub r fin(1) by (auto simp: publish_def split: prod.splits sum.splits)
      then have "log_of j2 = ?l" using j2 j3 j'(2) by simp
      then show ?thesis using j' new [of j'] new [of j2] m by simp
    qed
    show ?thesis
      unfolding crash_safe_def using j2 opened_recovers [OF j2 dvd repo] reps ok by blast
  qed
qed

section \<open>Batches\<close>

lemma datas_length:
  "length (datas_of seq xs) = (\<Sum>(_, v) \<leftarrow> xs. record_size (4 + length v))"
  by (induction xs) (auto simp: data_record_def)

lemma changes_length: "length (concat (map change_entry cs)) = (\<Sum>(k, _) \<leftarrow> cs. 40 + length k)"
  by (induction cs) (auto simp: length_change_entry)

lemma batch_size_length:
  assumes "data_records seq (jb_values t) = (datas, ls)" "smap_ok (jb_values t)" "p = prepare_payload prev expected (jb_changes t)"
  shows "length (datas @ encode_record type seq p 0) = batch_size t"
proof -
  have "datas = datas_of seq (jb_values t)"
    using data_records_located [OF assms(1) smap_ok_distinct [OF assms(2)]] by simp
  then show ?thesis by (simp add: batch_size_def datas_length assms(3) length_prepare_payload changes_length)
qed

text \<open>A batch is checked as the contract checks it, and then sealed.\<close>

lemma file_transact_contract:
  assumes j: "represents sha j a" "\<not> fj_poisoned j"
  shows "file_transact sha expected ms j = (case j_transact sha expected ms a of
      Inl e \<Rightarrow> (Inl e, j)
    | Inr b \<Rightarrow> (case foldR (file_mutation sha a) ms empty_batch of Inl e \<Rightarrow> (Inl e, j) | Inr t \<Rightarrow>
        let seq = lg_sequence j + 1; (datas, ls) = data_records seq (jb_values t); p = prepare_payload (lg_last j) (lg_sequence j) (jb_changes t) in
        seal sha (datas @ encode_record (if list_ex (\<lambda>m. m_reference m \<noteq> None) ms then 8 else 7) seq p 0) (length datas) p (sealed_state t ls) j))"
proof -
  have a: "j_sequence a = lg_sequence j" "\<not> j_leveldb a" using j(1) by (simp_all add: represents_def)
  show ?thesis
  proof (cases "expected = lg_sequence j \<and> lg_sequence j \<noteq> - 1 \<and> ms \<noteq> [] \<and> length ms \<le> 64")
    case False
    then show ?thesis
      using a j(2) by (auto simp: file_transact_def healthyF_def j_transact_def bindS_get)
  next
    case True
    then show ?thesis
    proof (cases "foldR (file_mutation sha a) ms empty_batch")
      case (Inl e)
      then show ?thesis
        using a j(2) True batch_mutation_represents [OF j(1), of ms empty_batch False]
        by (simp add: file_transact_def healthyF_def j_transact_def bindS_get bindS_def)
    next
      case (Inr t)
      obtain datas ls where d: "data_records (lg_sequence j + 1) (jb_values t) = (datas, ls)" by force
      have t: "smap_ok (jb_values t)" using file_mutations_ok [OF Inr empty_batch_ok] by (simp add: batch_ok_def)
      have "length (datas @ encode_record type (lg_sequence j + 1) (prepare_payload (lg_last j) (lg_sequence j) (jb_changes t)) 0) =
          batch_size t" for type
        by (rule batch_size_length [OF d t refl])
      then have size: "length datas + record_size (length (prepare_payload (lg_last j) (lg_sequence j) (jb_changes t))) = batch_size t"
        by simp
      show ?thesis
        using a j(2) True batch_mutation_represents [OF j(1), of ms empty_batch False] Inr size
        by (auto simp: file_transact_def healthyF_def j_transact_def bindS_get bindS_def d sealed_state_def [abs_def] Let_def)
    qed
  qed
qed

section \<open>Calls that succeed\<close>

definition calm :: "(medium, 'a) op \<Rightarrow> bool" where
  "calm m \<longleftrightarrow> (\<forall>s. md_calls s = [] \<longrightarrow> (\<exists>x t. m s = (Inr x, t) \<and> md_calls t = []))"

lemma calm_bind: "calm m \<Longrightarrow> (\<And>x. calm (g x)) \<Longrightarrow> calm (bindS m g)"
  unfolding calm_def bindS_ok_iff by blast

lemma calm_basic: "calm (returnS x)" "calm (write_bytes at b)" "calm sync_file" "calm (truncate_file msg n)"
  by (auto simp: calm_def write_bytes_def sync_file_def truncate_file_def sys_call_def split: prod.splits)

lemma calm_if: "(p \<Longrightarrow> calm m) \<Longrightarrow> (\<not> p \<Longrightarrow> calm n) \<Longrightarrow> calm (if p then m else n)"
  by simp

lemma calm_chunks: "calm (write_chunks at bs)"
  by (induction bs arbitrary: at) (auto intro!: calm_bind calm_basic)

lemma calm_append: "calm (append_log msg j fresh at chunks)"
  unfolding append_log_def Let_def by (intro calm_bind calm_if calm_basic calm_chunks)

lemma calm_publish:
  assumes "md_calls (fj_medium j) = []"
  shows "\<exists>j'. publish msg fresh at chunks committed j = (Inr (), j')"
  using calm_append [of msg j fresh at chunks] assms unfolding calm_def by (auto simp: publish_def)

lemma place_bound: "place e want = (fresh, at) \<Longrightarrow> at \<le> e + span"
  by (auto simp: place_def Let_def split: if_splits)

lemma seal_returns:
  assumes "md_calls (fj_medium j) = []" "lg_end j + 2 * span \<le> max_offset"
  shows "\<exists>j'. seal sha batch n p committed j = (Inr (), j')"
proof -
  obtain fresh at where place: "place (lg_end j) (length batch + 216) = (fresh, at)" by force
  have "at \<le> max_offset - span" using place_bound [OF place] assms(2) by simp
  then show ?thesis unfolding seal_def bindS_get place Let_def prod.case using calm_publish [OF assms(1)] by simp
qed

lemma crash_safe_transact:
  assumes "recovers sha c j" "represents sha j a" "\<not> fj_poisoned j" and run: "file_transact sha expected ms j = (r, j')"
  shows "\<exists>j2 b. open_journal sha (fj_medium j') (fj_repository j) c = Inr j2 \<and> recovers sha c j2 \<and> represents sha j2 b \<and>
    (b = a \<and> \<not> is_ok r \<or> j_transact sha expected ms a = Inr b) \<and>
    (is_ok r \<longrightarrow> recovers sha c j' \<and> represents sha j' b)"
proof (cases "j_transact sha expected ms a")
  case (Inl e)
  then have "r = Inl e" "j' = j" using file_transact_contract [OF assms(2,3), of expected ms] run by simp_all
  then show ?thesis using unchanged_crash_safe [OF assms(1,2), where r = r and b = a] by (auto simp: crash_safe_def)
next
  case (Inr b)
  let ?refs = "list_ex (\<lambda>m. m_reference m \<noteq> None) ms"
  have a: "j_sequence a = lg_sequence j" "\<not> j_leveldb a" using assms(2) by (simp_all add: represents_def)
  obtain t where t: "foldR (file_mutation sha a) ms empty_batch = Inr t" "b = j_commit t a" "batch_size t \<le> 2 * 1024 * 1024"
    and seq: "lg_sequence j \<noteq> - 1" and n: "ms \<noteq> []" "length ms \<le> 64"
    using Inr a by (auto simp: j_transact_def)
  obtain datas ls where d: "data_records (lg_sequence j + 1) (jb_values t) = (datas, ls)" by force
  have ok: "batch_ok sha a ?refs t" "length (jb_changes t) = length ms"
    using file_mutations_ok [OF t(1) empty_batch_ok] by simp_all
  let ?p = "prepare_payload (lg_last j) (lg_sequence j) (jb_changes t)"
  have size: "length (datas @ encode_record (if ?refs then 8 else 7) (lg_sequence j + 1) ?p 0) \<le> 2 * 1024 * 1024"
    using batch_size_length [OF d _ refl] ok(1) t(3) by (simp add: batch_ok_def)
  have "seal sha (datas @ encode_record (if ?refs then 8 else 7) (lg_sequence j + 1) ?p 0) (length datas) ?p (sealed_state t ls) j = (r, j')"
    using file_transact_contract [OF assms(2,3), of expected ms] run by (simp add: Inr t(1) d Let_def)
  then have "crash_safe sha c j a b r j'"
    unfolding t(2)
    by (rule seal_crash_safe [OF assms(1,2) ok(1) _ _ seq refl d refl refl size, rotated 2]) (use n ok(2) in simp_all)
  then show ?thesis using Inr by (auto simp: crash_safe_def)
qed

section \<open>Properties\<close>

text \<open>A new file, as the concrete journal of the examples: the calls write seven bytes and then fail.\<close>

definition length_hash :: "bytes \<Rightarrow> oid" where
  "length_hash b = of_nat (length b)"

definition no_checkpoint :: checkpoint where
  "no_checkpoint = \<lparr>ck_offset = 0, ck_length = 0, ck_sequence = 0, ck_replay_start = log_base, ck_hash = 0\<rparr>"

definition new_file :: "syscall list \<Rightarrow> medium" where
  "new_file calls = \<lparr>md_file = replicate log_base (CHR 0x00), md_calls = calls\<rparr>"

definition new_journal :: "syscall list \<Rightarrow> fjournal" where
  "new_journal calls = opened (new_file calls) (replicate 16 (CHR ''r'')) (start_replay empty_log)"

definition empty_journal :: journal where
  "empty_journal = \<lparr>j_leveldb = False, j_sequence = 0, j_roots = [], j_objects = []\<rparr>"

lemma new_journal_ok:
  "recovers length_hash no_checkpoint (new_journal calls)" "represents length_hash (new_journal calls) empty_journal"
  "\<not> fj_poisoned (new_journal calls)" "md_calls (fj_medium (new_journal calls)) = calls" "lg_end (new_journal calls) = log_base"
proof -
  have o: "open_journal length_hash (new_file calls) (replicate 16 (CHR ''r'')) no_checkpoint = Inr (new_journal calls)"
    by (simp add: open_journal_def no_checkpoint_def new_file_def new_journal_def empty_log_def start_replay_def Let_def replay_loop.simps)
  show "recovers length_hash no_checkpoint (new_journal calls)"
    by (rule opened_recovers [OF o]) (simp_all add: no_checkpoint_def)
qed (simp_all add: represents_def new_journal_def opened_def start_replay_def empty_log_def empty_journal_def new_file_def)

abbreviation first_batch :: "mutation list" where
  "first_batch \<equiv> [\<lparr>m_key = ''name'', m_value = Some ''hello'', m_reference = None\<rparr>]"

text \<open>C9. A batch on the single-file journal is atomic under failures. Whatever the write, sync and
  truncate calls return and wherever they stop the batch, the file that is left reopens, to a
  journal that stands for the contract's state before the batch or for its state after the
  batch; when the batch returned, the live journal and the reopened one both stand for the state
  after it.\<close>

theorem transact_crash_safe:
  assumes "recovers sha c j" "represents sha j a" "\<not> fj_poisoned j" and run: "file_transact sha expected ms j = (r, j')"
  shows "\<exists>j2 b. open_journal sha (fj_medium j') (fj_repository j) c = Inr j2 \<and> recovers sha c j2 \<and> represents sha j2 b \<and>
    (b = a \<and> \<not> is_ok r \<or> j_transact sha expected ms a = Inr b) \<and>
    (is_ok r \<longrightarrow> recovers sha c j' \<and> represents sha j' b)"
  by (rule crash_safe_transact [OF assms])

theorem transact_crash_safe_witness:
  "recovers length_hash no_checkpoint (new_journal [Count 7, Io_error]) \<and>
   (let j = new_journal [Count 7, Io_error]; (r, j') = file_transact length_hash 0 first_batch j in
    \<exists>j2 b. open_journal length_hash (fj_medium j') (fj_repository j) no_checkpoint = Inr j2 \<and> recovers length_hash no_checkpoint j2 \<and>
      represents length_hash j2 b \<and>
      (b = empty_journal \<and> \<not> is_ok r \<or> j_transact length_hash 0 first_batch empty_journal = Inr b) \<and>
      (is_ok r \<longrightarrow> recovers length_hash no_checkpoint j' \<and> represents length_hash j' b))"
  using transact_crash_safe [OF new_journal_ok(1,2,3)] new_journal_ok(1)
  by (simp add: Let_def split_beta)

text \<open>C10. Without failing system calls a batch on the single-file journal refines the journal contract:
  it throws the contract's exception and changes nothing, or it returns and the journal, live
  and reopened, stands for the contract's new state.\<close>

theorem transact_refines_contract:
  assumes "recovers sha c j" "represents sha j a" "\<not> fj_poisoned j" "md_calls (fj_medium j) = []" "lg_end j + 2 * span \<le> max_offset"
  shows "case j_transact sha expected ms a of
      Inl e \<Rightarrow> file_transact sha expected ms j = (Inl e, j)
    | Inr b \<Rightarrow> \<exists>j'. file_transact sha expected ms j = (Inr (), j') \<and> recovers sha c j' \<and> represents sha j' b"
proof (cases "j_transact sha expected ms a")
  case (Inl e)
  then show ?thesis using file_transact_contract [OF assms(2,3), of expected ms] by simp
next
  case (Inr b)
  obtain t where t: "foldR (file_mutation sha a) ms empty_batch = Inr t"
    using Inr assms(2) by (auto simp: j_transact_def represents_def)
  obtain datas ls where d: "data_records (lg_sequence j + 1) (jb_values t) = (datas, ls)" by force
  have "\<exists>j'. file_transact sha expected ms j = (Inr (), j')"
    unfolding file_transact_contract [OF assms(2,3)] by (simp add: Inr t d Let_def seal_returns [OF assms(4,5)])
  then obtain j' where run: "file_transact sha expected ms j = (Inr (), j')" by blast
  then show ?thesis using crash_safe_transact [OF assms(1-3) run] Inr by auto
qed

theorem transact_refines_contract_witness:
  "recovers length_hash no_checkpoint (new_journal []) \<and>
   (\<exists>b j'. j_transact length_hash 0 first_batch empty_journal = Inr b \<and>
     file_transact length_hash 0 first_batch (new_journal []) = (Inr (), j') \<and>
     recovers length_hash no_checkpoint j' \<and> represents length_hash j' b)"
proof -
  have "lg_end (new_journal []) + 2 * span \<le> max_offset" by (simp add: new_journal_ok)
  note * = transact_refines_contract [OF new_journal_ok(1,2,3,4) this, of 0 first_batch]
  moreover have "\<exists>b. j_transact length_hash 0 first_batch empty_journal = Inr b"
    by (simp add: j_transact_def empty_journal_def file_mutation_def add_value_def add_change_def Let_def batch_size_def record_size_def)
  ultimately show ?thesis using new_journal_ok(1) by auto
qed

text \<open>C11. Reads of a single-file journal return what the contract's reads return, exceptions included.\<close>

theorem file_reads_agree:
  assumes "represents sha j a" "\<not> fj_poisoned j"
  shows "file_get_object sha j i = j_get_object a i \<and> file_root_object j key = j_root_object a key \<and>
    file_contains j key = Inr (j_contains a key) \<and> file_keys j key = Inr (j_keys a key) \<and> file_verify sha j = Inr ()"
proof -
  have roots: "lg_roots j = j_roots a" using assms(1) by (simp add: represents_def)
  have object: "read_object sha j i = j_get_object a i" for i
  proof (cases "map_of (j_objects a) i")
    case None
    then have "map_of (lg_objects j) i = None" using assms(1) unfolding represents_def by (metis domIff)
    then show ?thesis by (simp add: read_object_def j_get_object_def None)
  next
    case (Some v)
    then show ?thesis using stored_read assms(1) by (simp add: represents_def j_get_object_def)
  qed
  have "foldR (\<lambda>(i, _) _. bindR (read_object sha j i) (\<lambda>_. Inr ())) ls () = Inr ()" if "set ls \<subseteq> set (lg_objects j)" for ls
    using that
  proof (induction ls)
    case (Cons x ls)
    then have "fst x \<in> dom (map_of (lg_objects j))" by (auto simp: dom_map_of_conv_image_fst)
    then obtain v where "map_of (j_objects a) (fst x) = Some v"
      using assms(1) unfolding represents_def by (metis domD)
    then show ?case using Cons object [of "fst x"] by (cases x) (simp add: j_get_object_def)
  qed simp
  then have "file_verify sha j = Inr ()" using assms(2) by (simp add: file_verify_def healthyR_def)
  then show ?thesis
    using assms(2) object
    by (simp add: file_get_object_def file_root_object_def file_contains_def file_keys_def healthyR_def j_root_object_def
        j_contains_def j_keys_def roots)
qed

theorem file_reads_agree_witness:
  "represents length_hash (new_journal []) empty_journal \<and>
   file_get_object length_hash (new_journal []) 5 = j_get_object empty_journal 5 \<and>
   file_keys (new_journal []) ''name'' = Inr [] \<and> file_verify length_hash (new_journal []) = Inr ()"
  using file_reads_agree [OF new_journal_ok(2,3), where i = 5 and key = "''name''" and calls1 = "[]"] new_journal_ok(2)
  by (simp add: j_keys_def empty_journal_def)

end
