(* ===== verification/Namespace_Paths.thy ===== *)
theory Namespace_Paths
  imports Namespace_View
begin

text \<open>
  \<^verbatim>\<open>daemon/namespace.cpp\<close>, the anonymous namespaces: metadata keys, inode records, path syntax and
  path resolution. The functions read a namespace version through the three reads of
  \<^verbatim>\<open>NamespaceView\<close> they use (\<open>reader\<close>). The clock and the entropy device are streams in the state.
\<close>

section \<open>Keys\<close>

abbreviation root_key :: string where "root_key \<equiv> namespace_root"

definition inode_key :: "string \<Rightarrow> string" where "inode_key i = forkfs_prefix @ ''inode/'' @ i"
definition allocated_key :: "string \<Rightarrow> string" where "allocated_key i = forkfs_prefix @ ''allocated/'' @ i"
definition content_key :: "string \<Rightarrow> string" where "content_key i = forkfs_prefix @ ''content/'' @ i"
definition directory_prefix :: "string \<Rightarrow> string" where "directory_prefix i = forkfs_prefix @ ''entry/'' @ i @ ''/''"
definition entry_key :: "string \<Rightarrow> string \<Rightarrow> string" where "entry_key i name = directory_prefix i @ name"
definition orphan_prefix :: "string \<Rightarrow> string \<Rightarrow> string" where
  "orphan_prefix world i = history @ ''orphan/'' @ world @ ''/'' @ i @ ''/''"

definition valid_id :: "string \<Rightarrow> bool" where
  "valid_id i \<longleftrightarrow> length i = 32 \<and> list_all (\<lambda>c. between (CHR ''0'') (CHR ''9'') c \<or> between (CHR ''a'') (CHR ''f'') c) i"

definition id_bytes :: "string \<Rightarrow> bytes res" where
  "id_bytes i = need (valid_id i) ''invalid inode identity'' (Inr i)"

definition decode_id :: "bytes \<Rightarrow> string res" where
  "decode_id b = need (valid_id b) ''invalid inode reference'' (Inr b)"

section \<open>Inode records\<close>

record inode =
  i_id :: string
  i_directory :: bool
  i_mode :: nat
  i_links :: u64
  i_size :: u64
  i_modified :: u64
  i_changed :: u64
  i_symlink :: bool

definition load64 :: "bytes \<Rightarrow> nat \<Rightarrow> u64" where
  "load64 b at = of_nat (load_at b at 8)"

definition decode_inode :: "bytes \<Rightarrow> string \<Rightarrow> bool \<Rightarrow> inode res" where
  "decode_inode b i orphan =
     need (length b = 48 \<and> slice 0 8 b = ''FFINOD01'') ''invalid inode record'' (
     let type = load_at b 8 4; mode = load_at b 12 4 in
     need ((type = 1 \<or> type = 2 \<or> type = 3) \<and> mode \<le> 511) ''unsupported inode attributes'' (
     let n = \<lparr>i_id = i, i_directory = (type = 2), i_mode = mode, i_links = load64 b 16, i_size = load64 b 24,
              i_modified = load64 b 32, i_changed = load64 b 40, i_symlink = (type = 3)\<rparr> in
     need ((if orphan then \<not> i_directory n \<and> \<not> i_symlink n \<and> i_links n = 0 else 0 < i_links n) \<and>
           (\<not> i_directory n \<or> 2 \<le> i_links n \<and> i_size n = 0)) ''invalid inode state'' (Inr n)))"

definition encode_inode :: "inode \<Rightarrow> bytes" where
  "encode_inode n = ''FFINOD01'' @ le_store 4 (if i_symlink n then 3 else if i_directory n then 2 else 1) @
     le_store 4 (i_mode n) @ store64 (i_links n) @ store64 (i_size n) @ store64 (i_modified n) @ store64 (i_changed n)"

section \<open>Reading a version\<close>

record reader =
  rd_contains :: "string \<Rightarrow> bool res"
  rd_get :: "string \<Rightarrow> bytes res"
  rd_keys :: "string \<Rightarrow> string list res"

definition view_reader :: "journal \<Rightarrow> nview \<Rightarrow> reader" where
  "view_reader j v = \<lparr>rd_contains = view_contains j v, rd_get = view_get j v, rd_keys = view_keys j v\<rparr>"

definition root_id :: "reader \<Rightarrow> string res" where
  "root_id R = bindR (rd_contains R root_key) (\<lambda>there.
     need there ''filesystem not initialized; use fs-init'' (
     bindR (rd_get R root_key) decode_id))"

definition get_inode :: "reader \<Rightarrow> string \<Rightarrow> inode res" where
  "get_inode R i = bindR (rd_get R (inode_key i)) (\<lambda>b. decode_inode b i False)"

section \<open>Path syntax\<close>

definition printable :: "char \<Rightarrow> bool" where
  "printable c \<longleftrightarrow> 32 \<le> (of_char c :: nat) \<and> (of_char c :: nat) \<le> 126"

text \<open>The loop over the components, on the rest of the path.\<close>

function path_names :: "string \<Rightarrow> string list res" where
  "path_names rest =
     (if rest = [] then Inr []
      else let name = takeWhile (\<lambda>c. c \<noteq> CHR ''/'') rest; more = drop (length name) rest in
        need (name \<noteq> [] \<and> name \<noteq> ''.'' \<and> name \<noteq> ''..'' \<and> length name \<le> 255) ''invalid path component'' (
        need (list_all printable name) ''prototype names must be printable ASCII'' (
        need (more = [] \<or> tl more \<noteq> []) ''trailing slash is unsupported'' (
        bindR (path_names (tl more)) (\<lambda>names. Inr (name # names))))))"
  by pat_completeness auto
termination
  by (relation "measure length") (auto simp: Suc_le_eq)

declare path_names.simps [simp del]

definition components :: "string \<Rightarrow> string list res" where
  "components path =
     need (path \<noteq> [] \<and> hd path = CHR ''/'' \<and> length path \<le> 4096) ''path must be absolute and at most 4096 bytes'' (
     if path = ''/'' then Inr [] else path_names (tl path))"

function target_names :: "string \<Rightarrow> string list res" where
  "target_names rest =
     (if rest = [] then Inr []
      else let name = takeWhile (\<lambda>c. c \<noteq> CHR ''/'') rest; more = drop (length name) rest in
        if name = [] then target_names (tl more)
        else need (length name \<le> 255) ''invalid symlink component'' (
          bindR (target_names (tl more)) (\<lambda>names. Inr (name # names))))"
  by pat_completeness auto
termination
  by (relation "measure length") auto

declare target_names.simps [simp del]

definition target_components :: "string \<Rightarrow> string list res" where
  "target_components target =
     need (target \<noteq> [] \<and> length target \<le> 4096) ''invalid symlink target length'' (
     need (list_all printable target) ''prototype symlink targets must be printable ASCII'' (
     bindR (target_names target) (\<lambda>names.
     Inr (if last target = CHR ''/'' \<and> names \<noteq> [] then names @ [''.''] else names))))"

section \<open>Resolution\<close>

record parent =
  pa_id :: string
  pa_name :: string
  pa_key :: string

text \<open>The walk ends at an inode, with the inodes from it up to the root, or at a missing final
  component when the caller asked for one.\<close>

datatype walked = Found "string list" | Missing parent

function walk_loop ::
    "reader \<Rightarrow> bool \<Rightarrow> bool \<Rightarrow> string list \<Rightarrow> string list \<Rightarrow> nat \<Rightarrow> nat \<Rightarrow> walked res" where
  "walk_loop R follow_final missing stack pending follows expanded =
     (case pending of [] \<Rightarrow> Inr (Found stack) | name # pending \<Rightarrow>
        let i = hd stack in
        bindR (get_inode R i) (\<lambda>n.
        need (i_directory n) ''path component is not a directory'' (
        if name = ''.'' then walk_loop R follow_final missing stack pending follows expanded
        else if name = ''..'' then
          walk_loop R follow_final missing (if 1 < length stack then tl stack else stack) pending follows expanded
        else
          bindR (rd_contains R (entry_key i name)) (\<lambda>there.
          if \<not> there then
            need (missing \<and> pending = []) ''path not found'' (
            Inr (Missing \<lparr>pa_id = i, pa_name = name, pa_key = entry_key i name\<rparr>))
          else
            bindR (rd_get R (entry_key i name)) (\<lambda>b. bindR (decode_id b) (\<lambda>child.
            bindR (get_inode R child) (\<lambda>n.
            if i_symlink n \<and> (follow_final \<or> pending \<noteq> []) then
              need (follows + 1 \<le> 40) ''too many symbolic links'' (
              bindR (rd_get R (content_key child)) (\<lambda>target.
              need (of_nat (length target) = i_size n) ''symlink size mismatch'' (
              bindR (target_components target) (\<lambda>names.
              need (expanded + length target \<le> 65536) ''symlink expansion limit'' (
              walk_loop R follow_final missing (if hd target = CHR ''/'' then [last stack] else stack)
                (names @ pending) (follows + 1) (expanded + length target))))))
            else walk_loop R follow_final missing (child # stack) pending follows expanded)))))))"
  by pat_completeness auto
termination
  by (relation "measures [\<lambda>(R, ff, m, stack, pending, follows, expanded). 40 - follows,
      \<lambda>(R, ff, m, stack, pending, follows, expanded). length pending]") auto

declare walk_loop.simps [simp del]

definition walk :: "reader \<Rightarrow> string list \<Rightarrow> bool \<Rightarrow> bool \<Rightarrow> walked res" where
  "walk R names follow_final missing =
     bindR (root_id R) (\<lambda>r. walk_loop R follow_final missing [r] names 0 0)"

definition found_stack :: "walked \<Rightarrow> string list" where
  "found_stack w = (case w of Found stack \<Rightarrow> stack | Missing _ \<Rightarrow> [])"

text \<open>The parent directory of a path, and the directories from it up to the root.\<close>

definition parent_of :: "reader \<Rightarrow> string \<Rightarrow> (parent \<times> string list) res" where
  "parent_of R path =
     bindR (components path) (\<lambda>names.
     need (names \<noteq> []) ''cannot modify filesystem root'' (
     bindR (walk R (butlast names) True False) (\<lambda>w.
     let stack = found_stack w; i = hd stack in
     bindR (get_inode R i) (\<lambda>n.
     need (i_directory n) ''parent is not a directory'' (
     Inr (\<lparr>pa_id = i, pa_name = last names, pa_key = entry_key i (last names)\<rparr>, stack))))))"

definition resolve_or :: "reader \<Rightarrow> string \<Rightarrow> bool \<Rightarrow> bool \<Rightarrow> walked res" where
  "resolve_or R path follow missing = bindR (components path) (\<lambda>names. walk R names follow missing)"

definition resolve :: "reader \<Rightarrow> string \<Rightarrow> bool \<Rightarrow> string res" where
  "resolve R path follow = bindR (resolve_or R path follow False) (\<lambda>w. Inr (hd (found_stack w)))"

section \<open>Clock and entropy\<close>

record env =
  ev_clock :: "nat \<Rightarrow> u64"
  ev_entropy :: "nat \<Rightarrow> exn + 128 word"

definition now :: "('e env_scheme, u64) op" where
  "now e = (Inr (ev_clock e 0), e\<lparr>ev_clock := (\<lambda>k. ev_clock e (Suc k))\<rparr>)"

definition draw_id :: "('e env_scheme, string) op" where
  "draw_id e = (map_sum id (\<lambda>w. hex (rev (le_store 16 (unat w)))) (ev_entropy e 0),
     e\<lparr>ev_entropy := (\<lambda>k. ev_entropy e (Suc k))\<rparr>)"

primrec new_id_loop :: "nat \<Rightarrow> reader \<Rightarrow> ('e env_scheme, string) op" where
  "new_id_loop 0 R = throwS (Runtime_error ''inode identity collision'')"
| "new_id_loop (Suc attempts) R =
     bindS draw_id (\<lambda>i.
     bindS (liftS (rd_contains R (allocated_key i))) (\<lambda>taken.
     bindS (if taken then returnS True else liftS (rd_contains R (inode_key i))) (\<lambda>taken.
     if taken then new_id_loop attempts R else returnS i)))"

definition new_id :: "reader \<Rightarrow> ('e env_scheme, string) op" where
  "new_id R = new_id_loop 8 R"

definition touch :: "inode \<Rightarrow> ('e env_scheme, inode) op" where
  "touch n = bindS now (\<lambda>t. returnS (n\<lparr>i_modified := t, i_changed := t\<rparr>))"

text \<open>A fresh inode: its two time stamps are two readings of the clock.\<close>

definition fresh_inode :: "string \<Rightarrow> bool \<Rightarrow> nat \<Rightarrow> u64 \<Rightarrow> u64 \<Rightarrow> bool \<Rightarrow> ('e env_scheme, inode) op" where
  "fresh_inode i directory mode links n_bytes symlink =
     bindS now (\<lambda>t. bindS now (\<lambda>u. returnS \<lparr>i_id = i, i_directory = directory, i_mode = mode, i_links = links,
       i_size = n_bytes, i_modified = t, i_changed = u, i_symlink = symlink\<rparr>))"

end
