(* ===== verification/Container_State.thy ===== *)
theory Container_State
  imports Namespace_Paths "HOL-Library.Product_Lexorder"
begin

text \<open>
  The state of a \<^verbatim>\<open>Container\<close> (\<^verbatim>\<open>daemon/container.h\<close>) as the namespace sees it: the journal, the open
  file handles with their cursors and locks, the open counts, and the compaction queue. Every
  operation of the daemon runs under the container lock, so an operation is a function of this
  state; what other threads do while an operation waits for compaction is the list of outcomes
  \<open>ct_waits\<close>.
\<close>

record lock_range =
  lr_start :: nat
  lr_end :: nat
  lr_mode :: nat

record file_cursor =
  fc_position :: u64
  fc_locks :: "lock_range list"

text \<open>Handles made by \<open>dup\<close> share one cursor: a handle names its cursor by reference.\<close>

record open_handle =
  h_view :: string
  h_inode :: string
  h_revision :: bool
  h_readable :: bool
  h_writable :: bool
  h_append :: bool
  h_cursor :: nat

text \<open>How a wait for background compaction ends: after ten seconds, because compaction failed,
  because it is stopping, or with a new head published.\<close>

datatype wait_outcome = Timeout | Failed | Stopping | Progress journal

record container = env +
  ct_journal :: journal
  ct_handles :: "(string, open_handle) smap"
  ct_cursors :: "nat \<Rightarrow> file_cursor"
  ct_next_cursor :: nat
  ct_counts :: "(string \<times> string, nat) smap"
  ct_lifetime :: nat
  ct_pins :: "nat list"
  ct_next_pin :: nat
  ct_running :: bool
  ct_stop :: bool
  ct_active :: bool
  ct_queue :: "string list"
  ct_pending :: "string set"
  ct_completed :: u64
  ct_races :: u64
  ct_failures :: u64
  ct_error :: string
  ct_world_failures :: "(string, u64) smap"
  ct_waits :: "wait_outcome list"

definition transact :: "(bytes \<Rightarrow> oid) \<Rightarrow> mutation list \<Rightarrow> (container, unit) op" where
  "transact sha batch c = (case j_transact sha (j_sequence (ct_journal c)) batch (ct_journal c) of
       Inl e \<Rightarrow> (Inl e, c) | Inr j \<Rightarrow> (Inr (), c\<lparr>ct_journal := j\<rparr>))"

definition journalS :: "(journal \<Rightarrow> 'a res) \<Rightarrow> (container, 'a) op" where
  "journalS f c = (f (ct_journal c), c)"

abbreviation value_mutation :: "string \<Rightarrow> bytes option \<Rightarrow> mutation" where
  "value_mutation key v \<equiv> \<lparr>m_key = key, m_value = v, m_reference = None\<rparr>"

definition object_registry :: "oid \<Rightarrow> string" where
  "object_registry i = history @ ''object/'' @ hex (oid_bytes i)"

abbreviation world_key :: "string \<Rightarrow> string" where "world_key world \<equiv> history @ ''world/'' @ world"

definition schedule_compaction :: "string \<Rightarrow> container \<Rightarrow> container" where
  "schedule_compaction world c =
     (if ct_running c \<and> \<not> ct_stop c \<and> world \<notin> ct_pending c
      then c\<lparr>ct_pending := insert world (ct_pending c), ct_queue := ct_queue c @ [world]\<rparr> else c)"

end
