(* ===== verification/Garbage.thy ===== *)
theory Garbage
  imports Container_State
begin

text \<open>
  \<^verbatim>\<open>Container::collect_garbage\<close> (\<^verbatim>\<open>daemon/container.cpp\<close>): mark every object named by a root, trace worlds,
  revisions and tree nodes from there, and remove the unmarked objects together with the registry
  names that point to them. The work list is a stack whose top is the head of the list.
\<close>

section \<open>Verification and collection of a repository\<close>

definition j_verify :: "(bytes \<Rightarrow> oid) \<Rightarrow> journal \<Rightarrow> unit res" where
  "j_verify sha j =
     bindR (foldR (\<lambda>(i, b) _. need (object_hash sha b = i) ''object checksum mismatch'' (Inr ())) (j_objects j) ()) (\<lambda>_.
     foldR (\<lambda>(_, i) _. bindR (j_get_object j i) (\<lambda>_. Inr ())) (j_roots j) ())"

definition j_collect :: "u64 \<Rightarrow> oid set \<Rightarrow> string list \<Rightarrow> journal \<Rightarrow> (nat \<times> journal) res" where
  "j_collect expected live obsolete j =
     need (j_leveldb j) ''physical GC requires LevelDB'' (
     need (j_sequence j = expected \<and> expected \<noteq> - 1) ''GC sequence conflict'' (
     need (live \<subseteq> set (map fst (j_objects j))) ''GC live object missing'' (
     need (list_all (j_contains j) obsolete) ''GC root disappeared'' (
     Inr (length (filter (\<lambda>(i, _). i \<notin> live) (j_objects j)),
       j\<lparr>j_sequence := expected + 1, j_objects := filter (\<lambda>(i, _). i \<in> live) (j_objects j),
         j_roots := fold erase obsolete (j_roots j)\<rparr>)))))"

section \<open>Tracing\<close>

datatype gc_kind = Gc_revision | Gc_manifest | Gc_node

definition gc_reference :: "bytes \<Rightarrow> nat \<Rightarrow> oid res" where
  "gc_reference b at = need (at \<le> length b \<and> 32 \<le> length b - at) ''truncated GC reference'' (Inr (oid_at b at))"

definition trace :: "oid \<Rightarrow> gc_kind \<Rightarrow> (oid \<times> gc_kind) list \<Rightarrow> (oid \<times> gc_kind) list" where
  "trace i kind pending = (if i \<noteq> 0 then (i, kind) # pending else pending)"

text \<open>The objects an object of a kind marks besides itself, and the work list after it.\<close>

definition gc_expand ::
    "journal \<Rightarrow> gc_kind \<Rightarrow> bytes \<Rightarrow> (oid \<times> gc_kind) list \<Rightarrow> (oid set \<times> (oid \<times> gc_kind) list) res" where
  "gc_expand j kind b pending = (case kind of
       Gc_revision \<Rightarrow>
         need (length b = 80 \<and> slice 0 8 b = ''FFREV001'') ''invalid GC revision'' (
         bindR (gc_reference b 8) (\<lambda>m. bindR (gc_reference b 40) (\<lambda>p. Inr ({}, trace p Gc_revision (trace m Gc_manifest pending)))))
     | Gc_manifest \<Rightarrow>
         need (length b = 40 \<and> slice 0 8 b = ''FFTREE01'') ''GC requires CoW tree manifests'' (
         bindR (gc_reference b 8) (\<lambda>r. Inr ({}, trace r Gc_node pending)))
     | Gc_node \<Rightarrow>
         need (108 \<le> length b \<and> slice 0 8 b = ''FFTRNO01'' \<and> load_at b 8 4 = length b - 108) ''invalid GC tree node'' (
         bindR (gc_reference b 12) (\<lambda>v. bindR (j_get_object j v) (\<lambda>_.
         bindR (gc_reference b 44) (\<lambda>l. bindR (gc_reference b 76) (\<lambda>r. Inr ({v}, trace r Gc_node (trace l Gc_node pending))))))))"

instantiation gc_kind :: finite
begin

instance
proof
  have "(UNIV :: gc_kind set) = {Gc_revision, Gc_manifest, Gc_node}"
    using gc_kind.exhaust by auto
  then show "finite (UNIV :: gc_kind set)" by (metis finite.emptyI finite.insertI)
qed

end

definition untraced :: "journal \<Rightarrow> (oid \<times> gc_kind) set \<Rightarrow> nat" where
  "untraced j expanded = card (set (map fst (j_objects j)) \<times> UNIV - expanded)"

lemma untraced_less:
  assumes "j_get_object j i = Inr b" and "(i, kind) \<notin> expanded"
  shows "untraced j (insert (i, kind) expanded) < untraced j expanded"
proof -
  have "i \<in> set (map fst (j_objects j))"
    using assms(1) by (auto simp: j_get_object_def split: option.splits dest: map_of_SomeD intro: rev_image_eqI)
  then have "set (map fst (j_objects j)) \<times> UNIV - insert (i, kind) expanded \<subset>
      set (map fst (j_objects j)) \<times> UNIV - expanded"
    using assms(2) by auto
  then show ?thesis unfolding untraced_def by (intro psubset_card_mono) auto
qed

function gc_trace ::
    "journal \<Rightarrow> (oid \<times> gc_kind) list \<Rightarrow> oid set \<Rightarrow> (oid \<times> gc_kind) set \<Rightarrow> oid set res" where
  "gc_trace j pending live expanded = (case pending of
       [] \<Rightarrow> Inr live
     | (i, kind) # pending \<Rightarrow>
         if (i, kind) \<in> expanded then gc_trace j pending live expanded
         else case j_get_object j i of Inl e \<Rightarrow> Inl e | Inr b \<Rightarrow>
           (case gc_expand j kind b pending of Inl e \<Rightarrow> Inl e | Inr (marked, pending) \<Rightarrow>
              gc_trace j pending (insert i live \<union> marked) (insert (i, kind) expanded)))"
  by pat_completeness auto
termination
  by (relation "measures [\<lambda>(j, pending, live, expanded). untraced j expanded, \<lambda>(j, pending, live, expanded). length pending]")
     (auto simp: untraced_less)

declare gc_trace.simps [simp del]

section \<open>Collecting\<close>

text \<open>The loop over the roots: registry names seen, objects marked, and the work list.\<close>

definition gc_root ::
    "journal \<Rightarrow> string \<Rightarrow> string list \<times> oid set \<times> (oid \<times> gc_kind) list \<Rightarrow>
      (string list \<times> oid set \<times> (oid \<times> gc_kind) list) res" where
  "gc_root j key = (\<lambda>(registry, live, pending).
     if prefix (history @ ''object/'') key then Inr (registry @ [key], live, pending)
     else
       bindR (j_root_object j key) (\<lambda>i. bindR (j_get_object j i) (\<lambda>b.
       let live = insert i live in
       if prefix (history @ ''world/'') key then Inr (registry, live, trace i Gc_manifest pending)
       else if prefix (history @ ''revision/'') key then Inr (registry, live, trace i Gc_revision pending)
       else if prefix (history @ ''base/'') key then
         need (length b = 32) ''invalid GC base'' (
         bindR (gc_reference b 0) (\<lambda>r. Inr (registry, live, trace r Gc_revision pending)))
       else Inr (registry, live, pending))))"

definition gc_plan :: "journal \<Rightarrow> (oid set \<times> string list) res" where
  "gc_plan j =
     bindR (foldR (gc_root j) (j_keys j []) ([], {}, [])) (\<lambda>(registry, live, pending).
     bindR (gc_trace j pending live {}) (\<lambda>live.
     bindR (foldR (\<lambda>key obsolete. bindR (j_root_object j key) (\<lambda>i.
         Inr (if i \<in> live then obsolete else obsolete @ [key]))) registry []) (\<lambda>obsolete.
     Inr (live, obsolete))))"

definition collect_garbage :: "(bytes \<Rightarrow> oid) \<Rightarrow> (container, nat) op" where
  "collect_garbage sha = bindS getS (\<lambda>c. let j = ct_journal c in
     needS (j_leveldb j) ''physical GC requires LevelDB'' (
     needS (ct_handles c = [] \<and> \<not> ct_running c) ''GC requires an idle offline repository'' (
     needS (ct_pins c = []) ''GC requires closed directory cursors'' (
     bindS (liftS (j_verify sha j)) (\<lambda>_.
     bindS (liftS (gc_plan j)) (\<lambda>(live, obsolete).
     bindS (liftS (j_collect (j_sequence j) live obsolete j)) (\<lambda>(removed, j).
     bindS (modifyS (\<lambda>c. c\<lparr>ct_journal := j\<rparr>)) (\<lambda>_.
     bindS (liftS (j_verify sha j)) (\<lambda>_. returnS removed)))))))))"

end
