(* ===== verification/Garbage_Props.thy ===== *)
theory Garbage_Props
  imports Garbage
begin

text \<open>
  What garbage collection keeps. \<open>gc_points\<close> and \<open>gc_live\<close> say which objects a repository needs,
  independently of the work list: the targets of every name outside the registry, the chain of
  revisions with their manifests and tree nodes, and the values of the nodes. Collection removes
  exactly the other objects, and the registry names that point to them.
\<close>

section \<open>Live objects\<close>

abbreviation registry_name :: "string \<Rightarrow> bool" where
  "registry_name key \<equiv> prefix (history @ ''object/'') key"

inductive gc_points :: "journal \<Rightarrow> oid \<Rightarrow> gc_kind \<Rightarrow> bool" for j where
  world: "map_of (j_roots j) (history @ ''world/'' @ w) = Some i \<Longrightarrow> i \<noteq> 0 \<Longrightarrow> gc_points j i Gc_manifest"
| revision: "map_of (j_roots j) (history @ ''revision/'' @ w) = Some i \<Longrightarrow> i \<noteq> 0 \<Longrightarrow> gc_points j i Gc_revision"
| base: "map_of (j_roots j) (history @ ''base/'' @ w) = Some k \<Longrightarrow> map_of (j_objects j) k = Some b \<Longrightarrow> oid_at b 0 \<noteq> 0 \<Longrightarrow>
    gc_points j (oid_at b 0) Gc_revision"
| content: "gc_points j i Gc_revision \<Longrightarrow> map_of (j_objects j) i = Some b \<Longrightarrow> oid_at b 8 \<noteq> 0 \<Longrightarrow>
    gc_points j (oid_at b 8) Gc_manifest"
| parent: "gc_points j i Gc_revision \<Longrightarrow> map_of (j_objects j) i = Some b \<Longrightarrow> oid_at b 40 \<noteq> 0 \<Longrightarrow>
    gc_points j (oid_at b 40) Gc_revision"
| top: "gc_points j i Gc_manifest \<Longrightarrow> map_of (j_objects j) i = Some b \<Longrightarrow> oid_at b 8 \<noteq> 0 \<Longrightarrow>
    gc_points j (oid_at b 8) Gc_node"
| left: "gc_points j i Gc_node \<Longrightarrow> map_of (j_objects j) i = Some b \<Longrightarrow> oid_at b 44 \<noteq> 0 \<Longrightarrow>
    gc_points j (oid_at b 44) Gc_node"
| right: "gc_points j i Gc_node \<Longrightarrow> map_of (j_objects j) i = Some b \<Longrightarrow> oid_at b 76 \<noteq> 0 \<Longrightarrow>
    gc_points j (oid_at b 76) Gc_node"

inductive gc_live :: "journal \<Rightarrow> oid \<Rightarrow> bool" for j where
  named: "map_of (j_roots j) key = Some i \<Longrightarrow> \<not> registry_name key \<Longrightarrow> gc_live j i"
| traced: "gc_points j i kind \<Longrightarrow> gc_live j i"
| held: "gc_points j i Gc_node \<Longrightarrow> map_of (j_objects j) i = Some b \<Longrightarrow> gc_live j (oid_at b 12)"

text \<open>What an object of a kind points to and marks.\<close>

fun gc_successors :: "gc_kind \<Rightarrow> bytes \<Rightarrow> (oid \<times> gc_kind) set" where
  "gc_successors Gc_revision b = {(oid_at b 8, Gc_manifest), (oid_at b 40, Gc_revision)} - {0} \<times> UNIV"
| "gc_successors Gc_manifest b = {(oid_at b 8, Gc_node)} - {0} \<times> UNIV"
| "gc_successors Gc_node b = {(oid_at b 44, Gc_node), (oid_at b 76, Gc_node)} - {0} \<times> UNIV"

fun gc_marks :: "gc_kind \<Rightarrow> bytes \<Rightarrow> oid set" where
  "gc_marks Gc_node b = {oid_at b 12}"
| "gc_marks _ b = {}"

lemma set_trace [simp]: "set (trace i kind pending) = (if i = 0 then set pending else insert (i, kind) (set pending))"
  by (simp add: trace_def)

lemma j_get_object_Inr [simp]: "j_get_object j i = Inr b \<longleftrightarrow> map_of (j_objects j) i = Some b"
  by (simp add: j_get_object_def split: option.split)

lemma j_root_object_Inr [simp]: "j_root_object j key = Inr i \<longleftrightarrow> map_of (j_roots j) key = Some i"
  by (simp add: j_root_object_def split: option.split)

lemma gc_expand_Inr:
  assumes "gc_expand j kind b pending = Inr (marked, rest)"
  shows "set rest = set pending \<union> gc_successors kind b" and "marked = gc_marks kind b"
    and "\<forall>i \<in> marked. map_of (j_objects j) i \<noteq> None"
  using assms by (cases kind; auto simp: gc_expand_def gc_reference_def split: if_splits sum.splits; fail)+

lemma gc_points_successors:
  "gc_points j i kind \<Longrightarrow> map_of (j_objects j) i = Some b \<Longrightarrow> (k, kind') \<in> gc_successors kind b \<Longrightarrow> gc_points j k kind'"
  by (cases kind) (auto intro: gc_points.content gc_points.parent gc_points.top gc_points.left gc_points.right)

lemma gc_live_marks:
  "gc_points j i kind \<Longrightarrow> map_of (j_objects j) i = Some b \<Longrightarrow> k \<in> gc_marks kind b \<Longrightarrow> gc_live j k"
  by (cases kind) (auto intro: gc_live.held)

section \<open>The loop over the work list\<close>

lemma gc_trace_step:
  assumes "gc_trace j ((i, kind) # pending) live expanded = Inr live'"
  obtains "(i, kind) \<in> expanded" "gc_trace j pending live expanded = Inr live'"
    | b marked rest where "(i, kind) \<notin> expanded" "map_of (j_objects j) i = Some b"
      "gc_expand j kind b pending = Inr (marked, rest)"
      "gc_trace j rest (insert i live \<union> marked) (insert (i, kind) expanded) = Inr live'"
  using assms by (subst (asm) gc_trace.simps) (auto split: if_splits sum.splits)

definition gc_sound :: "journal \<Rightarrow> (oid \<times> gc_kind) list \<Rightarrow> oid set \<Rightarrow> bool" where
  "gc_sound j pending live \<longleftrightarrow> (\<forall>(i, kind) \<in> set pending. gc_points j i kind) \<and>
     (\<forall>i \<in> live. gc_live j i \<and> map_of (j_objects j) i \<noteq> None)"

lemma gc_sound_expand:
  assumes "gc_sound j ((i, kind) # pending) live" "map_of (j_objects j) i = Some b"
    "gc_expand j kind b pending = Inr (marked, rest)"
  shows "gc_sound j rest (insert i live \<union> marked)"
  using assms gc_expand_Inr [OF assms(3)]
  unfolding gc_sound_def by (auto intro: gc_points_successors gc_live_marks gc_live.traced)

definition gc_closed :: "journal \<Rightarrow> (oid \<times> gc_kind) set \<Rightarrow> oid set \<Rightarrow> (oid \<times> gc_kind) set \<Rightarrow> bool" where
  "gc_closed j pending live expanded \<longleftrightarrow> (\<forall>(i, kind) \<in> expanded. i \<in> live \<and> (\<exists>b. map_of (j_objects j) i = Some b \<and>
     gc_successors kind b \<subseteq> expanded \<union> pending \<and> gc_marks kind b \<subseteq> live))"

lemma gc_closed_expand:
  assumes "gc_closed j (set ((i, kind) # pending)) live expanded" "map_of (j_objects j) i = Some b"
    "gc_expand j kind b pending = Inr (marked, rest)"
  shows "gc_closed j (set rest) (insert i live \<union> marked) (insert (i, kind) expanded)"
  using assms(1,2) gc_expand_Inr [OF assms(3)]
  unfolding gc_closed_def by fastforce

lemma gc_trace_sound:
  assumes "gc_trace j pending live expanded = Inr live'" "gc_sound j pending live"
  shows "gc_sound j [] live'"
  using assms
proof (induction j pending live expanded rule: gc_trace.induct)
  case (1 j pending live expanded)
  note IH = "1.IH" and prems = "1.prems"
  show ?case
  proof (cases pending)
    case Nil
    then show ?thesis using prems by (simp add: gc_trace.simps)
  next
    case (Cons x rest)
    obtain i kind where x: "x = (i, kind)" by (cases x)
    from prems(1) [unfolded Cons x] show ?thesis
    proof (cases rule: gc_trace_step)
      case 1
      show ?thesis
        by (rule IH(1) [OF Cons x [symmetric] 1]) (use prems(2) Cons in \<open>simp add: gc_sound_def\<close>)
    next
      case (2 b marked rest')
      show ?thesis
        by (rule IH(2) [OF Cons x [symmetric] 2(1) _ 2(3) refl 2(4)])
           (use 2(2) gc_sound_expand [OF prems(2) [unfolded Cons x] 2(2,3)] in simp_all)
    qed
  qed
qed

lemma gc_trace_closed:
  assumes "gc_trace j pending live expanded = Inr live'" "gc_closed j (set pending) live expanded"
  shows "live \<subseteq> live' \<and> (\<exists>E. set pending \<union> expanded \<subseteq> E \<and> gc_closed j {} live' E)"
  using assms
proof (induction j pending live expanded rule: gc_trace.induct)
  case (1 j pending live expanded)
  note IH = "1.IH" and prems = "1.prems"
  show ?case
  proof (cases pending)
    case Nil
    then show ?thesis using prems by (auto simp: gc_trace.simps)
  next
    case (Cons x rest)
    obtain i kind where x: "x = (i, kind)" by (cases x)
    from prems(1) [unfolded Cons x] show ?thesis
    proof (cases rule: gc_trace_step)
      case 1
      have "gc_closed j (set rest) live expanded"
        using prems(2) 1(1) Cons x by (auto simp: gc_closed_def insert_absorb)
      from IH(1) [OF Cons x [symmetric] 1 this] show ?thesis using 1(1) Cons x by auto
    next
      case (2 b marked rest')
      have "insert i live \<union> marked \<subseteq> live' \<and> (\<exists>E. set rest' \<union> insert (i, kind) expanded \<subseteq> E \<and> gc_closed j {} live' E)"
        by (rule IH(2) [OF Cons x [symmetric] 2(1) _ 2(3) refl 2(4)])
           (use 2(2) gc_closed_expand [OF prems(2) [unfolded Cons x] 2(2,3)] in simp_all)
      then show ?thesis using gc_expand_Inr(1) [OF 2(3)] Cons x by auto
    qed
  qed
qed

section \<open>The loop over the roots\<close>

lemma foldR_prefix:
  assumes "foldR f xs s = Inr t" and "P ys s"
    and "\<And>x zs u v. x \<in> set xs \<Longrightarrow> P zs u \<Longrightarrow> f x u = Inr v \<Longrightarrow> P (zs @ [x]) v"
  shows "P (ys @ xs) t"
  using assms
proof (induction xs arbitrary: s ys)
  case (Cons x xs)
  then obtain u where u: "f x s = Inr u" and rest: "foldR f xs u = Inr t" by auto
  with Cons.prems have "P (ys @ [x]) u" by (metis list.set_intros(1))
  with Cons.prems(3) have "P ((ys @ [x]) @ xs) t"
    by - (erule Cons.IH [OF rest], meson list.set_intros(2))
  then show ?case by simp
qed simp

text \<open>What the loop has recorded of a name outside the registry.\<close>

definition gc_noted :: "journal \<Rightarrow> (oid \<times> gc_kind) set \<Rightarrow> oid set \<Rightarrow> string \<Rightarrow> bool" where
  "gc_noted j pending live key \<longleftrightarrow> (\<exists>i b. map_of (j_roots j) key = Some i \<and> map_of (j_objects j) i = Some b \<and> i \<in> live \<and>
     (prefix (history @ ''world/'') key \<longrightarrow> i \<noteq> 0 \<longrightarrow> (i, Gc_manifest) \<in> pending) \<and>
     (prefix (history @ ''revision/'') key \<longrightarrow> i \<noteq> 0 \<longrightarrow> (i, Gc_revision) \<in> pending) \<and>
     (prefix (history @ ''base/'') key \<longrightarrow> oid_at b 0 \<noteq> 0 \<longrightarrow> (oid_at b 0, Gc_revision) \<in> pending))"

lemma gc_noted_mono: "gc_noted j p l key \<Longrightarrow> p \<subseteq> p' \<Longrightarrow> l \<subseteq> l' \<Longrightarrow> gc_noted j p' l' key"
  unfolding gc_noted_def by blast

lemma history_disjoint:
  "prefix (history @ a) key \<Longrightarrow> prefix (history @ b) key \<Longrightarrow> prefix a b \<or> prefix b a"
  using prefix_same_cases same_prefix_prefix by blast

lemma gc_sound_trace:
  assumes "gc_live j i" "map_of (j_objects j) i = Some b" "k \<noteq> 0 \<Longrightarrow> gc_points j k kind" "gc_sound j pending live"
  shows "gc_sound j (trace k kind pending) (insert i live)"
  using assms unfolding gc_sound_def by auto

lemma gc_sound_insert:
  "gc_live j i \<Longrightarrow> map_of (j_objects j) i = Some b \<Longrightarrow> gc_sound j pending live \<Longrightarrow> gc_sound j pending (insert i live)"
  unfolding gc_sound_def by auto

lemma gc_root_Inr:
  assumes "gc_root j key (registry, live, pending) = Inr (registry', live', pending')"
  shows "registry_name key \<and> registry' = registry @ [key] \<and> live' = live \<and> pending' = pending \<or>
    \<not> registry_name key \<and> registry' = registry \<and> live \<subseteq> live' \<and> set pending \<subseteq> set pending' \<and>
    gc_noted j (set pending') live' key \<and> (gc_sound j pending live \<longrightarrow> gc_sound j pending' live')"
proof (cases "registry_name key")
  case True
  then show ?thesis using assms by (simp add: gc_root_def)
next
  case False
  then obtain i b where i: "map_of (j_roots j) key = Some i" "map_of (j_objects j) i = Some b"
    using assms by (auto simp: gc_root_def)
  have live: "gc_live j i" using gc_live.named [OF i(1) False] .
  have kinds: "\<And>a b. prefix (history @ a) key \<Longrightarrow> \<not> prefix a b \<Longrightarrow> \<not> prefix b a \<Longrightarrow> \<not> prefix (history @ b) key"
    using history_disjoint by blast
  consider (w) "prefix (history @ ''world/'') key" | (r) "prefix (history @ ''revision/'') key"
    | (b) "prefix (history @ ''base/'') key" | (n) "\<not> prefix (history @ ''world/'') key"
      "\<not> prefix (history @ ''revision/'') key" "\<not> prefix (history @ ''base/'') key"
    by blast
  then show ?thesis
  proof cases
    case w
    then have no: "\<not> prefix (history @ ''revision/'') key" "\<not> prefix (history @ ''base/'') key"
      using kinds by simp_all
    have "i \<noteq> 0 \<Longrightarrow> gc_points j i Gc_manifest" using w i(1) gc_points.world by (fastforce simp: prefix_def)
    from gc_sound_trace [OF live i(2) this] show ?thesis using assms False w no i
      by (auto simp: gc_root_def gc_noted_def Let_def)
  next
    case r
    then have no: "\<not> prefix (history @ ''world/'') key" "\<not> prefix (history @ ''base/'') key"
      using kinds by simp_all
    have "i \<noteq> 0 \<Longrightarrow> gc_points j i Gc_revision" using r i(1) gc_points.revision by (fastforce simp: prefix_def)
    from gc_sound_trace [OF live i(2) this] show ?thesis using assms False r no i
      by (auto simp: gc_root_def gc_noted_def Let_def)
  next
    case b
    then have no: "\<not> prefix (history @ ''world/'') key" "\<not> prefix (history @ ''revision/'') key"
      using kinds by simp_all
    have "oid_at b 0 \<noteq> 0 \<Longrightarrow> gc_points j (oid_at b 0) Gc_revision" using b i gc_points.base by (fastforce simp: prefix_def)
    from gc_sound_trace [OF live i(2) this] show ?thesis using assms False b no i
      by (auto simp: gc_root_def gc_noted_def gc_reference_def Let_def split: if_splits)
  next
    case n
    then show ?thesis using assms False i gc_sound_insert [OF live i(2)]
      by (auto simp: gc_root_def gc_noted_def Let_def)
  qed
qed

lemma gc_roots_Inr:
  assumes "foldR (gc_root j) keys ([], {}, []) = Inr (registry, live, pending)"
  shows "registry = filter registry_name keys" and "gc_sound j pending live"
    and "\<forall>key \<in> set keys. registry_name key \<or> gc_noted j (set pending) live key"
proof -
  let ?P = "\<lambda>ks (registry, live, pending). registry = filter registry_name ks \<and> gc_sound j pending live \<and>
    (\<forall>key \<in> set ks. registry_name key \<or> gc_noted j (set pending) live key)"
  have "?P ([] @ keys) (registry, live, pending)"
  proof (rule foldR_prefix [OF assms])
    show "?P [] ([], {}, [])" by (simp add: gc_sound_def)
    show "?P (zs @ [x]) v" if "x \<in> set keys" "?P zs u" "gc_root j x u = Inr v" for x zs u v
      using that gc_root_Inr [of j x "fst u" "fst (snd u)" "snd (snd u)" "fst v" "fst (snd v)" "snd (snd v)"]
      by (cases u; cases v) (auto intro: gc_noted_mono)
  qed
  then show "registry = filter registry_name keys" and "gc_sound j pending live"
    and "\<forall>key \<in> set keys. registry_name key \<or> gc_noted j (set pending) live key" by simp_all
qed

section \<open>The plan\<close>

lemma j_keys_all [simp]: "j_keys j [] = map fst (j_roots j)"
  by (simp add: j_keys_def dropWhile_eq_self_iff)

lemma gc_points_complete:
  assumes noted: "\<And>key. key \<in> fst ` set (j_roots j) \<Longrightarrow> \<not> registry_name key \<Longrightarrow> gc_noted j pending live key"
    and closed: "gc_closed j {} live E" "pending \<subseteq> E"
  shows "gc_points j i kind \<Longrightarrow> (i, kind) \<in> E"
proof (induction rule: gc_points.induct)
  case (world w i)
  then show ?case using noted [of "history @ ''world/'' @ w"] closed(2)
    by (fastforce simp: gc_noted_def dest: map_of_SomeD intro: rev_image_eqI)
next
  case (revision w i)
  then show ?case using noted [of "history @ ''revision/'' @ w"] closed(2)
    by (fastforce simp: gc_noted_def dest: map_of_SomeD intro: rev_image_eqI)
next
  case (base w k b)
  then show ?case using noted [of "history @ ''base/'' @ w"] closed(2)
    by (fastforce simp: gc_noted_def dest: map_of_SomeD intro: rev_image_eqI)
qed (use closed(1) in \<open>fastforce simp: gc_closed_def\<close>)+

lemma gc_live_complete:
  assumes noted: "\<And>key. key \<in> fst ` set (j_roots j) \<Longrightarrow> \<not> registry_name key \<Longrightarrow> gc_noted j pending live key"
    and closed: "gc_closed j {} live' E" "pending \<subseteq> E" "live \<subseteq> live'" and "gc_live j i"
  shows "i \<in> live'"
proof -
  have noted': "\<And>key. key \<in> fst ` set (j_roots j) \<Longrightarrow> \<not> registry_name key \<Longrightarrow> gc_noted j pending live' key"
    using noted closed(3) gc_noted_mono by blast
  have points: "(k, kind) \<in> E" if "gc_points j k kind" for k kind
    by (rule gc_points_complete [OF _ closed(1,2) that]) (rule noted')
  from \<open>gc_live j i\<close> show ?thesis
  proof cases
    case (named key)
    then show ?thesis using noted' [of key]
      by (fastforce simp: gc_noted_def dest: map_of_SomeD intro: rev_image_eqI)
  next
    case (traced kind)
    then show ?thesis using points closed(1) by (fastforce simp: gc_closed_def)
  next
    case (held k b)
    then show ?thesis using points [OF held(2)] closed(1) by (fastforce simp: gc_closed_def)
  qed
qed

definition gc_obsolete :: "journal \<Rightarrow> string \<Rightarrow> bool" where
  "gc_obsolete j key \<longleftrightarrow> registry_name key \<and> (\<exists>i. map_of (j_roots j) key = Some i \<and> \<not> gc_live j i)"

lemma gc_plan_Inr:
  assumes "gc_plan j = Inr (live, obsolete)"
  shows "live = {i. gc_live j i}" and "live \<subseteq> fst ` set (j_objects j)"
    and "obsolete = filter (gc_obsolete j) (map fst (j_roots j))"
proof -
  let ?f = "\<lambda>key obsolete. bindR (j_root_object j key) (\<lambda>i. Inr (if i \<in> live then obsolete else obsolete @ [key]))"
  obtain registry live0 pending where roots: "foldR (gc_root j) (map fst (j_roots j)) ([], {}, []) = Inr (registry, live0, pending)"
    and trace: "gc_trace j pending live0 {} = Inr live" and last: "foldR ?f registry [] = Inr obsolete"
    using assms by (auto simp: gc_plan_def split: sum.splits)
  note start = gc_roots_Inr [OF roots]
  have sound: "gc_sound j [] live" by (rule gc_trace_sound [OF trace start(2)])
  obtain E where E: "live0 \<subseteq> live" "set pending \<subseteq> E" "gc_closed j {} live E"
    using gc_trace_closed [OF trace] by (auto simp: gc_closed_def)
  have noted: "\<And>key. key \<in> fst ` set (j_roots j) \<Longrightarrow> \<not> registry_name key \<Longrightarrow> gc_noted j (set pending) live0 key"
    using start(3) by auto
  show live: "live = {i. gc_live j i}"
    using sound gc_live_complete [OF _ E(3,2,1)] noted by (auto simp: gc_sound_def)
  show "live \<subseteq> fst ` set (j_objects j)"
    using sound unfolding gc_sound_def dom_map_of_conv_image_fst [symmetric] by auto
  have "obsolete = filter (\<lambda>key. \<exists>i. map_of (j_roots j) key = Some i \<and> i \<notin> live) ([] @ registry)"
    by (rule foldR_prefix [OF last]) auto
  then show "obsolete = filter (gc_obsolete j) (map fst (j_roots j))"
    unfolding start(1) live append_Nil filter_filter by (simp add: gc_obsolete_def [abs_def])
qed

section \<open>Collection\<close>

lemma map_of_fold_erase:
  "smap_ok m \<Longrightarrow> map_of (fold erase ks m) k = (if k \<in> set ks then None else map_of m k)"
  by (induction ks arbitrary: m) auto

lemma smap_ok_fold_erase [simp]: "smap_ok m \<Longrightarrow> smap_ok (fold erase ks m)"
  by (induction ks arbitrary: m) auto

lemma gc_plan_roots:
  assumes "gc_plan j = Inr (live, obsolete)" and "smap_ok (j_roots j)"
  shows "map_of (fold erase obsolete (j_roots j)) key = (if gc_obsolete j key then None else map_of (j_roots j) key)"
  using map_of_fold_erase [OF assms(2), of obsolete key] gc_plan_Inr(3) [OF assms(1)]
  by (auto simp: gc_obsolete_def dest: map_of_SomeD intro: rev_image_eqI)

lemma foldR_unit_Inr: "foldR f xs () = Inr () \<longleftrightarrow> (\<forall>x \<in> set xs. f x () = Inr ())"
  by (induction xs) auto

lemma j_verify_Inr:
  "j_verify sha j = Inr () \<longleftrightarrow> (\<forall>(i, b) \<in> set (j_objects j). object_hash sha b = i) \<and>
     (\<forall>(key, i) \<in> set (j_roots j). map_of (j_objects j) i \<noteq> None)"
  by (auto simp: j_verify_def foldR_unit_Inr split_beta)

lemma in_fold_erase: "x \<in> set (fold erase ks m) \<Longrightarrow> x \<in> set m"
  by (induction ks arbitrary: m) (auto dest: in_erase)

lemma map_of_filter_key: "map_of (filter (\<lambda>(k, _). P k) m) k = (if P k then map_of m k else None)"
  by (induction m) auto

text \<open>After a successful plan the collection itself and the second verification cannot fail.\<close>

lemma collection_succeeds:
  assumes ok: "smap_ok (j_roots j)" and plan: "gc_plan j = Inr (live, obsolete)" and verified: "j_verify sha j = Inr ()"
    and collected: "j_collect (j_sequence j) live obsolete j = Inr (n, j')"
  shows "j_verify sha j' = Inr ()"
proof -
  have j': "j_objects j' = filter (\<lambda>(i, _). i \<in> live) (j_objects j)" "j_roots j' = fold erase obsolete (j_roots j)"
    using collected by (auto simp: j_collect_def split: if_splits)
  have "map_of (j_objects j') i \<noteq> None" if "(key, i) \<in> set (j_roots j')" for key i
  proof -
    have root: "map_of (j_roots j) key = Some i"
      using in_fold_erase [of _ obsolete] that ok unfolding j'(2) by (metis map_of_eq_Some_iff smap_ok_distinct)
    have "smap_ok (j_roots j')" using ok by (simp add: j'(2))
    then have "map_of (j_roots j') key = Some i" using that by (metis map_of_eq_Some_iff smap_ok_distinct)
    then have "\<not> gc_obsolete j key" using gc_plan_roots [OF plan ok, of key] unfolding j'(2) by (auto split: if_splits)
    then have "gc_live j i" using root gc_live.named [OF root] by (auto simp: gc_obsolete_def)
    moreover have "map_of (j_objects j) i \<noteq> None" using verified map_of_SomeD [OF root] by (auto simp: j_verify_Inr)
    ultimately show ?thesis unfolding j'(1) map_of_filter_key by (simp add: gc_plan_Inr(1) [OF plan])
  qed
  then show ?thesis using verified by (auto simp: j_verify_Inr j'(1))
qed

lemma j_collect_Inr:
  assumes "gc_plan j = Inr (live, obsolete)" "j_leveldb j" "j_sequence j \<noteq> - 1"
  shows "j_collect (j_sequence j) live obsolete j =
    Inr (length (filter (\<lambda>(i, _). i \<notin> live) (j_objects j)),
       j\<lparr>j_sequence := j_sequence j + 1, j_objects := filter (\<lambda>(i, _). i \<in> live) (j_objects j),
         j_roots := fold erase obsolete (j_roots j)\<rparr>)"
  using assms(2,3) gc_plan_Inr(2,3) [OF assms(1)]
  by (auto simp: j_collect_def j_contains_def gc_obsolete_def list_all_iff)

definition gc_idle :: "container \<Rightarrow> bool" where
  "gc_idle c \<longleftrightarrow> j_leveldb (ct_journal c) \<and> ct_handles c = [] \<and> \<not> ct_running c \<and> ct_pins c = []"

lemma collect_garbage_cases:
  assumes ok: "smap_ok (j_roots (ct_journal c))"
  obtains (refused) e where "collect_garbage sha c = (Inl e, c)"
      "\<not> gc_idle c \<or> j_verify sha (ct_journal c) \<noteq> Inr () \<or> \<not> is_ok (gc_plan (ct_journal c)) \<or> j_sequence (ct_journal c) = - 1"
    | (collected) n j' live obsolete where "collect_garbage sha c = (Inr n, c\<lparr>ct_journal := j'\<rparr>)"
      "gc_idle c" "j_verify sha (ct_journal c) = Inr ()" "gc_plan (ct_journal c) = Inr (live, obsolete)"
      "j_collect (j_sequence (ct_journal c)) live obsolete (ct_journal c) = Inr (n, j')"
proof (cases "gc_idle c \<and> j_verify sha (ct_journal c) = Inr () \<and> is_ok (gc_plan (ct_journal c)) \<and> j_sequence (ct_journal c) \<noteq> - 1")
  case True
  then obtain live obsolete where plan: "gc_plan (ct_journal c) = Inr (live, obsolete)" by (auto simp: is_ok_iff)
  from True have "j_leveldb (ct_journal c)" "j_sequence (ct_journal c) \<noteq> - 1" by (simp_all add: gc_idle_def)
  note taken = j_collect_Inr [OF plan this]
  from True have verified: "j_verify sha (ct_journal c) = Inr ()" by simp
  show thesis
    by (rule collected [OF _ _ verified plan taken])
       (use True collection_succeeds [OF ok plan verified taken] in
         \<open>auto simp: collect_garbage_def gc_idle_def Let_def bindS_def plan taken verified\<close>)
next
  case False
  have "\<exists>e. collect_garbage sha c = (Inl e, c)"
    using False by (auto simp: collect_garbage_def gc_idle_def Let_def bindS_def is_ok_iff j_collect_def split: sum.splits prod.splits)
  then show thesis using refused False by blast
qed

text \<open>C15. Garbage collection that returns has removed exactly the objects that are not live, none of the live
  objects was missing, the names outside the registry are unchanged, a registry name is kept exactly if the
  object it names is live, the result counts the removed objects, and the rest of the container is
  untouched.\<close>

theorem collect_garbage_exact:
  assumes "smap_ok (j_roots (ct_journal c))" and "smap_ok (j_objects (ct_journal c))"
    and "collect_garbage sha c = (Inr n, c')"
  shows "let j = ct_journal c; j' = ct_journal c' in
    (\<forall>i. gc_live j i \<longrightarrow> map_of (j_objects j) i \<noteq> None) \<and>
    (\<forall>i. map_of (j_objects j') i = (if gc_live j i then map_of (j_objects j) i else None)) \<and>
    (\<forall>key. map_of (j_roots j') key = (if gc_obsolete j key then None else map_of (j_roots j) key)) \<and>
    n = card {i. map_of (j_objects j) i \<noteq> None \<and> \<not> gc_live j i} \<and>
    j_sequence j' = j_sequence j + 1 \<and> c' = c\<lparr>ct_journal := j'\<rparr>"
  using assms(1)
proof (cases rule: collect_garbage_cases [where sha = sha])
  case (refused e)
  then show ?thesis using assms(3) by simp
next
  case (collected m j' live obsolete)
  let ?j = "ct_journal c"
  note plan = gc_plan_Inr [OF collected(4)]
  have c': "n = m" "c' = c\<lparr>ct_journal := j'\<rparr>" using assms(3) collected(1) by simp_all
  have j': "j_objects j' = filter (\<lambda>(i, _). i \<in> live) (j_objects ?j)" "j_roots j' = fold erase obsolete (j_roots ?j)"
    "j_sequence j' = j_sequence ?j + 1" "m = length (filter (\<lambda>(i, _). i \<notin> live) (j_objects ?j))"
    using collected(5) by (auto simp: j_collect_def split: if_splits)
  have "m = card (fst ` set (filter (\<lambda>(i, _). i \<notin> live) (j_objects ?j)))"
    using distinct_card [OF smap_ok_distinct [OF smap_ok_filter [OF assms(2), of "\<lambda>(i, _). i \<notin> live"]]] by (simp add: j'(4))
  also have "fst ` set (filter (\<lambda>(i, _). i \<notin> live) (j_objects ?j)) = {i. map_of (j_objects ?j) i \<noteq> None \<and> \<not> gc_live ?j i}"
    using assms(2) by (auto simp: plan(1) smap_ok_set intro: rev_image_eqI)
  finally have "m = card {i. map_of (j_objects ?j) i \<noteq> None \<and> \<not> gc_live ?j i}" .
  moreover have "map_of (j_objects ?j) i \<noteq> None" if "gc_live ?j i" for i
    using plan(2) that unfolding plan(1) dom_map_of_conv_image_fst [symmetric] by auto
  ultimately show ?thesis
    by (simp add: Let_def c' j'(1-3) map_of_filter_key plan(1) gc_plan_roots [OF collected(4) assms(1)])
qed

text \<open>A repository with one empty world, a registry name for its manifest, and one object nobody needs.\<close>

definition length_digest :: "bytes \<Rightarrow> oid" where
  "length_digest b = of_nat (length b)"

definition gc_manifest :: bytes where
  "gc_manifest = ''FFTREE01'' @ replicate 32 (CHR 0x00)"

definition gc_sample :: journal where
  "gc_sample = \<lparr>j_leveldb = True, j_sequence = 7,
     j_roots = [(history @ ''object/a'', 68), (history @ ''object/b'', 32), (history @ ''world/w'', 68)],
     j_objects = [(32, ''gone''), (68, gc_manifest)]\<rparr>"

definition idle_container :: "journal \<Rightarrow> container" where
  "idle_container j = \<lparr>ev_clock = (\<lambda>_. 0), ev_entropy = (\<lambda>n. Inr (of_nat n)), ct_journal = j, ct_handles = [],
     ct_cursors = (\<lambda>_. \<lparr>fc_position = 0, fc_locks = []\<rparr>), ct_next_cursor = 0, ct_counts = [], ct_lifetime = 0,
     ct_pins = [], ct_next_pin = 0, ct_running = False, ct_stop = False, ct_active = False, ct_queue = [],
     ct_pending = {}, ct_completed = 0, ct_races = 0, ct_failures = 0, ct_error = [], ct_world_failures = [],
     ct_waits = []\<rparr>"

lemma gc_manifest_fields:
  "length gc_manifest = 40" "slice 0 8 gc_manifest = ''FFTREE01''" "oid_at gc_manifest 8 = 0"
  by (simp_all add: gc_manifest_def oid_at_def oid_of_bytes_def slice_def)

lemma gc_sample_plan: "gc_plan gc_sample = Inr ({68}, [history @ ''object/b''])"
  by (simp add: gc_plan_def gc_sample_def gc_root_def j_root_object_def j_get_object_def Let_def trace_def
      gc_trace.simps gc_expand_def gc_reference_def gc_manifest_fields)

lemma gc_sample_verify: "j_verify length_digest gc_sample = Inr ()"
  by (simp add: j_verify_Inr gc_sample_def gc_manifest_fields object_hash_def object_frame_def length_digest_def)

lemma gc_sample_collects: "is_ok (fst (collect_garbage length_digest (idle_container gc_sample)))"
proof -
  have ok: "smap_ok (j_roots (ct_journal (idle_container gc_sample)))" by (simp add: gc_sample_def idle_container_def)
  show ?thesis using ok
    by (cases rule: collect_garbage_cases [where sha = length_digest])
       (use gc_sample_plan gc_sample_verify in \<open>simp_all add: gc_idle_def idle_container_def gc_sample_def\<close>)
qed

theorem collect_garbage_exact_witness:
  "smap_ok (j_roots gc_sample) \<and> smap_ok (j_objects gc_sample) \<and>
   (\<exists>n c'. collect_garbage length_digest (idle_container gc_sample) = (Inr n, c') \<and>
     n = card {i. map_of (j_objects gc_sample) i \<noteq> None \<and> \<not> gc_live gc_sample i} \<and>
     (\<forall>i. map_of (j_objects (ct_journal c')) i = (if gc_live gc_sample i then map_of (j_objects gc_sample) i else None)))"
proof -
  have ok: "smap_ok (j_roots gc_sample)" "smap_ok (j_objects gc_sample)" by (simp_all add: gc_sample_def)
  have j: "ct_journal (idle_container gc_sample) = gc_sample" by (simp add: idle_container_def)
  obtain n c' where run: "collect_garbage length_digest (idle_container gc_sample) = (Inr n, c')"
    using gc_sample_collects by (cases "collect_garbage length_digest (idle_container gc_sample)") (auto simp: is_ok_iff)
  show ?thesis using collect_garbage_exact [OF _ _ run, unfolded j, OF ok] ok run by (auto simp: Let_def)
qed



end
