(* ===== verification/Compaction.thy ===== *)
theory Compaction
  imports Container_State
begin

text \<open>
  \<^verbatim>\<open>daemon/compaction.cpp\<close> and \<^verbatim>\<open>daemon/maintenance.cpp\<close>: a compaction task copies its input under the
  lock, plans without it, stages objects in bounded batches, and publishes the new head in one
  transaction that checks the head it started from; a background loop runs tasks from a queue.
  Between the locked steps of a task other operations may change the container: the steps are
  separate operations on it.
\<close>

section \<open>Tasks\<close>

record task =
  tk_world :: string
  tk_head :: "oid option"
  tk_sequence :: u64
  tk_input :: frozen
  tk_plan :: vplan
  tk_output :: "(string \<times> bytes) list"
  tk_ids :: "oid list"
  tk_output_head :: oid
  tk_cursor :: nat
  tk_staging :: bool
  tk_prepared :: bool
  tk_built :: bool
  tk_installed :: bool

definition new_task :: "string \<Rightarrow> task" where
  "new_task world = \<lparr>tk_world = world, tk_head = None, tk_sequence = 0, tk_input = \<lparr>fz_flat = [], fz_runs = []\<rparr>,
     tk_plan = \<lparr>vp_objects = [], vp_manifest = [], vp_run_count = 0\<rparr>, tk_output = [], tk_ids = [], tk_output_head = 0,
     tk_cursor = 0, tk_staging = False, tk_prepared = False, tk_built = False, tk_installed = False\<rparr>"

definition current_head :: "journal \<Rightarrow> string \<Rightarrow> oid option" where
  "current_head j world = map_of (j_roots j) (world_key world)"

definition task_prepare :: "(bytes \<Rightarrow> oid) \<Rightarrow> journal \<Rightarrow> task \<Rightarrow> task res" where
  "task_prepare sha j t =
     need (\<not> tk_prepared t) ''compaction task already prepared'' (
     bindR (valid_name (tk_world t)) (\<lambda>_.
     bindR (open_view j (tk_world t) False False) (\<lambda>v.
     bindR (freeze sha j v) (\<lambda>input.
     Inr (t\<lparr>tk_head := current_head j (tk_world t), tk_sequence := j_sequence j, tk_input := input, tk_prepared := True\<rparr>)))))"

definition task_build :: "(bytes \<Rightarrow> oid) \<Rightarrow> task \<Rightarrow> task res" where
  "task_build sha t =
     need (tk_prepared t \<and> \<not> tk_built t) ''compaction task cannot build'' (
     bindR (compact_frozen sha (tk_input t)) (\<lambda>p.
     Inr (t\<lparr>tk_plan := p, tk_ids := map (object_hash sha) (vp_objects p),
            tk_output := map (\<lambda>b. (object_registry (object_hash sha b), b)) (vp_objects p),
            tk_output_head := object_hash sha (vp_manifest p), tk_built := True\<rparr>)))"

definition matches_head :: "journal \<Rightarrow> task \<Rightarrow> bool" where
  "matches_head j t \<longleftrightarrow> current_head j (tk_world t) = tk_head t \<and> (tk_head t \<noteq> None \<or> j_sequence j = tk_sequence t)"

section \<open>Staging\<close>

datatype stage_result = Staged | Ready | Stale

text \<open>The scan of one staging step: objects and identities left, the cursor, the bytes and the
  batch so far.\<close>

fun stage_scan ::
    "journal \<Rightarrow> (string \<times> bytes) list \<Rightarrow> oid list \<Rightarrow> nat \<Rightarrow> nat \<Rightarrow> mutation list \<Rightarrow> (nat \<times> mutation list) res" where
  "stage_scan j ((key, payload) # rest) (i # is) pos used batch =
     need (length payload \<le> 256 * 1024) ''compaction object exceeds staging budget'' (
     if j_contains j key then
       bindR (j_root_object j key) (\<lambda>r.
       need (r = i) ''staged object identity mismatch'' (
       bindR (j_get j key) (\<lambda>b.
       need (b = payload) ''staged object content mismatch'' (
       stage_scan j rest is (pos + 1) used batch))))
     else if batch \<noteq> [] \<and> (used + length payload > 256 * 1024 \<or> length batch = 64) then Inr (pos, batch)
     else stage_scan j rest is (pos + 1) (used + length payload) (batch @ [value_mutation key (Some payload)]))"
| "stage_scan j _ _ pos used batch = Inr (pos, batch)"

definition stage_next :: "(bytes \<Rightarrow> oid) \<Rightarrow> task \<Rightarrow> journal \<Rightarrow> (stage_result \<times> task \<times> journal) res" where
  "stage_next sha t j =
     need (tk_built t \<and> \<not> tk_installed t) ''compaction task cannot stage'' (
     let t = t\<lparr>tk_staging := True\<rparr> in
     if \<not> matches_head j t then Inr (Stale, t, j)
     else
       bindR (stage_scan j (drop (tk_cursor t) (tk_output t)) (drop (tk_cursor t) (tk_ids t)) (tk_cursor t) 0 []) (\<lambda>(pos, batch).
       if batch \<noteq> [] then
         bindR (j_transact sha (j_sequence j) batch j) (\<lambda>j.
         Inr (Staged, t\<lparr>tk_sequence := (if tk_head t = None then j_sequence j else tk_sequence t), tk_cursor := pos\<rparr>, j))
       else Inr (Ready, t\<lparr>tk_cursor := pos\<rparr>, j)))"

section \<open>Publication\<close>

definition publish_batch :: "journal \<Rightarrow> task \<Rightarrow> mutation list res" where
  "publish_batch j t =
     (if \<not> tk_staging t then
        foldR (\<lambda>((key, payload), i) batch.
          if j_contains j key then
            bindR (j_root_object j key) (\<lambda>r.
            need (r = i) ''compaction object identity mismatch'' (
            bindR (j_get j key) (\<lambda>b.
            need (b = payload) ''compaction object content mismatch'' (Inr batch))))
          else Inr (batch @ [value_mutation key (Some payload)])) (zip (tk_output t) (tk_ids t)) []
      else
        foldR (\<lambda>((key, payload), i) batch.
          need (j_contains j key) ''compaction output missing before publication'' (
          bindR (j_root_object j key) (\<lambda>r.
          need (r = i) ''compaction output missing before publication'' (Inr batch)))) (zip (tk_output t) (tk_ids t)) [])"

text \<open>The last locked step: \<open>True\<close> when the head was published (or already is the output).\<close>

definition task_publish :: "(bytes \<Rightarrow> oid) \<Rightarrow> task \<Rightarrow> journal \<Rightarrow> (bool \<times> task \<times> journal) res" where
  "task_publish sha t j =
     (if \<not> matches_head j t then Inr (False, t, j)
      else if tk_head t = Some (tk_output_head t) then Inr (True, t\<lparr>tk_installed := True\<rparr>, j)
      else
        bindR (publish_batch j t) (\<lambda>batch.
        bindR (j_transact sha (j_sequence j) (batch @ [value_mutation (world_key (tk_world t)) (Some (vp_manifest (tk_plan t)))]) j) (\<lambda>j.
        Inr (True, t\<lparr>tk_installed := True\<rparr>, j))))"

text \<open>Each staging step advances the cursor, so one more step than there are objects is enough.\<close>

primrec stage_all :: "nat \<Rightarrow> (bytes \<Rightarrow> oid) \<Rightarrow> task \<Rightarrow> journal \<Rightarrow> (bool \<times> task \<times> journal) res" where
  "stage_all 0 sha t j = Inl (Runtime_error ''out of fuel'')"
| "stage_all (Suc fuel) sha t j = bindR (stage_next sha t j) (\<lambda>(r, t, j). case r of
       Stale \<Rightarrow> Inr (False, t, j) | Ready \<Rightarrow> Inr (True, t, j) | Staged \<Rightarrow> stage_all fuel sha t j)"

definition task_install :: "(bytes \<Rightarrow> oid) \<Rightarrow> task \<Rightarrow> journal \<Rightarrow> (bool \<times> task \<times> journal) res" where
  "task_install sha t j =
     need (tk_built t \<and> \<not> tk_installed t) ''compaction task cannot install'' (
     if \<not> matches_head j t then Inr (False, t, j)
     else if tk_head t = Some (tk_output_head t) then Inr (True, t\<lparr>tk_installed := True\<rparr>, j)
     else if tk_staging t \<or> length (vp_manifest (tk_plan t)) + sum_list (map (length \<circ> snd) (tk_output t)) > 256 * 1024 then
       bindR (stage_all (length (tk_output t) + 2) sha t j) (\<lambda>(go, t, j).
       if go then task_publish sha t j else Inr (False, t, j))
     else task_publish sha t j)"

text \<open>\<open>Namespace::compact\<close> on the single-file backend, with no other thread running: eight tries.\<close>

definition run_task :: "(bytes \<Rightarrow> oid) \<Rightarrow> string \<Rightarrow> journal \<Rightarrow> (bool \<times> task \<times> journal) res" where
  "run_task sha world j =
     bindR (task_prepare sha j (new_task world)) (\<lambda>t. bindR (task_build sha t) (\<lambda>t. task_install sha t j))"

primrec compact_retries :: "nat \<Rightarrow> (bytes \<Rightarrow> oid) \<Rightarrow> string \<Rightarrow> journal \<Rightarrow> journal res" where
  "compact_retries 0 sha world j = Inl (Runtime_error ''compaction busy: World head keeps changing'')"
| "compact_retries (Suc n) sha world j = bindR (run_task sha world j) (\<lambda>(ok, _, j).
     if ok then Inr j else compact_retries n sha world j)"

section \<open>The background loop\<close>

definition start_compaction :: "(container, unit) op" where
  "start_compaction c =
     (if ct_running c \<or> j_leveldb (ct_journal c) then (Inr (), c)
      else bindS (liftS (foldR (\<lambda>key due.
               let name = drop (length (world_key [])) key in
               bindR (open_view (ct_journal c) name False False) (\<lambda>v.
               Inr (if view_run_count v \<ge> 16 then due @ [name] else due))) (j_keys (ct_journal c) (world_key [])) [])) (\<lambda>due.
           modifyS (\<lambda>c. fold schedule_compaction due (c\<lparr>ct_stop := False, ct_running := True\<rparr>))) c)"

definition stop_compaction :: "container \<Rightarrow> container" where
  "stop_compaction c = (if ct_running c
     then c\<lparr>ct_stop := True, ct_running := False, ct_active := False, ct_queue := [], ct_pending := {}\<rparr> else c)"

text \<open>One turn of the loop: take a world from the queue, and, when its task has ended, record how.\<close>

definition take_job :: "container \<Rightarrow> (string \<times> container) option" where
  "take_job c = (if ct_stop c then None else case ct_queue c of [] \<Rightarrow> None
     | world # rest \<Rightarrow> Some (world, c\<lparr>ct_queue := rest, ct_pending := ct_pending c - {world}, ct_active := True\<rparr>))"

definition job_error :: "(bool \<times> task \<times> journal) res \<Rightarrow> string" where
  "job_error r = (case r of Inl e \<Rightarrow> what e
     | Inr (installed, t, _) \<Rightarrow> if installed \<and> vp_run_count (tk_plan t) \<ge> 32
         then ''full compaction exhausted manifest run capacity'' else [])"

definition finish_job :: "string \<Rightarrow> (bool \<times> task \<times> journal) res \<Rightarrow> container \<Rightarrow> container" where
  "finish_job world r c =
     (let c = c\<lparr>ct_active := False\<rparr>; error = job_error r;
          installed = (case r of Inl _ \<Rightarrow> False | Inr (installed, _, _) \<Rightarrow> installed) in
      if error \<noteq> [] then
        c\<lparr>ct_failures := ct_failures c + 1,
          ct_world_failures := put world ((case map_of (ct_world_failures c) world of None \<Rightarrow> 0 | Some n \<Rightarrow> n) + 1) (ct_world_failures c),
          ct_error := world @ '': '' @ error\<rparr>
      else if installed then c\<lparr>ct_completed := ct_completed c + 1\<rparr>
      else schedule_compaction world (c\<lparr>ct_races := ct_races c + 1\<rparr>))"

end
