(* ===== verification/Repository_Laws.thy ===== *)
theory Repository_Laws
  imports Repository
begin

text \<open>
  Laws of the journal contract that its clients use: what a batch that commits did to the roots and the
  objects, on either backend, and when a batch of values on the single-file backend commits.
\<close>

section \<open>The batch a list of mutations builds\<close>

definition mutation_effect :: "(bytes \<Rightarrow> oid) \<Rightarrow> mutation \<Rightarrow> string \<times> oid option" where
  "mutation_effect sha m = (m_key m, case m_reference m of Some i \<Rightarrow> Some i | None \<Rightarrow> map_option (object_hash sha) (m_value m))"

lemma fst_mutation_effect [simp]: "fst (mutation_effect sha m) = m_key m"
  by (simp add: mutation_effect_def)

definition new_values :: "mutation list \<Rightarrow> bytes set" where
  "new_values ms = {v. \<exists>m \<in> set ms. m_reference m = None \<and> m_value m = Some v}"

lemma new_values_simps [simp]:
  "new_values [] = {}"
  "new_values (m # ms) = (case (m_reference m, m_value m) of (None, Some v) \<Rightarrow> {v} | _ \<Rightarrow> {}) \<union> new_values ms"
  by (auto simp: new_values_def split: option.split)

lemma new_values_append [simp]: "new_values (a @ b) = new_values a \<union> new_values b"
  by (auto simp: new_values_def)

definition noted_value :: "(bytes \<Rightarrow> oid) \<Rightarrow> mutation \<Rightarrow> jbatch \<Rightarrow> jbatch" where
  "noted_value sha m t = (case (m_reference m, m_value m) of (None, Some v) \<Rightarrow> add_value sha v t | _ \<Rightarrow> t)"

lemma mutation_Inr:
  assumes "level_mutation sha j m t = Inr t' \<or> file_mutation sha j m t = Inr t'"
  shows "map_of (jb_changes t) (m_key m) = None"
    and "t' = add_change (m_key m) (snd (mutation_effect sha m)) (noted_value sha m t)"
  using assms by (auto simp: level_mutation_def file_mutation_def Let_def mutation_effect_def noted_value_def
    split: if_splits option.splits)

lemma add_value_fields:
  "jb_changes (add_value sha v t) = jb_changes t"
  "map_of (jb_values (add_value sha v t)) = (map_of (jb_values t))(object_hash sha v \<mapsto>
     (case map_of (jb_values t) (object_hash sha v) of None \<Rightarrow> v | Some w \<Rightarrow> w))"
  "smap_ok (jb_values t) \<Longrightarrow> smap_ok (jb_values (add_value sha v t))"
  by (auto simp: add_value_def Let_def fun_eq_iff split: option.split)

lemma noted_value_changes [simp]: "jb_changes (noted_value sha m t) = jb_changes t"
  by (simp add: noted_value_def add_value_fields split: option.split)

text \<open>The batch after the mutations \<open>ms\<close>.\<close>

definition collects :: "(bytes \<Rightarrow> oid) \<Rightarrow> mutation list \<Rightarrow> jbatch \<Rightarrow> bool" where
  "collects sha ms t \<longleftrightarrow> distinct (map m_key ms) \<and> smap_ok (jb_changes t) \<and> smap_ok (jb_values t) \<and>
     map_of (jb_changes t) = map_of (map (mutation_effect sha) ms) \<and>
     (\<forall>h v. map_of (jb_values t) h = Some v \<longrightarrow> h = object_hash sha v \<and> v \<in> new_values ms) \<and>
     (\<forall>v \<in> new_values ms. map_of (jb_values t) (object_hash sha v) \<noteq> None)"

lemma map_of_append_new: "k \<notin> fst ` set m \<Longrightarrow> map_of (m @ [(k, v)]) = (map_of m)(k \<mapsto> v)"
  by (induction m) (auto simp: fun_eq_iff)

lemma effect_keys: "fst ` set (map (mutation_effect sha) ms) = m_key ` set ms"
  by (simp add: image_image)

lemma collects_step:
  assumes "level_mutation sha j m t = Inr t' \<or> file_mutation sha j m t = Inr t'" and c: "collects sha ms t"
  shows "collects sha (ms @ [m]) t'"
proof -
  note m = mutation_Inr [OF assms(1)]
  have new: "m_key m \<notin> m_key ` set ms"
    using m(1) c unfolding collects_def by (metis effect_keys map_of_eq_None_iff)
  have changes: "map_of (jb_changes t') = map_of (map (mutation_effect sha) (ms @ [m]))"
    using c new map_of_append_new [of "m_key m" "map (mutation_effect sha) ms" "snd (mutation_effect sha m)"]
    by (simp add: m(2) add_change_def collects_def image_image)
  have "(\<forall>h v. map_of (jb_values t') h = Some v \<longrightarrow> h = object_hash sha v \<and> v \<in> new_values (ms @ [m])) \<and>
      (\<forall>v \<in> new_values (ms @ [m]). map_of (jb_values t') (object_hash sha v) \<noteq> None) \<and> smap_ok (jb_values t')"
    using c by (auto simp: m(2) add_change_def noted_value_def collects_def add_value_fields split: option.splits if_splits)
  moreover have "smap_ok (jb_changes t')" using c by (simp add: m(2) add_change_def collects_def)
  ultimately show ?thesis using changes new c by (auto simp: collects_def)
qed

lemma mutations_collect:
  assumes "foldR (level_mutation sha j) ms empty_batch = Inr t \<or> foldR (file_mutation sha j) ms empty_batch = Inr t"
  shows "collects sha ms t"
proof -
  have "collects sha (zs @ ms) t" if "collects sha zs u" "foldR f ms u = Inr t"
      "f = level_mutation sha j \<or> f = file_mutation sha j" for zs u f
    using that
  proof (induction ms arbitrary: zs u)
    case (Cons m ms)
    then obtain w where w: "f m u = Inr w" "foldR f ms w = Inr t" by auto
    have "collects sha (zs @ [m]) w" using collects_step w(1) Cons.prems(1,3) by blast
    from Cons.IH [OF this w(2) Cons.prems(3)] show ?case by simp
  qed simp
  moreover have "collects sha [] empty_batch" by (simp add: collects_def)
  ultimately show ?thesis using assms by (metis append_Nil)
qed

section \<open>What a committed batch did\<close>

lemma j_transact_Inr:
  assumes "j_transact sha s ms j = Inr j'"
  obtains t where "collects sha ms t" "j' = j_commit t j" "s = j_sequence j" "j_sequence j \<noteq> - 1"
    "j_leveldb j \<Longrightarrow> \<forall>(h, v) \<in> set (jb_values t). map_of (j_objects j) h \<in> {None, Some v}"
proof -
  have checks: "foldR (level_object_check j) xs () = Inr () \<Longrightarrow> \<forall>(h, v) \<in> set xs. map_of (j_objects j) h \<in> {None, Some v}" for xs
    by (induction xs) (auto simp: level_object_check_def split: if_splits option.splits)
  have guard: "s = j_sequence j" "j_sequence j \<noteq> - 1" using assms by (auto simp: j_transact_def split: if_splits)
  show thesis
  proof (cases "j_leveldb j")
    case True
    then obtain t where t: "foldR (level_mutation sha j) ms empty_batch = Inr t" "foldR (level_object_check j) (jb_values t) () = Inr ()"
        "j' = j_commit t j"
      using assms by (auto simp: j_transact_def split: if_splits)
    show thesis by (rule that [OF mutations_collect [of sha j] t(3) guard checks [OF t(2)]]) (simp add: t(1))
  next
    case False
    then obtain t where t: "foldR (file_mutation sha j) ms empty_batch = Inr t" "j' = j_commit t j"
      using assms by (auto simp: j_transact_def split: if_splits)
    show thesis by (rule that [OF mutations_collect [of sha j] t(2) guard]) (use False t(1) in simp_all)
  qed
qed

text \<open>The journal holds only bytes of \<open>B\<close>, each under its hash; the hash separates the bytes of \<open>B\<close>.\<close>

definition addressed :: "(bytes \<Rightarrow> oid) \<Rightarrow> bytes set \<Rightarrow> journal \<Rightarrow> bool" where
  "addressed sha B j \<longleftrightarrow> smap_ok (j_roots j) \<and> smap_ok (j_objects j) \<and> inj_on (object_hash sha) B \<and>
     (\<forall>i b. map_of (j_objects j) i = Some b \<longrightarrow> object_hash sha b = i \<and> b \<in> B)"

lemma fold_objects:
  "smap_ok m \<Longrightarrow> smap_ok (fold (\<lambda>(h, v). if l then emplace h v else put h v) vs m)"
  by (induction vs arbitrary: m) auto

lemma map_of_fold_objects:
  assumes "distinct (map fst vs)" "l \<Longrightarrow> \<forall>(h, v) \<in> set vs. map_of m h \<in> {None, Some v}"
  shows "map_of (fold (\<lambda>(h, v). if l then emplace h v else put h v) vs m) = (\<lambda>i. case map_of vs i of None \<Rightarrow> map_of m i | Some v \<Rightarrow> Some v)"
  using assms
proof (induction vs arbitrary: m)
  case (Cons x vs)
  obtain h v where x: "x = (h, v)" by (cases x)
  let ?m = "if l then emplace h v m else put h v m"
  have m: "map_of ?m = (map_of m)(h \<mapsto> v)"
    using Cons.prems(2) by (auto simp: x map_of_emplace fun_eq_iff split: option.splits)
  have "\<forall>(k, w) \<in> set vs. map_of ?m k \<in> {None, Some w}" if l
    using Cons.prems that unfolding m by (fastforce simp: x split: if_splits intro: rev_image_eqI)
  from Cons.IH [OF _ this] Cons.prems(1) have
    "map_of (fold (\<lambda>(h, v). if l then emplace h v else put h v) (x # vs) m) = (\<lambda>i. case map_of vs i of None \<Rightarrow> map_of ?m i | Some v \<Rightarrow> Some v)"
    by (simp add: x if_distrib [of "\<lambda>f. f m"])
  moreover have "map_of vs h = None" using Cons.prems(1) by (simp add: x map_of_eq_None_iff)
  ultimately show ?case unfolding m by (simp add: x fun_eq_iff split: option.split)
qed simp

lemma j_transact_effect:
  assumes run: "j_transact sha s ms j = Inr j'" and a: "addressed sha B j" and B: "new_values ms \<subseteq> B"
  shows "addressed sha B j'" and "j_leveldb j' = j_leveldb j" and "j_sequence j' = j_sequence j + 1"
    and "map_of (j_roots j') k = (case map_of (map (mutation_effect sha) ms) k of None \<Rightarrow> map_of (j_roots j) k | Some x \<Rightarrow> x)"
    and "v \<in> new_values ms \<Longrightarrow> map_of (j_objects j') (object_hash sha v) = Some v"
    and "map_of (j_objects j) i = Some b \<Longrightarrow> map_of (j_objects j') i = Some b"
    and "map_of (j_objects j') i = Some b \<Longrightarrow> map_of (j_objects j) i = Some b \<or> b \<in> new_values ms"
proof -
  obtain t where t: "collects sha ms t" "j' = j_commit t j" "j_leveldb j \<Longrightarrow> \<forall>(h, v) \<in> set (jb_values t). map_of (j_objects j) h \<in> {None, Some v}"
    using j_transact_Inr [OF run] by blast
  have inj: "u = w" if "u \<in> B" "w \<in> B" "object_hash sha u = object_hash sha w" for u w
    using a that by (auto simp: addressed_def inj_on_def)
  have objects: "map_of (j_objects j') i = (case map_of (jb_values t) i of None \<Rightarrow> map_of (j_objects j) i | Some v \<Rightarrow> Some v)" for i
    using map_of_fold_objects [OF smap_ok_distinct t(3)] t(1)
    by (simp add: t(2) j_commit_def collects_def)
  have vals: "map_of (jb_values t) (object_hash sha v) = Some v" if "v \<in> new_values ms" for v
  proof -
    from t(1) that obtain w where w: "map_of (jb_values t) (object_hash sha v) = Some w" by (auto simp: collects_def)
    then have "object_hash sha v = object_hash sha w" "w \<in> new_values ms" using t(1) by (auto simp: collects_def)
    with inj [of v w] that B w show ?thesis by auto
  qed
  have fresh: "h = object_hash sha v \<and> v \<in> new_values ms" if "map_of (jb_values t) h = Some v" for h v
    using t(1) that by (simp add: collects_def)
  show "j_leveldb j' = j_leveldb j" "j_sequence j' = j_sequence j + 1" by (simp_all add: t(2) j_commit_def)
  show "map_of (j_roots j') k = (case map_of (map (mutation_effect sha) ms) k of None \<Rightarrow> map_of (j_roots j) k | Some x \<Rightarrow> x)"
    using t(1) a by (simp add: t(2) j_commit_def collects_def addressed_def map_of_apply_changes override_def)
  show "v \<in> new_values ms \<Longrightarrow> map_of (j_objects j') (object_hash sha v) = Some v" by (simp add: objects vals)
  show "map_of (j_objects j) i = Some b \<Longrightarrow> map_of (j_objects j') i = Some b"
    using a fresh inj B unfolding objects addressed_def by (cases "map_of (jb_values t) i") (simp, metis option.simps(5) subsetD)
  show new: "map_of (j_objects j') i = Some b \<Longrightarrow> map_of (j_objects j) i = Some b \<or> b \<in> new_values ms" for i b
    using fresh by (auto simp: objects split: option.splits)
  have "smap_ok (j_objects j')" "smap_ok (j_roots j')"
    using a by (simp_all add: t(2) j_commit_def addressed_def fold_objects)
  then show "addressed sha B j'"
    using a B fresh by (auto simp: addressed_def objects split: option.splits)
qed

section \<open>Batches of values that commit\<close>

text \<open>The encoded size of a batch is bounded by the sizes of its mutations.\<close>

definition value_weight :: "mutation \<Rightarrow> nat" where
  "value_weight m = (case m_value m of None \<Rightarrow> 0 | Some v \<Rightarrow> length v)"

definition plain_value :: "mutation \<Rightarrow> bool" where
  "plain_value m \<longleftrightarrow> m_reference m = None \<and> m_key m \<noteq> [] \<and> length (m_key m) \<le> 1024 \<and>
     (\<exists>v. m_value m = Some v \<and> length v \<le> 256 * 1024)"

definition bounded_batch :: "mutation list \<Rightarrow> jbatch \<Rightarrow> bool" where
  "bounded_batch ms t \<longleftrightarrow> jb_total t \<le> sum_list (map value_weight ms) \<and>
     (\<Sum>(_, v) \<leftarrow> jb_values t. record_size (4 + length v)) \<le> sum_list (map value_weight ms) + 91 * length ms \<and>
     (\<Sum>(k, _) \<leftarrow> jb_changes t. 40 + length k) = (\<Sum>m \<leftarrow> ms. 40 + length (m_key m))"

lemma record_size_bound: "record_size n \<le> n + 87"
  unfolding record_size_def by presburger

lemma sum_list_put:
  "map_of m k = None \<Longrightarrow> sum_list (map f (put k v m)) = f (k, v) + (sum_list (map f m) :: nat)"
  by (induction m) (auto split: if_splits)

lemma bounded_batch_step:
  assumes "plain_value m" "map_of (jb_changes t) (m_key m) = None" "bounded_batch ms t"
    "sum_list (map value_weight (ms @ [m])) \<le> 1024 * 1024"
  shows "\<exists>t'. file_mutation sha j m t = Inr t' \<and> bounded_batch (ms @ [m]) t'"
proof -
  obtain v where v: "m_value m = Some v" "length v \<le> 256 * 1024" using assms(1) by (auto simp: plain_value_def)
  let ?t = "add_change (m_key m) (Some (object_hash sha v)) (add_value sha v t)"
  have "bounded_batch (ms @ [m]) ?t"
    using assms(2,3) record_size_bound [of "4 + length v"]
    by (auto simp: bounded_batch_def add_change_def add_value_def Let_def v value_weight_def sum_list_put)
  moreover have "file_mutation sha j m t = Inr ?t"
    using assms(1,2) v calculation assms(4)
    by (auto simp: file_mutation_def plain_value_def Let_def bounded_batch_def add_change_def)
  ultimately show ?thesis by blast
qed

lemma bounded_mutations:
  assumes "list_all plain_value ms" "distinct (map m_key (zs @ ms))" "collects sha zs t" "bounded_batch zs t"
    "sum_list (map value_weight (zs @ ms)) \<le> 1024 * 1024"
  shows "\<exists>t'. foldR (file_mutation sha j) ms t = Inr t' \<and> bounded_batch (zs @ ms) t'"
  using assms
proof (induction ms arbitrary: zs t)
  case (Cons m ms)
  have "m_key m \<notin> m_key ` set zs" using Cons.prems(2) by auto
  then have "map_of (jb_changes t) (m_key m) = None"
    using Cons.prems(3) unfolding collects_def by (metis effect_keys map_of_eq_None_iff)
  with bounded_batch_step [of m t zs sha j] Cons.prems obtain u where
    u: "file_mutation sha j m t = Inr u" "bounded_batch (zs @ [m]) u" by auto
  have "collects sha (zs @ [m]) u" using collects_step u(1) Cons.prems(3) by blast
  with Cons.IH [of "zs @ [m]" u] u Cons.prems show ?case by simp
qed simp

text \<open>On the single-file backend a batch of distinct, bounded values commits as long as the sequence is
  not exhausted.\<close>

lemma value_batch_commits:
  assumes "\<not> j_leveldb j" "j_sequence j \<noteq> - 1" "ms \<noteq> []" "length ms \<le> 64" "list_all plain_value ms" "distinct (map m_key ms)"
    "sum_list (map value_weight ms) \<le> 1024 * 1024"
  shows "\<exists>j'. j_transact sha (j_sequence j) ms j = Inr j'"
proof -
  have "collects sha [] empty_batch" "bounded_batch [] empty_batch" by (simp_all add: collects_def bounded_batch_def)
  with bounded_mutations [of ms "[]" sha empty_batch j] assms(5-7)
  obtain t where t: "foldR (file_mutation sha j) ms empty_batch = Inr t" "bounded_batch ms t" by auto
  have "(\<Sum>m \<leftarrow> ms. 40 + length (m_key m)) \<le> (\<Sum>m \<leftarrow> ms. 1064)"
    using assms(5) by (intro sum_list_mono) (auto simp: list_all_iff plain_value_def)
  then have keys: "(\<Sum>m \<leftarrow> ms. 40 + length (m_key m)) \<le> 1064 * length ms" by (simp add: sum_list_triv)
  have "batch_size t \<le> 2 * 1024 * 1024"
    using t(2) keys assms(4,7) record_size_bound [of "44 + (\<Sum>(k, _) \<leftarrow> jb_changes t. 40 + length k)"]
    unfolding batch_size_def bounded_batch_def by linarith
  then show ?thesis using t(1) assms(1-4) by (simp add: j_transact_def)
qed

end
