(* ===== verification/Compaction_Laws.thy ===== *)
theory Compaction_Laws
  imports Compaction Repository_Laws Namespace_View_Laws
begin

text \<open>
  The steps of a compaction task: what a staging step puts into the journal, that staging ends, and what
  publication finds there.
\<close>

section \<open>The scan of a staging step\<close>

definition stage_mutation :: "string \<times> bytes \<Rightarrow> mutation" where
  "stage_mutation = (\<lambda>(key, payload). value_mutation key (Some payload))"

lemma stage_mutation_simps [simp]:
  "m_key (stage_mutation x) = fst x" "m_value (stage_mutation x) = Some (snd x)" "m_reference (stage_mutation x) = None"
  by (simp_all add: stage_mutation_def split_beta)

text \<open>The objects of the output that are not in the journal yet.\<close>

abbreviation missing :: "journal \<Rightarrow> (string \<times> bytes) list \<Rightarrow> (string \<times> bytes) list" where
  "missing j out \<equiv> filter (\<lambda>x. \<not> j_contains j (fst x)) out"

definition fits :: "nat \<Rightarrow> mutation list \<Rightarrow> bool" where
  "fits used batch \<longleftrightarrow> used = sum_list (map value_weight batch) \<and> used \<le> 256 * 1024 \<and> length batch \<le> 64"

lemma stage_scan_Inr:
  assumes "stage_scan j out is pos used batch = Inr (pos', batch')" and "length is = length out" and "fits used batch"
  shows "\<exists>k \<le> length out. pos' = pos + k \<and> batch' = batch @ map stage_mutation (missing j (take k out)) \<and>
    (k = length out \<or> batch' \<noteq> []) \<and> fits (sum_list (map value_weight batch')) batch' \<and>
    (\<forall>n < k. j_contains j (fst (out ! n)) \<longrightarrow> map_of (j_roots j) (fst (out ! n)) = Some (is ! n))"
  using assms
proof (induction j out "is" pos used batch rule: stage_scan.induct)
  case (1 j key payload rest i "is" pos used batch)
  note IH = "1.IH" and prems = "1.prems"
  have len: "length is = length rest" using prems(2) by simp
  have small: "length payload \<le> 256 * 1024" using prems(1) by (auto split: if_splits)
  consider (found) "j_contains j key" | (full) "\<not> j_contains j key" "batch \<noteq> [] \<and> (used + length payload > 256 * 1024 \<or> length batch = 64)"
    | (add) "\<not> j_contains j key" "\<not> (batch \<noteq> [] \<and> (used + length payload > 256 * 1024 \<or> length batch = 64))" by blast
  then show ?case
  proof cases
    case found
    then obtain b where root: "map_of (j_roots j) key = Some i" and get: "j_get j key = Inr b" "b = payload"
      and rest: "stage_scan j rest is (pos + 1) used batch = Inr (pos', batch')"
      using prems(1) by (auto simp: j_root_object_def split: if_splits option.splits)
    have "j_root_object j key = Inr i" using root by (simp add: j_root_object_def)
    from IH(1) [OF small found this refl get rest len prems(3)] obtain k where
      k: "k \<le> length rest" "pos' = pos + 1 + k" "batch' = batch @ map stage_mutation (missing j (take k rest))"
      "k = length rest \<or> batch' \<noteq> []" "fits (sum_list (map value_weight batch')) batch'"
      "\<forall>n < k. j_contains j (fst (rest ! n)) \<longrightarrow> map_of (j_roots j) (fst (rest ! n)) = Some (is ! n)" by blast
    show ?thesis
      by (rule exI [of _ "Suc k"]) (use k found root in \<open>auto simp: nth_Cons split: nat.split\<close>)
  next
    case full
    then have "pos' = pos" "batch' = batch" using prems(1) by (auto split: if_splits)
    then show ?thesis using full prems(3) by (intro exI [of _ 0]) (auto simp: fits_def)
  next
    case add
    let ?b = "batch @ [value_mutation key (Some payload)]"
    have rest: "stage_scan j rest is (pos + 1) (used + length payload) ?b = Inr (pos', batch')"
      using prems(1) add by (auto split: if_splits)
    have "fits (used + length payload) ?b"
      using prems(3) add(2) small by (cases "batch = []") (auto simp: fits_def value_weight_def)
    from IH(2) [OF small add rest len this] obtain k where
      k: "k \<le> length rest" "pos' = pos + 1 + k" "batch' = ?b @ map stage_mutation (missing j (take k rest))"
      "k = length rest \<or> batch' \<noteq> []" "fits (sum_list (map value_weight batch')) batch'"
      "\<forall>n < k. j_contains j (fst (rest ! n)) \<longrightarrow> map_of (j_roots j) (fst (rest ! n)) = Some (is ! n)" by blast
    show ?thesis
      by (rule exI [of _ "Suc k"]) (use k add in \<open>auto simp: nth_Cons stage_mutation_def split: nat.split\<close>)
  qed
qed (auto simp: fits_def intro!: exI [of _ 0])

lemma stage_scan_returns:
  assumes "length is = length out" and "list_all (\<lambda>x. length (snd x) \<le> 256 * 1024) out"
    and "list_all2 (\<lambda>(key, b) i. j_contains j key \<longrightarrow> map_of (j_roots j) key = Some i \<and> map_of (j_objects j) i = Some b) out is"
  shows "is_ok (stage_scan j out is pos used batch)"
  using assms
  by (induction j out "is" pos used batch rule: stage_scan.induct)
     (auto simp: j_get_def j_root_object_def j_get_object_def is_ok_def split: option.splits)

section \<open>Staging ends\<close>

text \<open>The staging loop of \<^verbatim>\<open>Compaction::install\<close> without fuel: the results it can end with.\<close>

inductive stages :: "(bytes \<Rightarrow> oid) \<Rightarrow> task \<Rightarrow> journal \<Rightarrow> (bool \<times> task \<times> journal) res \<Rightarrow> bool" for sha where
  throws: "stage_next sha t j = Inl e \<Longrightarrow> stages sha t j (Inl e)"
| stale: "stage_next sha t j = Inr (Stale, t', j') \<Longrightarrow> stages sha t j (Inr (False, t', j'))"
| ready: "stage_next sha t j = Inr (Ready, t', j') \<Longrightarrow> stages sha t j (Inr (True, t', j'))"
| staged: "stage_next sha t j = Inr (Staged, t', j') \<Longrightarrow> stages sha t' j' r \<Longrightarrow> stages sha t j r"

lemma stage_next_Inr:
  assumes "stage_next sha t j = Inr (r, t', j')" and "length (tk_ids t) = length (tk_output t)" and "tk_cursor t \<le> length (tk_output t)"
  obtains (stale) "r = Stale" "\<not> matches_head j t" "t' = t\<lparr>tk_staging := True\<rparr>" "j' = j"
    | (ready) "r = Ready" "matches_head j t" "t' = t\<lparr>tk_staging := True, tk_cursor := length (tk_output t)\<rparr>" "j' = j"
      "\<forall>n. tk_cursor t \<le> n \<and> n < length (tk_output t) \<longrightarrow> map_of (j_roots j) (fst (tk_output t ! n)) = Some (tk_ids t ! n)"
    | (staged) k batch where "r = Staged" "matches_head j t" "0 < k" "tk_cursor t + k \<le> length (tk_output t)"
      "batch = map stage_mutation (missing j (take k (drop (tk_cursor t) (tk_output t))))" "batch \<noteq> []" "fits (sum_list (map value_weight batch)) batch"
      "j_transact sha (j_sequence j) batch j = Inr j'"
      "t' = t\<lparr>tk_staging := True, tk_sequence := (if tk_head t = None then j_sequence j' else tk_sequence t), tk_cursor := tk_cursor t + k\<rparr>"
      "\<forall>n < k. j_contains j (fst (tk_output t ! (tk_cursor t + n))) \<longrightarrow> map_of (j_roots j) (fst (tk_output t ! (tk_cursor t + n))) = Some (tk_ids t ! (tk_cursor t + n))"
proof -
  let ?out = "drop (tk_cursor t) (tk_output t)" and ?ids = "drop (tk_cursor t) (tk_ids t)"
  have m: "matches_head j (t\<lparr>tk_staging := True\<rparr>) = matches_head j t" by (simp add: matches_head_def)
  show thesis
  proof (cases "matches_head j t")
    case False
    have "r = Stale" "t' = t\<lparr>tk_staging := True\<rparr>" "j' = j"
      using assms(1) False by (auto simp: stage_next_def Let_def m split: if_splits)
    from stale [OF this(1) False this(2,3)] show thesis .
  next
    case True
    then obtain pos batch where scan: "stage_scan j ?out ?ids (tk_cursor t) 0 [] = Inr (pos, batch)"
      and after: "(if batch \<noteq> [] then
         bindR (j_transact sha (j_sequence j) batch j) (\<lambda>j.
         Inr (Staged, t\<lparr>tk_staging := True, tk_sequence := (if tk_head t = None then j_sequence j else tk_sequence t), tk_cursor := pos\<rparr>, j))
       else Inr (Ready, t\<lparr>tk_staging := True, tk_cursor := pos\<rparr>, j)) = Inr (r, t', j')"
      using assms(1) by (auto simp: stage_next_def Let_def m split: if_splits)
    have no: "fits 0 []" by (simp add: fits_def)
    obtain k where k: "k \<le> length ?out" "pos = tk_cursor t + k" "batch = map stage_mutation (missing j (take k ?out))"
        "k = length ?out \<or> batch \<noteq> []" "fits (sum_list (map value_weight batch)) batch"
        "\<forall>n < k. j_contains j (fst (?out ! n)) \<longrightarrow> map_of (j_roots j) (fst (?out ! n)) = Some (?ids ! n)"
      using stage_scan_Inr [OF scan _ no, unfolded append_Nil] assms(2) by (metis length_drop)
    show thesis
    proof (cases "batch = []")
      case True
      then have kk: "k = length ?out" using k(4) by simp
      have "map_of (j_roots j) (fst (tk_output t ! n)) = Some (tk_ids t ! n)" if "tk_cursor t \<le> n" "n < length (tk_output t)" for n
      proof -
        have "?out ! (n - tk_cursor t) \<in> set ?out" using that assms(3) by (intro nth_mem) simp
        moreover have "missing j ?out = []" using True k(3) kk by simp
        ultimately have "j_contains j (fst (tk_output t ! n))" using that by (auto simp: filter_empty_conv)
        then show ?thesis using k(6) kk that assms(2,3) by (auto dest: spec [of _ "n - tk_cursor t"])
      qed
      moreover have "r = Ready" "t' = t\<lparr>tk_staging := True, tk_cursor := length (tk_output t)\<rparr>" "j' = j"
        using after True kk k(2) assms(3) by auto
      ultimately show thesis by (intro ready [OF _ \<open>matches_head j t\<close>]) blast+
    next
      case False
      then have "0 < k" using k(3) by (cases k) auto
      have "tk_cursor t + k \<le> length (tk_output t)" using k(1) assms(3) by simp
      moreover have "\<forall>n < k. j_contains j (fst (tk_output t ! (tk_cursor t + n))) \<longrightarrow>
          map_of (j_roots j) (fst (tk_output t ! (tk_cursor t + n))) = Some (tk_ids t ! (tk_cursor t + n))"
        using k(1,6) assms(2,3) by auto
      moreover have "r = Staged" "j_transact sha (j_sequence j) batch j = Inr j'"
          "t' = t\<lparr>tk_staging := True, tk_sequence := (if tk_head t = None then j_sequence j' else tk_sequence t), tk_cursor := tk_cursor t + k\<rparr>"
        using after False k(2) by auto
      ultimately show thesis by (intro staged [OF _ \<open>matches_head j t\<close> \<open>0 < k\<close> _ k(3) False k(5)]) blast+
    qed
  qed
qed

lemma stage_all_stages:
  assumes "length (tk_ids t) = length (tk_output t)" "tk_cursor t \<le> length (tk_output t)" "length (tk_output t) - tk_cursor t < fuel"
  shows "stages sha t j (stage_all fuel sha t j)"
  using assms
proof (induction fuel arbitrary: t j)
  case (Suc fuel)
  show ?case
  proof (cases "stage_next sha t j")
    case (Inl e)
    then show ?thesis by (simp add: stages.throws)
  next
    case (Inr x)
    obtain r t' j' where x: "x = (r, t', j')" by (cases x)
    from Inr [unfolded x] Suc.prems(1,2) show ?thesis
    proof (cases rule: stage_next_Inr)
      case stale
      then show ?thesis using Inr x stages.stale by simp
    next
      case ready
      then show ?thesis using Inr x stages.ready by simp
    next
      case (staged k batch)
      then have "stages sha t' j' (stage_all fuel sha t' j')" using Suc.prems by (intro Suc.IH) auto
      then show ?thesis using Inr x staged(1) stages.staged by simp
    qed
  qed
qed simp

end
