(* ===== verification/Compaction_Runs.thy ===== *)
theory Compaction_Runs
  imports Compaction_Laws
begin

text \<open>
  A compaction task among other writers: between its locked steps any operation may commit. The
  invariant of such a run ties the plan of the task to the version it was prepared from.
\<close>

section \<open>Journals a task works on\<close>

text \<open>The registry names an object by its own hash, and the object is there.\<close>

definition registered :: "journal \<Rightarrow> bool" where
  "registered j \<longleftrightarrow> (\<forall>i r. map_of (j_roots j) (object_registry i) = Some r \<longrightarrow> r = i \<and> map_of (j_objects j) i \<noteq> None)"

definition sound_journal :: "(bytes \<Rightarrow> oid) \<Rightarrow> bytes set \<Rightarrow> journal \<Rightarrow> bool" where
  "sound_journal sha B j \<longleftrightarrow> addressed sha B j \<and> registered j \<and> 0 \<notin> object_hash sha ` B"

lemma object_registry_inject [simp]: "object_registry i = object_registry k \<longleftrightarrow> i = k"
  by (simp add: object_registry_def hex_inject)

lemma object_registry_keys [simp]:
  "object_registry i \<noteq> world_key w" "world_key w \<noteq> object_registry i" "\<not> prefix forkfs_prefix (object_registry i)"
  "object_registry i \<noteq> []" "length (object_registry i) = 87"
  by (simp_all add: object_registry_def)

lemmas object_registry_world [simp] = object_registry_keys(1,2) [unfolded append.simps]

definition registry_of :: "(bytes \<Rightarrow> oid) \<Rightarrow> bytes \<Rightarrow> string \<times> bytes" where
  "registry_of sha b = (object_registry (object_hash sha b), b)"

lemma registry_of_simps [simp]: "fst (registry_of sha b) = object_registry (object_hash sha b)" "snd (registry_of sha b) = b"
  by (simp_all add: registry_of_def)

lemma effect_stage [simp]:
  "mutation_effect sha (stage_mutation x) = (fst x, Some (object_hash sha (snd x)))"
  by (simp add: mutation_effect_def)

lemma new_values_stage [simp]: "new_values (map stage_mutation xs) = snd ` set xs"
  by (induction xs) auto

text \<open>Committing objects of \<open>B\<close> under their registry names keeps the journal sound and touches no other name.\<close>

lemma registry_effects:
  "map_of (map (mutation_effect sha) (map stage_mutation (filter P (map (registry_of sha) bs)))) k =
     (if \<exists>b \<in> set bs. P (registry_of sha b) \<and> k = object_registry (object_hash sha b)
      then Some (Some (THE i. k = object_registry i)) else None)"
  by (induction bs) (auto split: if_splits)

lemma staging_commit:
  assumes run: "j_transact sha s (map stage_mutation (filter P (map (registry_of sha) bs))) j = Inr j'"
    and j: "sound_journal sha B j" and B: "set bs \<subseteq> B"
  shows "sound_journal sha B j'" and "j_sequence j' = j_sequence j + 1" and "j_leveldb j' = j_leveldb j"
    and "(\<And>i. k \<noteq> object_registry i) \<Longrightarrow> map_of (j_roots j') k = map_of (j_roots j) k"
    and "b \<in> set bs \<Longrightarrow> P (registry_of sha b) \<Longrightarrow> map_of (j_roots j') (object_registry (object_hash sha b)) = Some (object_hash sha b)"
    and "map_of (j_roots j) (object_registry i) = Some i \<Longrightarrow> map_of (j_roots j') (object_registry i) = Some i"
    and "map_of (j_objects j) i = Some c \<Longrightarrow> map_of (j_objects j') i = Some c"
proof -
  have a: "addressed sha B j" using j by (simp add: sound_journal_def)
  have new: "new_values (map stage_mutation (filter P (map (registry_of sha) bs))) \<subseteq> B" using B by auto
  note e = j_transact_effect [OF run a new]
  note roots = e(4) [unfolded registry_effects]
  show "j_sequence j' = j_sequence j + 1" "j_leveldb j' = j_leveldb j" using e(2,3) by simp_all
  show old: "map_of (j_objects j) i = Some c \<Longrightarrow> map_of (j_objects j') i = Some c" for i c using e(6) .
  show "(\<And>i. k \<noteq> object_registry i) \<Longrightarrow> map_of (j_roots j') k = map_of (j_roots j) k" by (auto simp: roots)
  show "b \<in> set bs \<Longrightarrow> P (registry_of sha b) \<Longrightarrow> map_of (j_roots j') (object_registry (object_hash sha b)) = Some (object_hash sha b)"
    by (auto simp: roots)
  show "map_of (j_roots j) (object_registry i) = Some i \<Longrightarrow> map_of (j_roots j') (object_registry i) = Some i"
    by (auto simp: roots)
  have "r = i \<and> map_of (j_objects j') i \<noteq> None" if "map_of (j_roots j') (object_registry i) = Some r" for i r
  proof (cases "\<exists>b \<in> set bs. P (registry_of sha b) \<and> object_registry i = object_registry (object_hash sha b)")
    case True
    then obtain b where b: "b \<in> set bs" "P (registry_of sha b)" "i = object_hash sha b" by auto
    then have "map_of (j_objects j') i = Some b" using e(5) [of b] by force
    then show ?thesis using that True by (simp add: roots)
  next
    case False
    then have "map_of (j_roots j) (object_registry i) = Some r" using that by (auto simp: roots split: if_splits)
    then show ?thesis using j old by (fastforce simp: sound_journal_def registered_def)
  qed
  then show "sound_journal sha B j'" using e(1) j by (auto simp: sound_journal_def registered_def)
qed

section \<open>Runs\<close>

text \<open>What other writers may have done in between: objects are only added, and every commit takes a new
  sequence number.\<close>

definition others :: "(bytes \<Rightarrow> oid) \<Rightarrow> bytes set \<Rightarrow> journal \<Rightarrow> journal \<Rightarrow> bool" where
  "others sha B j j' \<longleftrightarrow> sound_journal sha B j' \<and> j_leveldb j' = j_leveldb j \<and>
     (\<forall>i b. map_of (j_objects j) i = Some b \<longrightarrow> map_of (j_objects j') i = Some b) \<and>
     (j' = j \<or> unat (j_sequence j) < unat (j_sequence j'))"

definition plan_within :: "bytes set \<Rightarrow> task \<Rightarrow> bool" where
  "plan_within B t \<longleftrightarrow> vp_manifest (tk_plan t) \<in> B \<and> set (vp_objects (tk_plan t)) \<subseteq> B"

inductive compaction_run :: "(bytes \<Rightarrow> oid) \<Rightarrow> bytes set \<Rightarrow> string \<Rightarrow> task \<Rightarrow> journal \<Rightarrow> bool" for sha B world where
  start: "task_prepare sha j (new_task world) = Inr t0 \<Longrightarrow> task_build sha t0 = Inr t \<Longrightarrow> sound_journal sha B j \<Longrightarrow>
    plan_within B t \<Longrightarrow> compaction_run sha B world t j"
| between: "compaction_run sha B world t j \<Longrightarrow> others sha B j j' \<Longrightarrow> compaction_run sha B world t j'"
| stage: "compaction_run sha B world t j \<Longrightarrow> stage_next sha t j = Inr (r, t', j') \<Longrightarrow> compaction_run sha B world t' j'"

text \<open>The task holds the compaction of the version \<open>j0\<close> had.\<close>

definition task_for :: "(bytes \<Rightarrow> oid) \<Rightarrow> string \<Rightarrow> journal \<Rightarrow> task \<Rightarrow> bool" where
  "task_for sha world j0 t \<longleftrightarrow> tk_world t = world \<and> tk_head t = current_head j0 world \<and>
     tk_ids t = map (object_hash sha) (vp_objects (tk_plan t)) \<and> tk_output t = map (registry_of sha) (vp_objects (tk_plan t)) \<and>
     tk_output_head t = object_hash sha (vp_manifest (tk_plan t)) \<and> tk_cursor t \<le> length (tk_output t) \<and>
     (\<exists>v input. open_view j0 world False False = Inr v \<and> freeze sha j0 v = Inr input \<and> compact_frozen sha input = Inr (tk_plan t))"

definition run_invariant :: "(bytes \<Rightarrow> oid) \<Rightarrow> bytes set \<Rightarrow> string \<Rightarrow> journal \<Rightarrow> task \<Rightarrow> journal \<Rightarrow> bool" where
  "run_invariant sha B world j0 t j \<longleftrightarrow> sound_journal sha B j \<and> smap_ok (j_roots j0) \<and> task_for sha world j0 t \<and> plan_within B t \<and>
     (\<forall>i b. map_of (j_objects j0) i = Some b \<longrightarrow> map_of (j_objects j) i = Some b) \<and>
     (tk_head t = None \<longrightarrow> unat (tk_sequence t) \<le> unat (j_sequence j) \<and>
       (tk_sequence t = j_sequence j \<longrightarrow> (\<forall>k. prefix forkfs_prefix k \<longrightarrow> map_of (j_roots j) k = map_of (j_roots j0) k)))"

lemma prepared_task:
  assumes "task_prepare sha j (new_task world) = Inr t0" "task_build sha t0 = Inr t"
  shows "task_for sha world j t" and "tk_sequence t = j_sequence j" and "tk_built t" "\<not> tk_installed t" "tk_cursor t = 0" "\<not> tk_staging t"
  using assms by (auto simp: task_prepare_def task_build_def new_task_def task_for_def registry_of_def [abs_def] split: if_splits)

lemma task_for_stage:
  assumes "task_for sha world j0 t"
  shows "length (tk_ids t) = length (tk_output t)" and "tk_cursor t \<le> length (tk_output t)"
  using assms unfolding task_for_def by auto

lemma unat_succ:
  assumes "(w :: u64) \<noteq> - 1"
  shows "unat (w + 1) = unat w + 1"
proof -
  have "w < - 1" using assms word_order.not_eq_extremum by blast
  then have "unat w < 2 ^ 64 - 1" by (simp add: word_less_nat_alt unat_max_u64)
  then show ?thesis by (simp add: unat_word_ariths)
qed

lemma staged_step:
  assumes run: "stage_next sha t j = Inr (Staged, t', j')" and inv: "run_invariant sha B world j0 t j"
  shows "run_invariant sha B world j0 t' j'"
proof -
  have t: "task_for sha world j0 t" and B: "set (vp_objects (tk_plan t)) \<subseteq> B" and j: "sound_journal sha B j"
    using inv by (auto simp: run_invariant_def plan_within_def)
  from run task_for_stage [OF t] show ?thesis
  proof (cases rule: stage_next_Inr)
    case (staged k batch)
    let ?bs = "take k (drop (tk_cursor t) (vp_objects (tk_plan t)))"
    have batch: "batch = map stage_mutation (filter (\<lambda>x. \<not> j_contains j (fst x)) (map (registry_of sha) ?bs))"
      using staged(5) t by (simp add: task_for_def take_map drop_map)
    have sub: "set ?bs \<subseteq> B" using B by (meson in_set_takeD in_set_dropD subset_iff)
    note c = staging_commit [OF staged(8) [unfolded batch] j sub]
    have "j_sequence j \<noteq> - 1" using staged(8) by (auto simp: j_transact_def split: if_splits)
    then have seq: "unat (j_sequence j') = unat (j_sequence j) + 1" using c(2) unat_succ by simp
    have keep: "map_of (j_roots j') k = map_of (j_roots j) k" if "prefix forkfs_prefix k" for k
      by (rule c(4)) (use that in auto)
    have "tk_head t = None \<Longrightarrow> tk_sequence t = j_sequence j" using staged(2) by (simp add: matches_head_def)
    then have "tk_head t = None \<Longrightarrow> (\<forall>k. prefix forkfs_prefix k \<longrightarrow> map_of (j_roots j') k = map_of (j_roots j0) k)"
      using inv keep by (auto simp: run_invariant_def)
    then show ?thesis using inv c(1,7) t staged(4) seq by (auto simp: staged(9) run_invariant_def task_for_def plan_within_def)
  qed simp_all
qed

lemma run_invariant_holds:
  assumes "compaction_run sha B world t j"
  shows "\<exists>j0. run_invariant sha B world j0 t j"
  using assms
proof induction
  case (start j t0 t)
  then have "run_invariant sha B world j t j" using prepared_task [OF start(1,2)] by (auto simp: run_invariant_def sound_journal_def addressed_def)
  then show ?case by blast
next
  case (between t j j')
  then obtain j0 where inv: "run_invariant sha B world j0 t j" by blast
  then have "run_invariant sha B world j0 t j'"
    using between(2) by (auto simp: run_invariant_def others_def)
  then show ?case by blast
next
  case (stage t j r t' j')
  then obtain j0 where inv: "run_invariant sha B world j0 t j" by blast
  then have t: "task_for sha world j0 t" by (simp add: run_invariant_def)
  from stage(2) task_for_stage [OF t] have "run_invariant sha B world j0 t' j'"
  proof (cases rule: stage_next_Inr)
    case (staged k batch)
    then show ?thesis using staged_step inv stage(2) by blast
  qed (use inv in \<open>auto simp: run_invariant_def task_for_def plan_within_def\<close>)
  then show ?case by blast
qed

section \<open>The version at publication\<close>

lemma j_keys_filter:
  assumes "smap_ok (j_roots j)"
  shows "j_keys j p = map fst (filter (\<lambda>x. prefix p (fst x)) (j_roots j))"
proof -
  let ?m = "dropWhile (\<lambda>x. fst x < p) (j_roots j)"
  have split: "takeWhile (\<lambda>x. fst x < p) (j_roots j) @ ?m = j_roots j" by simp
  then have ok: "smap_ok ?m" using assms by (metis smap_ok_append)
  have "p \<le> fst x" if "x \<in> set ?m" for x
  proof (cases ?m)
    case Nil
    then show ?thesis using that by (metis empty_iff empty_set)
  next
    case (Cons y ys)
    then have "p \<le> fst y" using hd_dropWhile [of "\<lambda>x. fst x < p" "j_roots j"] by simp
    then show ?thesis using ok that Cons by auto
  qed
  then have "takeWhile (\<lambda>x. prefix p (fst x)) ?m = filter (\<lambda>x. prefix p (fst x)) ?m"
    using takeWhile_prefix [OF ok] by blast
  also have "\<dots> = filter (\<lambda>x. prefix p (fst x)) (takeWhile (\<lambda>x. fst x < p) (j_roots j) @ ?m)"
    unfolding filter_append by (auto simp: filter_empty_conv dest!: set_takeWhileD dest: prefix_le)
  finally show ?thesis unfolding j_keys_def split by (simp add: dropWhile_map takeWhile_map comp_def)
qed

lemma map_of_prefixed: "map_of (filter (\<lambda>x. P (fst x)) m) k = (if P k then map_of m k else None)"
  by (induction m) auto

lemma legacy_references:
  assumes "smap_ok (j_roots j)" "smap_ok (j_roots j0)"
    and same: "\<And>k. prefix forkfs_prefix k \<Longrightarrow> map_of (j_roots j) k = map_of (j_roots j0) k"
  shows "view_references sha j Legacy = view_references sha j0 Legacy"
proof -
  have "filter (\<lambda>x. prefix forkfs_prefix (fst x)) (j_roots j) = filter (\<lambda>x. prefix forkfs_prefix (fst x)) (j_roots j0)"
    by (rule smap_ok_unique) (use assms in \<open>auto simp: smap_ok_filter fun_eq_iff map_of_prefixed\<close>)
  then have keys: "j_keys j forkfs_prefix = j_keys j0 forkfs_prefix" using assms(1,2) by (simp add: j_keys_filter)
  have "j_root_object j k = j_root_object j0 k" if "k \<in> set (j_keys j0 forkfs_prefix)" for k
    using that same [of k] assms(2) by (auto simp: j_keys_filter j_root_object_def)
  then show ?thesis unfolding view_references_def keys by (auto intro!: foldR_cong)
qed

lemma same_version:
  assumes inv: "run_invariant sha B world j0 t j" and head: "matches_head j t"
    and v: "open_view j0 world False False = Inr v" and input: "freeze sha j0 v = Inr input"
  shows "open_view j world False False = Inr v" and "freeze sha j v = Inr input"
proof -
  have objects: "j_get_object j i = Inr b" if "j_get_object j0 i = Inr b" for i b
    using inv that by (auto simp: run_invariant_def j_get_object_def split: option.splits)
  have same: "map_of (j_roots j) (world_key world) = map_of (j_roots j0) (world_key world)" "tk_head t = current_head j0 world"
    using inv head by (auto simp: run_invariant_def task_for_def matches_head_def current_head_def)
  have load: "load_view j i False = Inr v" if "load_view j0 i False = Inr v" for i
    using that objects by (auto simp: load_view_def)
  show "open_view j world False False = Inr v"
    using v same(1) load by (auto simp: open_view_def j_contains_def j_root_object_def split: if_splits option.splits)
  show "freeze sha j v = Inr input"
  proof (cases v)
    case Legacy
    have "\<not> j_contains j0 (world_key ''main'') \<and> world = ''main''"
      using v Legacy by (auto simp: open_view_def load_view_def parse_manifest_def Let_def split: if_splits)
    then have "tk_head t = None" using same(2) by (simp add: current_head_def j_contains_def)
    then have "\<And>k. prefix forkfs_prefix k \<Longrightarrow> map_of (j_roots j) k = map_of (j_roots j0) k"
      using inv head by (auto simp: run_invariant_def matches_head_def)
    then have "view_references sha j Legacy = view_references sha j0 Legacy"
      using inv by (intro legacy_references) (auto simp: run_invariant_def sound_journal_def addressed_def)
    then show ?thesis using input Legacy by (simp add: freeze_def)
  next
    case (Runs runs)
    then show ?thesis using input objects by (auto simp: freeze_def mapR_Inr_iff elim!: list_all2_mono)
  qed (use input in \<open>simp add: freeze_def\<close>)
qed

section \<open>Publication\<close>

lemma publish_batch_Inr:
  assumes "publish_batch j t = Inr batch" and len: "length (tk_ids t) = length (tk_output t)"
  shows "batch = map stage_mutation (missing j (tk_output t))"
    and "\<forall>(x, i) \<in> set (zip (tk_output t) (tk_ids t)). j_contains j (fst x) \<longrightarrow> map_of (j_roots j) (fst x) = Some i"
proof -
  let ?zs = "zip (tk_output t) (tk_ids t)"
  let ?f = "\<lambda>((key, payload), i) batch.
          if j_contains j key then
            bindR (j_root_object j key) (\<lambda>r.
            need (r = i) ''compaction object identity mismatch'' (
            bindR (j_get j key) (\<lambda>b.
            need (b = payload) ''compaction object content mismatch'' (Inr batch))))
          else Inr (batch @ [value_mutation key (Some payload)])"
  let ?g = "\<lambda>((key, payload :: bytes), i) (batch :: mutation list).
          need (j_contains j key) ''compaction output missing before publication'' (
          bindR (j_root_object j key) (\<lambda>r.
          need (r = i) ''compaction output missing before publication'' (Inr batch)))"
  let ?ok = "\<lambda>xs. \<forall>(x, i) \<in> set xs. j_contains j (fst x) \<longrightarrow> map_of (j_roots j) (fst x) = Some i"
  have step: "?f x b0 = Inr b1 \<Longrightarrow> b1 = b0 @ map stage_mutation (missing j [fst x]) \<and> ?ok [x]"
      "?g x b0 = Inr b1 \<Longrightarrow> b1 = b0 \<and> j_contains j (fst (fst x)) \<and> ?ok [x]" for x b0 b1
    by (cases x; cases "fst x"; auto simp: j_root_object_def stage_mutation_def split: if_splits option.splits)+
  have f: "foldR ?f xs b0 = Inr b1 \<Longrightarrow> b1 = b0 @ map stage_mutation (missing j (map fst xs)) \<and> ?ok xs" for xs b0 b1
  proof (induction xs arbitrary: b0)
    case (Cons x xs)
    then obtain u where u: "?f x b0 = Inr u" "foldR ?f xs u = Inr b1" by auto
    from step(1) [OF u(1)] Cons.IH [OF u(2)] show ?case by auto
  qed simp
  have g: "foldR ?g xs b0 = Inr b1 \<Longrightarrow> b1 = b0 \<and> missing j (map fst xs) = [] \<and> ?ok xs" for xs b0 b1
  proof (induction xs arbitrary: b0)
    case (Cons x xs)
    then obtain u where u: "?g x b0 = Inr u" "foldR ?g xs u = Inr b1" by auto
    from step(2) [OF u(1)] Cons.IH [OF u(2)] show ?case by (auto split: if_splits)
  qed simp
  have "batch = map stage_mutation (missing j (map fst ?zs)) \<and> ?ok ?zs"
  proof (cases "tk_staging t")
    case True
    then have "foldR ?g ?zs [] = Inr batch" using assms(1) by (simp only: publish_batch_def if_False not_True_eq_False simp_thms)
    from g [OF this] show ?thesis by simp
  next
    case False
    then have "foldR ?f ?zs [] = Inr batch" using assms(1) by (simp only: publish_batch_def if_True simp_thms)
    from f [OF this] show ?thesis by simp
  qed
  then show "batch = map stage_mutation (missing j (tk_output t))" "?ok ?zs" using len by simp_all
qed

end
