(* ===== verification/Compaction_Props.thy ===== *)
theory Compaction_Props
  imports Compaction_Runs
begin

text \<open>
  The properties of compaction: staging ends, publication among other writers never changes what a world
  holds, and without other writers a compaction that can be planned is published.
\<close>

section \<open>Publication\<close>

lemma references_ok:
  assumes "view_references sha j v = Inr refs" and "\<forall>root. v \<noteq> Tree root"
  shows "smap_ok refs"
proof (cases v)
  case Legacy
  have "foldR (\<lambda>key result. bindR (j_root_object j key) (\<lambda>i. Inr (put key i result))) (j_keys j forkfs_prefix) [] = Inr refs"
    using assms(1) by (simp add: Legacy view_references_def)
  then show ?thesis by (rule foldR_invariant [where P = smap_ok]) (auto split: sum.splits)
next
  case (Runs runs)
  then obtain ds where "refs = stack_map ds" using references_runs assms(1) by blast
  then show ?thesis by simp
qed (use assms(2) in blast)

lemma compact_frozen_not_tree:
  "freeze sha j v = Inr input \<Longrightarrow> compact_frozen sha input = Inr p \<Longrightarrow> \<forall>root. v \<noteq> Tree root"
  by (auto simp: freeze_def compact_frozen_def image_plan_def)

lemma task_plan:
  assumes inv: "run_invariant sha B world j0 t j" and head: "matches_head j t"
  obtains v where "open_view j world False False = Inr v" "\<forall>root. v \<noteq> Tree root"
    "\<And>refs. view_references sha j v = Inr refs \<Longrightarrow> smap_ok refs \<and> image_plan sha refs = Inr (tk_plan t)"
proof -
  obtain v input where v: "open_view j0 world False False = Inr v" "freeze sha j0 v = Inr input" "compact_frozen sha input = Inr (tk_plan t)"
    using inv by (auto simp: run_invariant_def task_for_def)
  note same = same_version [OF inv head v(1,2)]
  note tree = compact_frozen_not_tree [OF v(2,3)]
  show thesis
    by (rule that [OF same(1) tree]) (use compact_frozen_plan [OF _ same(2)] references_ok tree v(3) in auto)
qed

text \<open>An output that is already registered is stored with its own bytes.\<close>

lemma registered_content:
  assumes "sound_journal sha B j" "b \<in> B" "j_contains j (object_registry (object_hash sha b))"
  shows "map_of (j_roots j) (object_registry (object_hash sha b)) = Some (object_hash sha b)"
    and "map_of (j_objects j) (object_hash sha b) = Some b"
proof -
  obtain r where r: "map_of (j_roots j) (object_registry (object_hash sha b)) = Some r" using assms(3) by (auto simp: j_contains_def)
  then show "map_of (j_roots j) (object_registry (object_hash sha b)) = Some (object_hash sha b)"
    using assms(1) unfolding sound_journal_def registered_def by blast
  from r obtain c where c: "map_of (j_objects j) (object_hash sha b) = Some c"
    using assms(1) unfolding sound_journal_def registered_def by blast
  then have "c = b" using assms(1,2) by (auto simp: sound_journal_def addressed_def inj_on_def)
  with c show "map_of (j_objects j) (object_hash sha b) = Some b" by simp
qed

lemma publish_commit:
  assumes t: "task_for sha world j0 t" and j: "sound_journal sha B j" and B: "plan_within B t"
    and batch: "publish_batch j t = Inr batch"
    and run: "j_transact sha (j_sequence j) (batch @ [value_mutation (world_key world) (Some (vp_manifest (tk_plan t)))]) j = Inr j'"
  shows "map_of (j_roots j') k = (if k = world_key world then Some (tk_output_head t)
      else if \<exists>b \<in> set (vp_objects (tk_plan t)). \<not> j_contains j k \<and> k = object_registry (object_hash sha b) then Some (THE i. k = object_registry i)
      else map_of (j_roots j) k)"
    and "addressed sha B j'" and "published sha j (tk_plan t) j'"
proof -
  let ?objects = "vp_objects (tk_plan t)" and ?manifest = "vp_manifest (tk_plan t)" and ?P = "\<lambda>x. \<not> j_contains j (fst x)"
  have b: "batch = map stage_mutation (filter ?P (map (registry_of sha) ?objects))"
    using publish_batch_Inr(1) [OF batch task_for_stage(1) [OF t]] t by (simp add: task_for_def)
  have a: "addressed sha B j" using j by (simp add: sound_journal_def)
  have new: "new_values (batch @ [value_mutation (world_key world) (Some ?manifest)]) \<subseteq> B" using B by (auto simp: b plan_within_def)
  note e = j_transact_effect [OF run a new]
  show "map_of (j_roots j') k = (if k = world_key world then Some (tk_output_head t)
      else if \<exists>b \<in> set ?objects. \<not> j_contains j k \<and> k = object_registry (object_hash sha b) then Some (THE i. k = object_registry i)
      else map_of (j_roots j) k)"
    using e(4) [of k] t unfolding b map_append registry_effects map_of_append map_add_def
    by (auto simp: mutation_effect_def task_for_def split: if_splits)
  show "addressed sha B j'" using e(1) .
  have "map_of (j_objects j') (object_hash sha b) = Some b" if c: "b \<in> set ?objects" for b
  proof (cases "?P (registry_of sha b)")
    case True
    then show ?thesis using e(5) [of b] c by (force simp: b)
  next
    case False
    then show ?thesis using registered_content(2) [OF j] c B e(6) by (auto simp: plan_within_def)
  qed
  then show "published sha j (tk_plan t) j'"
    using e(5) [of ?manifest] e(6) unfolding published_def publishes_def by (auto simp: j_get_object_def split: option.splits)
qed

lemma publication:
  assumes inv: "run_invariant sha B world j0 t j" and run: "task_publish sha t j = Inr (True, t', j')"
  shows "matches_head j t" and "current_head j' world = Some (tk_output_head t)"
    and "j' = j \<or> sound_journal sha B j' \<and> published sha j (tk_plan t) j'"
    and "k \<noteq> world_key world \<Longrightarrow> \<forall>i. k \<noteq> object_registry i \<Longrightarrow> map_of (j_roots j') k = map_of (j_roots j) k"
proof -
  show head: "matches_head j t" using run by (auto simp: task_publish_def split: if_splits)
  have t: "task_for sha world j0 t" and j: "sound_journal sha B j" and B: "plan_within B t"
    using inv by (auto simp: run_invariant_def)
  consider (same) "tk_head t = Some (tk_output_head t)" "j' = j"
    | (commit) batch where "publish_batch j t = Inr batch"
      "j_transact sha (j_sequence j) (batch @ [value_mutation (world_key world) (Some (vp_manifest (tk_plan t)))]) j = Inr j'"
    using run head t by (auto simp: task_publish_def task_for_def split: if_splits)
  then have "current_head j' world = Some (tk_output_head t) \<and> (j' = j \<or> sound_journal sha B j' \<and> published sha j (tk_plan t) j') \<and>
    (\<forall>k. k \<noteq> world_key world \<longrightarrow> (\<forall>i. k \<noteq> object_registry i) \<longrightarrow> map_of (j_roots j') k = map_of (j_roots j) k)"
  proof cases
    case same
    then show ?thesis using head t by (simp add: matches_head_def task_for_def)
  next
    case (commit batch)
    note c = publish_commit [OF t j B commit]
    have "r = i \<and> map_of (j_objects j') i \<noteq> None" if r: "map_of (j_roots j') (object_registry i) = Some r" for i r
    proof (cases "map_of (j_roots j) (object_registry i)")
      case None
      then obtain b where b: "b \<in> set (vp_objects (tk_plan t))" "i = object_hash sha b" using r c(1) by (auto split: if_splits)
      then show ?thesis using r c(1) None published_object [OF c(3) b(1)]
        by (auto simp: j_contains_def j_get_object_def split: option.splits if_splits)
    next
      case (Some q)
      then have "q = r" using r c(1) by (auto simp: j_contains_def split: if_splits)
      moreover have "q = i" "map_of (j_objects j) i \<noteq> None" using Some j unfolding sound_journal_def registered_def by blast+
      ultimately show ?thesis using published_old [OF c(3), of i] by (auto simp: j_get_object_def split: option.splits)
    qed
    then have "sound_journal sha B j'" using c(2) j by (auto simp: sound_journal_def registered_def)
    then show ?thesis using c by (auto simp: current_head_def)
  qed
  then show "current_head j' world = Some (tk_output_head t)" "j' = j \<or> sound_journal sha B j' \<and> published sha j (tk_plan t) j'"
    "k \<noteq> world_key world \<Longrightarrow> \<forall>i. k \<noteq> object_registry i \<Longrightarrow> map_of (j_roots j') k = map_of (j_roots j) k" by blast+
qed

lemma publication_keeps_contents:
  assumes inv: "run_invariant sha B world j0 t j" and run: "task_publish sha t j = Inr (True, t', j')"
    and v: "open_view j world False False = Inr v" and refs: "view_references sha j v = Inr refs" "list_all entry_ok refs"
  shows "\<exists>v'. open_view j' world False False = Inr v' \<and> view_references sha j' v' = Inr refs"
proof -
  note p = publication [OF inv run]
  from p(3) show ?thesis
  proof
    assume "sound_journal sha B j' \<and> published sha j (tk_plan t) j'"
    then have pub: "published sha j (tk_plan t) j'" by blast
    obtain v1 where v1: "open_view j world False False = Inr v1" "\<And>refs. view_references sha j v1 = Inr refs \<Longrightarrow> smap_ok refs \<and> image_plan sha refs = Inr (tk_plan t)"
      using task_plan [OF inv p(1)] by metis
    with v refs(1) have plan: "smap_ok refs" "image_plan sha refs = Inr (tk_plan t)" by auto
    have "0 \<notin> object_hash sha ` set (vp_objects (tk_plan t))"
      using inv by (auto simp: run_invariant_def sound_journal_def plan_within_def)
    from image_plan_reads_back [OF plan(2) pub plan(1) refs(2) this]
    obtain v' where "load_view j' (object_hash sha (vp_manifest (tk_plan t))) False = Inr v'" "view_references sha j' v' = Inr refs"
      by (auto simp: reads_back_def)
    moreover have "tk_output_head t = object_hash sha (vp_manifest (tk_plan t))" using inv by (simp add: run_invariant_def task_for_def)
    moreover have "valid_name world = Inr ()" using v by (auto simp: open_view_def)
    ultimately show ?thesis using p(2) by (auto simp: open_view_def current_head_def j_contains_def j_root_object_def)
  qed (use v refs in blast)
qed

section \<open>Progress\<close>

text \<open>The bounds of a plan: at most 32 distinct runs of at most 256 KiB.\<close>

definition plan_bounded :: "vplan \<Rightarrow> bool" where
  "plan_bounded p \<longleftrightarrow> distinct (vp_objects p) \<and> list_all (\<lambda>b. length b \<le> 256 * 1024) (vp_objects p) \<and>
     length (vp_objects p) \<le> 32 \<and> length (vp_manifest p) \<le> 1036"

lemma flush_sizes:
  "flush sha p = Inr q \<Longrightarrow> list_all (\<lambda>b. length b \<le> 256 * 1024) (pt_objects p) \<Longrightarrow> list_all (\<lambda>b. length b \<le> 256 * 1024) (pt_objects q)"
  using encode_run_bytes by (fastforce simp: flush_def split: if_splits)

lemma add_part_sizes:
  "add_part sha x p = Inr q \<Longrightarrow> list_all (\<lambda>b. length b \<le> 256 * 1024) (pt_objects p) \<Longrightarrow> list_all (\<lambda>b. length b \<le> 256 * 1024) (pt_objects q)"
  using flush_sizes by (cases x) (fastforce simp: add_part_def split: if_splits)

lemma length_concat_oids: "length (concat (map oid_bytes is)) = 32 * length is"
  by (induction "is") simp_all

lemma image_plan_bounded:
  assumes "image_plan sha refs = Inr p" "smap_ok refs" "list_all entry_ok refs"
  shows "plan_bounded p"
proof -
  obtain q where q: "partition_runs sha refs = Inr q" "encode_manifest (pt_runs q) = Inr (vp_manifest p)" "vp_objects p = pt_objects q"
    using assms(1) by (auto simp: image_plan_def finish_plan_iff split: if_splits)
  obtain ms where ms: "pt_runs q = map (object_hash sha) (pt_objects q)" "concat ms = refs"
      "list_all2 (\<lambda>b c. decode_run b = Inr (puts c) \<and> c \<noteq> []) (pt_objects q) ms"
    using partition_correct [OF q(1) assms(2,3)] by blast
  have "distinct (pt_objects q)" using parts_distinct [OF ms(3)] ms(2) assms(2) by simp
  moreover
  have m: "length (pt_runs q) \<le> 32" "vp_manifest p = ''FFMAN002'' @ le_store 4 (length (pt_runs q)) @ concat (map oid_bytes (pt_runs q))"
    using q(2) by (simp_all add: encode_manifest_def split: if_splits)
  have "length (pt_objects q) \<le> 32" "length (vp_manifest p) \<le> 1036"
    using m(1) ms(1) length_concat_oids [of "pt_runs q"] unfolding m(2) by simp_all
  moreover
  obtain r where r: "foldR (add_part sha) refs \<lparr>pt_runs = [], pt_objects = [], pt_part = [], pt_bytes = 12\<rparr> = Inr r" "flush sha r = Inr q"
    using q(1) by (auto simp: partition_runs_def)
  have "list_all (\<lambda>b. length b \<le> 256 * 1024) (pt_objects r)"
    by (rule foldR_invariant [where P = "\<lambda>p. list_all (\<lambda>b. length b \<le> 256 * 1024) (pt_objects p)", OF r(1)])
       (use add_part_sizes in auto)
  then have "list_all (\<lambda>b. length b \<le> 256 * 1024) (pt_objects q)" using flush_sizes r(2) by blast
  ultimately show ?thesis by (simp add: plan_bounded_def q(3))
qed

definition progressing :: "(bytes \<Rightarrow> oid) \<Rightarrow> bytes set \<Rightarrow> string \<Rightarrow> journal \<Rightarrow> task \<Rightarrow> journal \<Rightarrow> bool" where
  "progressing sha B world j0 t j \<longleftrightarrow> run_invariant sha B world j0 t j \<and> matches_head j t \<and> \<not> j_leveldb j \<and> tk_built t \<and>
     \<not> tk_installed t \<and> plan_bounded (tk_plan t) \<and>
     (\<forall>n < tk_cursor t. map_of (j_roots j) (fst (tk_output t ! n)) = Some (tk_ids t ! n)) \<and>
     unat (j_sequence j) + (length (tk_output t) - tk_cursor t) + 1 < 2 ^ 64"

lemma progressing_sequence: "progressing sha B world j0 t j \<Longrightarrow> j_sequence j \<noteq> - 1"
  using unat_max_u64 by (fastforce simp: progressing_def)

text \<open>A batch of missing outputs, and possibly the manifest after it, commits.\<close>

lemma missing_plain:
  assumes "list_all (\<lambda>b. length b \<le> 256 * 1024) bs" "distinct bs" "set bs \<subseteq> B" "inj_on (object_hash sha) B"
  shows "list_all plain_value (map stage_mutation (filter P (map (registry_of sha) bs)))"
    and "distinct (map m_key (map stage_mutation (filter P (map (registry_of sha) bs))))"
proof -
  show "list_all plain_value (map stage_mutation (filter P (map (registry_of sha) bs)))"
    using assms(1) by (auto simp: list_all_iff plain_value_def registry_of_def)
  have "distinct (map fst (map (registry_of sha) bs))"
    using assms(2) inj_on_subset [OF assms(4,3)] by (auto simp: distinct_map comp_def inj_on_def)
  then show "distinct (map m_key (map stage_mutation (filter P (map (registry_of sha) bs))))"
    by (simp add: comp_def distinct_map_filter)
qed

lemma stage_next_returns:
  assumes p: "progressing sha B world j0 t j"
  shows "is_ok (stage_next sha t j)"
proof -
  let ?bs = "drop (tk_cursor t) (vp_objects (tk_plan t))"
  have t: "task_for sha world j0 t" and j: "sound_journal sha B j"
    and B: "set (vp_objects (tk_plan t)) \<subseteq> B" and sizes: "plan_bounded (tk_plan t)" and head: "matches_head j (t\<lparr>tk_staging := True\<rparr>)"
    using p by (auto simp: progressing_def run_invariant_def plan_within_def matches_head_def)
  have out: "drop (tk_cursor t) (tk_output t) = map (registry_of sha) ?bs" "drop (tk_cursor t) (tk_ids t) = map (object_hash sha) ?bs"
    using t by (simp_all add: task_for_def drop_map)
  have bs: "set ?bs \<subseteq> B" using B by (meson in_set_dropD subset_iff)
  have "list_all2 (\<lambda>(key, b) i. j_contains j key \<longrightarrow> map_of (j_roots j) key = Some i \<and> map_of (j_objects j) i = Some b)
      (map (registry_of sha) ?bs) (map (object_hash sha) ?bs)"
    unfolding list_all2_map1 list_all2_map2
    by (rule list.rel_refl_strong) (use registered_content [OF j] bs in \<open>auto simp: registry_of_def\<close>)
  moreover have small: "list_all (\<lambda>b. length b \<le> 256 * 1024) ?bs" "distinct ?bs"
    using sizes by (auto simp: plan_bounded_def list_all_iff dest: in_set_dropD)
  ultimately obtain pos batch where scan: "stage_scan j (map (registry_of sha) ?bs) (map (object_hash sha) ?bs) (tk_cursor t) 0 [] = Inr (pos, batch)"
    using stage_scan_returns [of "map (object_hash sha) ?bs" "map (registry_of sha) ?bs" j "tk_cursor t" 0 "[]"]
    by (auto simp: is_ok_iff list_all_iff)
  have "fits 0 []" by (simp add: fits_def)
  from stage_scan_Inr [OF scan _ this, unfolded append_Nil take_map] obtain k where
    k: "batch = map stage_mutation (missing j (map (registry_of sha) (take k ?bs)))" "fits (sum_list (map value_weight batch)) batch"
    unfolding length_map by blast
  have sub: "list_all (\<lambda>b. length b \<le> 256 * 1024) (take k ?bs)" "distinct (take k ?bs)" "set (take k ?bs) \<subseteq> B"
    using small bs by (auto simp: list_all_iff dest: in_set_takeD)
  have "inj_on (object_hash sha) B" using j by (simp add: sound_journal_def addressed_def)
  note plain = missing_plain [OF sub this]
  have "batch \<noteq> [] \<Longrightarrow> \<exists>j'. j_transact sha (j_sequence j) batch j = Inr j'"
    using value_batch_commits [of j batch sha] p progressing_sequence [OF p] k(2) plain unfolding k(1) fits_def progressing_def by fastforce
  then show ?thesis using p scan head by (auto simp: stage_next_def Let_def progressing_def out is_ok_iff)
qed

lemma staged_progress:
  assumes p: "progressing sha B world j0 t j" and run: "stage_next sha t j = Inr (Staged, t', j')"
  shows "progressing sha B world j0 t' j'"
proof -
  have inv: "run_invariant sha B world j0 t j" and t: "task_for sha world j0 t" and j: "sound_journal sha B j"
    and B: "set (vp_objects (tk_plan t)) \<subseteq> B"
    using p by (auto simp: progressing_def run_invariant_def plan_within_def)
  from run task_for_stage [OF t] show ?thesis
  proof (cases rule: stage_next_Inr)
    case (staged k batch)
    let ?bs = "take k (drop (tk_cursor t) (vp_objects (tk_plan t)))" and ?P = "\<lambda>x. \<not> j_contains j (fst x)"
    have batch: "batch = map stage_mutation (filter ?P (map (registry_of sha) ?bs))"
      using staged(5) t by (simp add: task_for_def take_map drop_map)
    have sub: "set ?bs \<subseteq> B" using B by (meson in_set_takeD in_set_dropD subset_iff)
    note c = staging_commit [OF staged(8) [unfolded batch] j sub]
    have seq: "unat (j_sequence j') = unat (j_sequence j) + 1" using c(2) unat_succ [OF progressing_sequence [OF p]] by simp
    have "current_head j' world = current_head j world" unfolding current_head_def by (rule c(4)) simp
    then have head: "matches_head j' t'" using staged(2) t by (auto simp: staged(9) matches_head_def task_for_def)
    have "map_of (j_roots j') (fst (tk_output t ! n)) = Some (tk_ids t ! n)" if "n < tk_cursor t + k" for n
    proof -
      let ?b = "vp_objects (tk_plan t) ! n"
      have n: "n < length (vp_objects (tk_plan t))" using that staged(4) t by (simp add: task_for_def)
      have o: "fst (tk_output t ! n) = object_registry (object_hash sha ?b)" "tk_ids t ! n = object_hash sha ?b"
        using t n by (simp_all add: task_for_def)
      have "j_contains j (object_registry (object_hash sha ?b)) \<Longrightarrow>
          map_of (j_roots j) (object_registry (object_hash sha ?b)) = Some (object_hash sha ?b)"
        using registered_content(1) [OF j] B n nth_mem by blast
      moreover have "?b \<in> set ?bs" if "\<not> n < tk_cursor t"
      proof -
        have "?bs ! (n - tk_cursor t) \<in> set ?bs" using that \<open>n < tk_cursor t + k\<close> n by (intro nth_mem) auto
        then show ?thesis using that \<open>n < tk_cursor t + k\<close> n by simp
      qed
      moreover have "n < tk_cursor t \<Longrightarrow> j_contains j (object_registry (object_hash sha ?b))"
        using p o by (auto simp: progressing_def j_contains_def)
      ultimately show ?thesis using c(5) [of ?b] c(6) [of "object_hash sha ?b"] o by (cases "n < tk_cursor t") auto
    qed
    moreover have "unat (j_sequence j') + (length (tk_output t) - (tk_cursor t + k)) + 1 < 2 ^ 64"
      using p seq staged(3,4) unfolding progressing_def by linarith
    ultimately show ?thesis
      using p staged_step [OF run inv] head c(3) unfolding progressing_def by (simp add: staged(9))
  qed simp_all
qed

lemma stage_all_progress:
  assumes "progressing sha B world j0 t j" "length (tk_output t) - tk_cursor t < fuel"
  shows "\<exists>t' j'. stage_all fuel sha t j = Inr (True, t', j') \<and> progressing sha B world j0 t' j' \<and> tk_staging t' \<and>
    tk_cursor t' = length (tk_output t')"
  using assms
proof (induction fuel arbitrary: t j)
  case (Suc fuel)
  obtain r t' j' where run: "stage_next sha t j = Inr (r, t', j')"
    using stage_next_returns [OF Suc.prems(1)] by (metis is_ok_iff prod_cases3)
  have t: "task_for sha world j0 t" and head: "matches_head j t" using Suc.prems(1) by (auto simp: progressing_def run_invariant_def)
  from run task_for_stage [OF t] show ?case
  proof (cases rule: stage_next_Inr)
    case ready
    have "run_invariant sha B world j0 t' j" using Suc.prems(1)
      by (auto simp: ready(3) progressing_def run_invariant_def task_for_def plan_within_def)
    moreover have "\<forall>n < length (tk_output t). map_of (j_roots j) (fst (tk_output t ! n)) = Some (tk_ids t ! n)"
      using Suc.prems(1) ready(5) unfolding progressing_def by (metis not_le)
    moreover have "unat (j_sequence j) + 1 < 2 ^ 64" using Suc.prems(1) unfolding progressing_def by linarith
    ultimately have "progressing sha B world j0 t' j"
      using Suc.prems(1) unfolding progressing_def by (simp add: ready(3) matches_head_def)
    then show ?thesis using run ready by simp
  next
    case (staged k batch)
    have "progressing sha B world j0 t' j'" using staged_progress [OF Suc.prems(1)] run staged(1) by simp
    moreover have "length (tk_output t') - tk_cursor t' < fuel" using Suc.prems(2) staged(3,4) by (simp add: staged(9))
    ultimately show ?thesis using Suc.IH run staged(1) by simp
  qed (use head in simp)
qed simp

lemma foldR_returns: "(\<And>x s. x \<in> set xs \<Longrightarrow> is_ok (f x s)) \<Longrightarrow> is_ok (foldR f xs s)"
  by (induction xs arbitrary: s) (auto simp: is_ok_iff, metis Inr_inject)

lemma publish_batch_returns:
  assumes p: "progressing sha B world j0 t j" and ready: "tk_staging t \<Longrightarrow> tk_cursor t = length (tk_output t)"
  shows "is_ok (publish_batch j t)"
proof -
  have t: "task_for sha world j0 t" and j: "sound_journal sha B j" and B: "set (vp_objects (tk_plan t)) \<subseteq> B"
    using p by (auto simp: progressing_def run_invariant_def plan_within_def)
  have zs: "\<exists>b \<in> set (vp_objects (tk_plan t)). x = ((object_registry (object_hash sha b), b), object_hash sha b)"
    if "x \<in> set (zip (tk_output t) (tk_ids t))" for x
    using that t by (auto simp: task_for_def registry_of_def zip_map_map set_zip in_set_conv_nth)
  have staged: "j_contains j (object_registry (object_hash sha b))" if on: "tk_staging t" and b: "b \<in> set (vp_objects (tk_plan t))" for b
  proof -
    obtain n where "n < length (vp_objects (tk_plan t))" "vp_objects (tk_plan t) ! n = b" using b by (auto simp: in_set_conv_nth)
    then show ?thesis using p ready on t by (force simp: progressing_def task_for_def j_contains_def)
  qed
  show ?thesis
  proof (cases "tk_staging t")
    case True
    show ?thesis unfolding publish_batch_def using True
      by (simp, intro foldR_returns) (use zs staged registered_content [OF j] B in \<open>fastforce simp: j_root_object_def\<close>)
  next
    case False
    show ?thesis unfolding publish_batch_def using False
      by (simp, intro foldR_returns) (use zs registered_content [OF j] B in \<open>fastforce simp: j_root_object_def j_get_def j_get_object_def\<close>)
  qed
qed

lemma publish_progress:
  assumes p: "progressing sha B world j0 t j" and ready: "tk_staging t \<Longrightarrow> tk_cursor t = length (tk_output t)"
    and small: "\<not> tk_staging t \<Longrightarrow> sum_list (map (length \<circ> snd) (tk_output t)) \<le> 256 * 1024"
  shows "\<exists>t' j'. task_publish sha t j = Inr (True, t', j')"
proof -
  have t: "task_for sha world j0 t" and j: "sound_journal sha B j" and B: "set (vp_objects (tk_plan t)) \<subseteq> B"
    and sizes: "plan_bounded (tk_plan t)" and head: "matches_head j t" and name: "valid_name world = Inr ()"
    using p by (auto simp: progressing_def run_invariant_def plan_within_def task_for_def open_view_def)
  obtain batch where batch: "publish_batch j t = Inr batch" using publish_batch_returns [OF p ready] by (auto simp: is_ok_iff)
  let ?xs = "filter (\<lambda>x. \<not> j_contains j (fst x)) (map (registry_of sha) (vp_objects (tk_plan t)))"
  let ?m = "value_mutation (world_key world) (Some (vp_manifest (tk_plan t)))"
  have b: "batch = map stage_mutation ?xs" using publish_batch_Inr(1) [OF batch task_for_stage(1) [OF t]] t by (simp add: task_for_def)
  have inj: "inj_on (object_hash sha) B" using j by (simp add: sound_journal_def addressed_def)
  note plain = missing_plain [OF _ _ B inj, of "\<lambda>x. \<not> j_contains j (fst x)"]
  have "length world \<le> 64" using name by (simp add: valid_name_def split: if_splits)
  then have "list_all plain_value (batch @ [?m])"
    using plain(1) sizes by (simp add: b plan_bounded_def plain_value_def)
  moreover have "distinct (map m_key (batch @ [?m]))"
    using plain(2) sizes by (auto simp: b plan_bounded_def registry_of_def)
  moreover
  have "length batch \<le> length (vp_objects (tk_plan t))" unfolding b length_map by (rule order.trans [OF length_filter_le]) simp
  then have "length (batch @ [?m]) \<le> 64" using sizes by (simp add: plan_bounded_def)
  moreover have "sum_list (map value_weight batch) \<le> 256 * 1024"
  proof (cases "tk_staging t")
    case True
    then have "batch = []" using p ready t by (auto simp: b filter_empty_conv progressing_def task_for_def in_set_conv_nth j_contains_def)
    then show ?thesis by simp
  next
    case False
    have "sum_list (map value_weight batch) = sum_list (map (length \<circ> snd) ?xs)" by (simp add: b value_weight_def comp_def)
    also have "\<dots> \<le> sum_list (map (length \<circ> snd) (tk_output t))"
      using t sum_list_filter_le_nat unfolding task_for_def by metis
    finally show ?thesis using small [OF False] by simp
  qed
  moreover have "length (vp_manifest (tk_plan t)) \<le> 1036" using sizes by (simp add: plan_bounded_def)
  ultimately have "\<exists>j'. j_transact sha (j_sequence j) (batch @ [?m]) j = Inr j'"
    using p progressing_sequence [OF p] by (intro value_batch_commits) (auto simp: progressing_def value_weight_def)
  then show ?thesis using batch head t by (auto simp: task_publish_def task_for_def)
qed

lemma stage_all_output: "stage_all fuel sha t j = Inr (ok, t', j') \<Longrightarrow> tk_output_head t' = tk_output_head t"
proof (induction fuel arbitrary: t j)
  case (Suc fuel)
  then obtain r u k where u: "stage_next sha t j = Inr (r, u, k)" by (auto split: sum.splits)
  then have "tk_output_head u = tk_output_head t" by (auto simp: stage_next_def Let_def split: if_splits)
  then show ?case using Suc u by (auto split: stage_result.splits)
qed simp

text \<open>While the head is the one the task started from, the world is the version it was prepared from.\<close>

lemma same_references:
  assumes inv: "run_invariant sha B world j0 t j" and head: "matches_head j t"
    and v: "open_view j0 world False False = Inr v" and refs: "view_references sha j0 v = Inr refs"
  shows "open_view j world False False = Inr v \<and> view_references sha j v = Inr refs"
proof -
  obtain input where input: "freeze sha j0 v = Inr input" "compact_frozen sha input = Inr (tk_plan t)"
    using inv v by (auto simp: run_invariant_def task_for_def)
  note same = same_version [OF inv head v input(1)]
  have "view_references sha j v = Inr refs"
  proof (cases v)
    case Legacy
    then show ?thesis using same(2) input(1) refs by (auto simp: freeze_def)
  next
    case (Runs runs)
    obtain ds where ds: "view_runs j0 runs = Inr ds" "refs = stack_map ds" using refs references_runs Runs by blast
    have "view_run j i = Inr d" if "view_run j0 i = Inr d" for i d
      using inv that by (auto simp: run_invariant_def view_run_def j_get_object_def split: option.splits)
    then have "view_runs j runs = Inr ds" using ds(1) by (simp add: view_runs_def mapR_Inr_iff list_all2_mono)
    then show ?thesis using references_stack ds(2) Runs by blast
  qed (use compact_frozen_not_tree [OF input] in blast)
  with same(1) show ?thesis by blast
qed

lemma install_succeeds:
  assumes p: "progressing sha B world j0 t j" and new: "\<not> tk_staging t" "tk_cursor t = 0"
  shows "\<exists>t1 t' j1 j'. task_install sha t j = Inr (True, t', j') \<and>
    (j' = j \<and> tk_head t = Some (tk_output_head t) \<or> progressing sha B world j0 t1 j1 \<and> tk_output_head t1 = tk_output_head t \<and> task_publish sha t1 j1 = Inr (True, t', j'))"
proof -
  have head: "matches_head j t" "tk_built t" "\<not> tk_installed t" using p by (auto simp: progressing_def)
  let ?big = "length (vp_manifest (tk_plan t)) + sum_list (map (length \<circ> snd) (tk_output t)) > 256 * 1024"
  show ?thesis
  proof (cases "tk_head t = Some (tk_output_head t)")
    case True
    then show ?thesis using head by (simp add: task_install_def)
  next
    case False
    show ?thesis
    proof (cases ?big)
      case True
      obtain t1 j1 where s: "stage_all (length (tk_output t) + 2) sha t j = Inr (True, t1, j1)" "progressing sha B world j0 t1 j1"
          "tk_staging t1" "tk_cursor t1 = length (tk_output t1)"
        using stage_all_progress [OF p, of "length (tk_output t) + 2"] by (metis diff_le_self le_imp_less_Suc less_SucI add_2_eq_Suc')
      moreover obtain t' j' where "task_publish sha t1 j1 = Inr (True, t', j')" using publish_progress [OF s(2)] s(3,4) by blast
      moreover have "tk_output_head t1 = tk_output_head t" using stage_all_output s(1) by blast
      ultimately show ?thesis using head False True by (auto simp: task_install_def simp del: stage_all.simps add_2_eq_Suc')
    next
      case small: False
      obtain t' j' where "task_publish sha t j = Inr (True, t', j')" using publish_progress [OF p] new small by auto
      then show ?thesis using head False small new p by (auto simp: task_install_def)
    qed
  qed
qed

lemma prepared_progresses:
  assumes "\<not> j_leveldb j" "sound_journal sha B j" "task_prepare sha j (new_task world) = Inr t0" "task_build sha t0 = Inr t"
    "plan_within B t" "open_view j world False False = Inr v" "view_references sha j v = Inr refs" "list_all entry_ok refs"
    "unat (j_sequence j) + length (vp_objects (tk_plan t)) + 1 < 2 ^ 64"
  shows "progressing sha B world j t j" and "\<not> tk_staging t" and "tk_cursor t = 0"
proof -
  note t = prepared_task [OF assms(3,4)]
  have inv: "run_invariant sha B world j t j" using assms(2,5) t by (auto simp: run_invariant_def sound_journal_def addressed_def)
  have head: "matches_head j t" using t by (auto simp: matches_head_def task_for_def)
  obtain v1 where v1: "open_view j world False False = Inr v1" "\<And>refs. view_references sha j v1 = Inr refs \<Longrightarrow> smap_ok refs \<and> image_plan sha refs = Inr (tk_plan t)"
    using task_plan [OF inv head] by metis
  with assms(6,7) have "smap_ok refs" "image_plan sha refs = Inr (tk_plan t)" by auto
  then have "plan_bounded (tk_plan t)" using image_plan_bounded assms(8) by blast
  moreover have "length (tk_output t) = length (vp_objects (tk_plan t))" using t(1) by (simp add: task_for_def)
  ultimately show "progressing sha B world j t j" using inv head t assms(1,9) by (simp add: progressing_def)
  show "\<not> tk_staging t" "tk_cursor t = 0" using t by simp_all
qed

section \<open>A concrete world\<close>

definition cell_sha :: "bytes \<Rightarrow> oid" where
  "cell_sha b = of_nat (length b)"

definition cell_journal :: journal where
  "cell_journal = \<lparr>j_leveldb = False, j_sequence = 1, j_roots = [(namespace_root, 29)], j_objects = [(29, ''x'')]\<rparr>"

definition cell_run :: bytes where
  "cell_run = ''FFRUN001'' @ le_store 4 1 @ encode_entry (namespace_root, Some 29)"

definition cell_manifest :: bytes where
  "cell_manifest = ''FFMAN002'' @ le_store 4 1 @ oid_bytes (object_hash cell_sha cell_run)"

definition cell_bytes :: "bytes set" where
  "cell_bytes = {''x'', cell_run, cell_manifest}"

definition cell_input :: task where
  "cell_input = (new_task ''main'')\<lparr>tk_sequence := 1, tk_input := \<lparr>fz_flat = [(namespace_root, 29)], fz_runs = []\<rparr>, tk_prepared := True\<rparr>"

definition cell_task :: task where
  "cell_task = cell_input\<lparr>tk_plan := \<lparr>vp_objects = [cell_run], vp_manifest = cell_manifest, vp_run_count = 1\<rparr>,
     tk_ids := [object_hash cell_sha cell_run], tk_output := [(object_registry (object_hash cell_sha cell_run), cell_run)],
     tk_output_head := object_hash cell_sha cell_manifest, tk_built := True\<rparr>"

lemma cell_hashes:
  "object_hash cell_sha ''x'' = 29" "object_hash cell_sha cell_run = 92" "object_hash cell_sha cell_manifest = 72"
  by (simp_all add: object_hash_def object_frame_def cell_sha_def cell_run_def cell_manifest_def)

lemma cell_view: "open_view cell_journal ''main'' False False = Inr Legacy"
  by (simp add: open_view_def valid_name_def j_contains_def cell_journal_def name_char_def between_def)

lemma cell_references: "view_references cell_sha cell_journal Legacy = Inr [(namespace_root, 29)]"
  by (simp add: view_references_def j_keys_def j_root_object_def cell_journal_def)

lemma cell_prepare: "task_prepare cell_sha cell_journal (new_task ''main'') = Inr cell_input"
  using cell_view cell_references
  by (simp add: task_prepare_def new_task_def freeze_def cell_input_def current_head_def open_view_def)
     (simp add: cell_journal_def)

lemma cell_build: "task_build cell_sha cell_input = Inr cell_task"
  by (simp add: task_build_def cell_input_def new_task_def compact_frozen_def image_plan_def partition_runs_def add_part_def flush_def
    emplace_def encode_run_def run_key_check_def finish_plan_def encode_manifest_def cell_task_def cell_run_def cell_manifest_def)

lemma cell_sound: "sound_journal cell_sha cell_bytes cell_journal"
  by (auto simp: sound_journal_def addressed_def registered_def cell_bytes_def cell_journal_def cell_hashes
    object_registry_def split: if_splits intro!: inj_onI)

lemma cell_plan: "plan_within cell_bytes cell_task"
  by (simp add: plan_within_def cell_task_def cell_bytes_def)

lemma cell_entries: "list_all entry_ok [(namespace_root, 29)]"
  by (simp add: entry_ok_def valid_key_def)

lemma cell_started: "compaction_run cell_sha cell_bytes ''main'' cell_task cell_journal"
  by (rule compaction_run.start [OF cell_prepare cell_build cell_sound cell_plan])

lemma cell_publishes: "\<exists>t' j'. task_publish cell_sha cell_task cell_journal = Inr (True, t', j')"
  by (rule publish_progress [OF prepared_progresses(1) [OF _ cell_sound cell_prepare cell_build cell_plan cell_view cell_references cell_entries]])
     (simp_all add: cell_journal_def cell_task_def cell_input_def new_task_def cell_run_def)

section \<open>Properties\<close>

text \<open>C19. Staging ends: at every point of a run, the staging loop of an installation finishes within two more
  steps than there are objects, with the result the unbounded loop gives.\<close>

theorem staging_terminates:
  assumes "compaction_run sha B world t j"
  shows "stages sha t j (stage_all (length (tk_output t) + 2) sha t j)"
proof -
  obtain j0 where "task_for sha world j0 t" using run_invariant_holds [OF assms] by (auto simp: run_invariant_def)
  from task_for_stage [OF this] show ?thesis by (intro stage_all_stages) auto
qed

theorem staging_terminates_witness:
  "compaction_run cell_sha cell_bytes ''main'' cell_task cell_journal \<and>
   stages cell_sha cell_task cell_journal (stage_all (length (tk_output cell_task) + 2) cell_sha cell_task cell_journal)"
  using staging_terminates [OF cell_started] cell_started by blast

text \<open>C17. Publication never changes what a world holds: in every run in which other writers commit between
  the steps of the task, a publication that reports success leaves the world with the references it had
  immediately before, changes no name but the head of the world and registry names, and keeps every object.\<close>

theorem compaction_keeps_contents:
  assumes "compaction_run sha B world t j" and "task_publish sha t j = Inr (True, t', j')"
    and "open_view j world False False = Inr v" and "view_references sha j v = Inr refs" and "list_all entry_ok refs"
  shows "\<exists>v'. open_view j' world False False = Inr v' \<and> view_references sha j' v' = Inr refs \<and>
    (\<forall>k. k \<noteq> world_key world \<longrightarrow> (\<forall>i. k \<noteq> object_registry i) \<longrightarrow> map_of (j_roots j') k = map_of (j_roots j) k) \<and>
    (\<forall>i b. j_get_object j i = Inr b \<longrightarrow> j_get_object j' i = Inr b)"
proof -
  obtain j0 where inv: "run_invariant sha B world j0 t j" using run_invariant_holds [OF assms(1)] by blast
  note p = publication [OF inv assms(2)]
  have "j_get_object j' i = Inr b" if "j_get_object j i = Inr b" for i b
    using p(3) published_old [of sha j "tk_plan t" j' i b] that by blast
  with p(4) publication_keeps_contents [OF inv assms(2-5)] show ?thesis by blast
qed

theorem compaction_keeps_contents_witness:
  "\<exists>t' j' v'. task_publish cell_sha cell_task cell_journal = Inr (True, t', j') \<and>
    open_view j' ''main'' False False = Inr v' \<and> view_references cell_sha j' v' = Inr [(namespace_root, 29)]"
proof -
  obtain t' j' where run: "task_publish cell_sha cell_task cell_journal = Inr (True, t', j')" using cell_publishes by blast
  from compaction_keeps_contents [OF cell_started run cell_view cell_references cell_entries] run show ?thesis by blast
qed

text \<open>C18. Compaction succeeds: on the single-file backend, with no other writer, a world whose compaction can
  be planned is compacted at the first try, provided the sequence numbers suffice for one commit per
  object; the world then has the planned head and the references it had.\<close>

theorem compaction_succeeds:
  assumes "\<not> j_leveldb j" and "sound_journal sha B j" and "task_prepare sha j (new_task world) = Inr t0" and "task_build sha t0 = Inr t"
    and "plan_within B t" and "open_view j world False False = Inr v" and "view_references sha j v = Inr refs" and "list_all entry_ok refs"
    and "unat (j_sequence j) + length (vp_objects (tk_plan t)) + 1 < 2 ^ 64"
  shows "\<exists>j' v'. compact_retries (Suc n) sha world j = Inr j' \<and> current_head j' world = Some (tk_output_head t) \<and>
    open_view j' world False False = Inr v' \<and> view_references sha j' v' = Inr refs"
proof -
  note p = prepared_progresses [OF assms]
  from install_succeeds [OF p] obtain t1 t' j1 j' where install: "task_install sha t j = Inr (True, t', j')" and
    result: "j' = j \<and> tk_head t = Some (tk_output_head t) \<or> progressing sha B world j t1 j1 \<and> tk_output_head t1 = tk_output_head t \<and> task_publish sha t1 j1 = Inr (True, t', j')"
    by blast
  have "compact_retries (Suc n) sha world j = Inr j'" using install assms(3,4) by (simp add: run_task_def)
  moreover have "current_head j' world = Some (tk_output_head t) \<and> (\<exists>v'. open_view j' world False False = Inr v' \<and> view_references sha j' v' = Inr refs)"
    using result
  proof (elim disjE conjE)
    assume "j' = j" "tk_head t = Some (tk_output_head t)"
    moreover have "tk_head t = current_head j world" using p(1) by (simp add: progressing_def run_invariant_def task_for_def)
    ultimately show ?thesis using assms(6,7) by simp
  next
    assume q: "progressing sha B world j t1 j1" "tk_output_head t1 = tk_output_head t" "task_publish sha t1 j1 = Inr (True, t', j')"
    then have inv: "run_invariant sha B world j t1 j1" and head: "matches_head j1 t1" by (auto simp: progressing_def)
    from same_references [OF inv head assms(6,7)] publication_keeps_contents [OF inv q(3) _ _ assms(8)] publication(2) [OF inv q(3)] q(2)
    show ?thesis by simp
  qed
  ultimately show ?thesis by blast
qed

theorem compaction_succeeds_witness:
  "\<exists>j' v'. compact_retries (Suc 7) cell_sha ''main'' cell_journal = Inr j' \<and> current_head j' ''main'' = Some (tk_output_head cell_task) \<and>
    open_view j' ''main'' False False = Inr v' \<and> view_references cell_sha j' v' = Inr [(namespace_root, 29)]"
  by (rule compaction_succeeds [OF _ cell_sound cell_prepare cell_build cell_plan cell_view cell_references cell_entries])
     (simp_all add: cell_journal_def cell_task_def)

end
