(* ===== verification/Anchors.thy ===== *)
theory Anchors
  imports File_Journal
begin

text \<open>
  The header of a single-file container (\<^verbatim>\<open>daemon/container.cpp\<close>): two 4096-byte anchors, each with a
  generation, the published checkpoint and a checksum. Opening takes the valid anchor of the
  higher generation; a checkpoint overwrites the other one.
\<close>

section \<open>Anchors\<close>

definition patch :: "bytes \<Rightarrow> nat \<Rightarrow> bytes \<Rightarrow> bytes" where
  "patch b at v = take at b @ v @ drop (at + length v) b"

definition sealed_anchor :: "bytes \<Rightarrow> bytes" where
  "sealed_anchor a = patch a 4092 (store32 (crc (slice 0 4092 a)))"

definition valid_anchor :: "bytes \<Rightarrow> bool" where
  "valid_anchor a \<longleftrightarrow> slice 0 8 a = ''FORKFS00'' \<and> load_at a 4092 4 = unat (crc (slice 0 4092 a))"

definition supported_anchor :: "bytes \<Rightarrow> unit res" where
  "supported_anchor a =
     need (load_at a 8 2 = 0 \<and> load_at a 10 2 = 0) ''unsupported container version'' (
     need (load_at a 12 4 = 4096) ''unsupported anchor size'' (
     need (load_at a 40 8 = 0 \<and> load_at a 48 8 = 0) ''unsupported container features'' (
     need (load_at a 56 8 = span) ''unsupported segment span'' (
     bindR (if load_at a 64 8 = 0 then
              need (zeros (slice 64 56 a)) ''invalid empty checkpoint reference'' (
              need (load_at a 120 8 = log_base) ''invalid initial replay offset'' (Inr ()))
            else Inr ()) (\<lambda>_.
     need (zeros (slice 136 3956 a)) ''nonzero reserved anchor field'' (
     need (\<not> zeros (slice 16 16 a)) ''invalid repository identity'' (Inr ())))))))"

definition new_anchor :: "bytes \<Rightarrow> u64 \<Rightarrow> bytes" where
  "new_anchor repo time = sealed_anchor (''FORKFS00'' @ le_store 4 0 @ le_store 4 4096 @ repo @ le_store 8 1 @ le_store 16 0 @
     le_store 8 span @ le_store 56 0 @ le_store 8 log_base @ store64 time @ replicate 3960 (CHR 0x00))"

text \<open>\<open>create_legacy\<close>, once the file is created and locked: sixteen bytes of entropy and a clock reading.\<close>

definition new_container :: "bytes \<Rightarrow> u64 \<Rightarrow> bytes" where
  "new_container repo time = new_anchor repo time @ new_anchor repo time @ replicate 57344 (CHR 0x00)"

definition anchor_generation :: "bytes \<Rightarrow> nat" where
  "anchor_generation a = load_at a 32 8"

definition anchor_checkpoint :: "bytes \<Rightarrow> checkpoint" where
  "anchor_checkpoint a = \<lparr>ck_offset = load_at a 64 8, ck_length = load_at a 72 8, ck_sequence = of_nat (load_at a 80 8),
     ck_replay_start = load_at a 120 8, ck_hash = oid_at a 88\<rparr>"

section \<open>Opening\<close>

record file_container =
  fc_journal :: fjournal
  fc_id :: string
  fc_degraded :: bool
  fc_anchor :: bytes
  fc_anchor_offset :: nat

definition choose_anchor :: "bytes \<Rightarrow> bytes \<Rightarrow> (bytes \<times> nat) res" where
  "choose_anchor a b =
     (let va = valid_anchor a; vb = valid_anchor b in
      need (va \<or> vb) ''no valid container anchor'' (
      bindR (if va then supported_anchor a else Inr ()) (\<lambda>_.
      bindR (if vb then supported_anchor b else Inr ()) (\<lambda>_.
      need (\<not> (va \<and> vb) \<or> slice 16 16 a = slice 16 16 b) ''anchor identity mismatch'' (
      need (\<not> (va \<and> vb \<and> anchor_generation a = anchor_generation b) \<or> a = b) ''conflicting anchors at the same generation'' (
      Inr (if \<not> vb \<or> va \<and> anchor_generation b \<le> anchor_generation a then (a, 0) else (b, 4096))))))))"

definition open_container :: "(bytes \<Rightarrow> oid) \<Rightarrow> medium \<Rightarrow> file_container res" where
  "open_container sha m =
     (let f = md_file m; a = slice 0 4096 f; b = slice 4096 4096 f in
      need (log_base \<le> length f) ''truncated container header'' (
      bindR (choose_anchor a b) (\<lambda>(chosen, offset).
      need (zeros (slice 8192 57344 f)) ''nonzero reserved container region'' (
      bindR (open_journal sha m (slice 16 16 chosen) (anchor_checkpoint chosen)) (\<lambda>j.
      Inr \<lparr>fc_journal = j, fc_id = hex (slice 16 16 chosen), fc_degraded = (\<not> valid_anchor a \<or> \<not> valid_anchor b),
           fc_anchor = chosen, fc_anchor_offset = offset\<rparr>)))))"

section \<open>Checkpoints\<close>

definition next_anchor :: "bytes \<Rightarrow> checkpoint \<Rightarrow> bytes" where
  "next_anchor a c = sealed_anchor (patch (patch (patch (patch (patch (patch a
     32 (le_store 8 (anchor_generation a + 1))) 64 (le_store 8 (ck_offset c))) 72 (le_store 8 (ck_length c)))
     80 (store64 (ck_sequence c))) 88 (oid_bytes (ck_hash c))) 120 (le_store 8 (ck_replay_start c)))"

text \<open>\<open>write_at\<close> and \<open>durable\<close> of this file: the same system calls under other names.\<close>

definition relabel :: "exn \<Rightarrow> exn" where
  "relabel e = (case e of System_error _ \<Rightarrow> System_error ''pwrite'' | _ \<Rightarrow> Runtime_error ''zero length write'')"

definition write_anchor :: "nat \<Rightarrow> bytes \<Rightarrow> (medium, unit) op" where
  "write_anchor at b =
     bindS (\<lambda>m. map_prod (map_sum relabel (\<lambda>x. x)) (\<lambda>m. m) (write_bytes at b m)) (\<lambda>_. sys_call ''fsync'' (\<lambda>m. m))"

definition other_anchor :: "nat \<Rightarrow> nat" where
  "other_anchor offset = (if offset = 0 then 4096 else 0)"

definition container_checkpoint :: "(bytes \<Rightarrow> oid) \<Rightarrow> (file_container, unit) op" where
  "container_checkpoint sha k =
     (if anchor_generation (fc_anchor k) = 2 ^ 64 - 1 then (Inl (Runtime_error ''anchor generation exhausted''), k)
      else case file_checkpoint sha (fc_journal k) of
          (Inl e, j) \<Rightarrow> (Inl e, k\<lparr>fc_journal := j\<rparr>)
        | (Inr c, j) \<Rightarrow>
            let next = next_anchor (fc_anchor k) c; target = other_anchor (fc_anchor_offset k) in
            (case write_anchor target next (fj_medium j) of
               (Inr _, m) \<Rightarrow> (Inr (), k\<lparr>fc_journal := j\<lparr>fj_medium := m\<rparr>, fc_anchor := next, fc_anchor_offset := target,
                  fc_degraded := False\<rparr>)
             | (Inl e, m) \<Rightarrow> (Inl e, k\<lparr>fc_journal := j\<lparr>fj_medium := m, fj_poisoned := True\<rparr>\<rparr>)))"

end
