(* ===== verification/Namespace.thy ===== *)
theory Namespace
  imports Compaction
begin

text \<open>
  \<^verbatim>\<open>daemon/namespace.cpp\<close>, the operations on paths. A mutating operation computes a set of changed
  metadata keys from one version of the namespace; \<open>update\<close> then plans a new version and commits
  objects, version and head in one journal batch. A \<^verbatim>\<open>Namespace\<close> object is a view of a container: a
  world or a revision.
\<close>

record namespace =
  ns_view :: string
  ns_revision :: bool

type_synonym changes = "(string, bytes option) smap"

definition viewS :: "namespace \<Rightarrow> (container, nview) op" where
  "viewS ns = journalS (\<lambda>j. open_view j (ns_view ns) (ns_revision ns) True)"

text \<open>A read of the current version.\<close>

definition readS :: "namespace \<Rightarrow> (reader \<Rightarrow> 'a res) \<Rightarrow> (container, 'a) op" where
  "readS ns f = bindS (viewS ns) (\<lambda>v. journalS (\<lambda>j. f (view_reader j v)))"

section \<open>Committing changes\<close>

record commit =
  cm_batch :: "mutation list"
  cm_delta :: delta
  cm_objects :: "(string, bytes) smap"

definition add_object :: "(bytes \<Rightarrow> oid) \<Rightarrow> journal \<Rightarrow> bytes \<Rightarrow> commit \<Rightarrow> commit" where
  "add_object sha j b k = (let key = object_registry (object_hash sha b) in
     if j_contains j key then k else k\<lparr>cm_objects := emplace key b (cm_objects k)\<rparr>)"

definition commit_entry :: "(bytes \<Rightarrow> oid) \<Rightarrow> journal \<Rightarrow> string \<times> bytes option \<Rightarrow> commit \<Rightarrow> commit" where
  "commit_entry sha j = (\<lambda>(key, v) k.
     if prefix (history @ ''orphan/'') key then k\<lparr>cm_batch := cm_batch k @ [value_mutation key v]\<rparr>
     else case v of
       Some b \<Rightarrow>
         let k = add_object sha j b (k\<lparr>cm_delta := put key (Some (object_hash sha b)) (cm_delta k)\<rparr>) in
         if prefix allocations key
         then k\<lparr>cm_objects := emplace (history @ ''allocated/'' @ drop (length allocations) key) [] (cm_objects k)\<rparr>
         else k
     | None \<Rightarrow> k\<lparr>cm_delta := put key None (cm_delta k)\<rparr>)"

definition object_mutations :: "(string, bytes) smap \<Rightarrow> mutation list" where
  "object_mutations m = map (\<lambda>(key, b). value_mutation key (Some b)) m"

definition commit_batch ::
    "(bytes \<Rightarrow> oid) \<Rightarrow> journal \<Rightarrow> string \<Rightarrow> nview \<Rightarrow> changes \<Rightarrow> mutation list res" where
  "commit_batch sha j world v changes =
     bindR (if v = Legacy then bindR (view_contains j v root_key) (\<lambda>there. Inr (\<not> there)) else Inr False) (\<lambda>flat.
     if flat then Inr (map (\<lambda>(key, b). value_mutation key b) changes)
     else
       let k = fold (commit_entry sha j) changes \<lparr>cm_batch = [], cm_delta = [], cm_objects = []\<rparr> in
       if cm_delta k = [] then Inr (cm_batch k)
       else
         bindR (view_plan sha j v (cm_delta k) False) (\<lambda>p.
         let k = fold (add_object sha j) (vp_objects p) k in
         Inr (cm_batch k @ object_mutations (cm_objects k) @ [value_mutation (world_key world) (Some (vp_manifest p))])))"

definition commit_changes :: "(bytes \<Rightarrow> oid) \<Rightarrow> namespace \<Rightarrow> nview \<Rightarrow> changes \<Rightarrow> (container, unit) op" where
  "commit_changes sha ns v changes =
     (if changes = [] then returnS ()
      else bindS (journalS (\<lambda>j. commit_batch sha j (ns_view ns) v changes)) (transact sha))"

definition compact_world :: "(bytes \<Rightarrow> oid) \<Rightarrow> namespace \<Rightarrow> (container, unit) op" where
  "compact_world sha ns =
     needS (\<not> ns_revision ns) ''revision view is read-only'' (
     \<lambda>c. if j_leveldb (ct_journal c) then bindS (readS ns root_id) (\<lambda>_. returnS ()) c
         else bindS (journalS (compact_retries 8 sha (ns_view ns))) (\<lambda>j. modifyS (\<lambda>c. c\<lparr>ct_journal := j\<rparr>)) c)"

text \<open>The loop of \<open>update\<close>: whether an offline compaction was run, and the outcomes of the waits for
  background compaction still to come; with no outcome left a wait times out.\<close>

function update_loop ::
    "(bytes \<Rightarrow> oid) \<Rightarrow> namespace \<Rightarrow> (reader \<Rightarrow> (container, changes \<times> 'a) op) \<Rightarrow> bool \<Rightarrow> wait_outcome list \<Rightarrow>
      (container, 'a) op" where
  "update_loop sha ns operation compacted waits =
     bindS (viewS ns) (\<lambda>v.
     bindS (\<lambda>c. operation (view_reader (ct_journal c) v) c) (\<lambda>(changes, result).
     if changes = [] then returnS result
     else bindS getS (\<lambda>c.
       let background = ct_running c \<and> \<not> ct_stop c in
       if \<not> background \<and> \<not> compacted \<and> view_run_count v \<ge> 16 then
         bindS (compact_world sha ns) (\<lambda>_. update_loop sha ns operation True waits)
       else if background \<and> view_run_count v \<ge> 32 then
         bindS (modifyS (schedule_compaction (ns_view ns))) (\<lambda>_.
         bindS (journalS (\<lambda>j. j_root_object j (world_key (ns_view ns)))) (\<lambda>_.
         case waits of
           [] \<Rightarrow> throwS (Runtime_error ''compaction backpressure timeout'')
         | Timeout # _ \<Rightarrow> throwS (Runtime_error ''compaction backpressure timeout'')
         | Failed # _ \<Rightarrow> throwS (Runtime_error ''background compaction failed; inspect service status'')
         | Stopping # waits \<Rightarrow>
             bindS (modifyS (\<lambda>c. c\<lparr>ct_stop := True\<rparr>)) (\<lambda>_. update_loop sha ns operation compacted waits)
         | Progress j # waits \<Rightarrow>
             bindS (modifyS (\<lambda>c. c\<lparr>ct_journal := j\<rparr>)) (\<lambda>_. update_loop sha ns operation compacted waits)))
       else
         needS (view_run_count v < 32) ''namespace run capacity exhausted'' (
         bindS (commit_changes sha ns v changes) (\<lambda>_.
         bindS (if background then
                  bindS (journalS (\<lambda>j. open_view j (ns_view ns) False False)) (\<lambda>updated.
                  if view_run_count updated \<ge> 16 then modifyS (schedule_compaction (ns_view ns)) else returnS ())
                else returnS ()) (\<lambda>_.
         returnS result))))))"
  by pat_completeness auto
termination
  by (relation "measure (\<lambda>(sha, ns, operation, compacted, waits). length waits + (if compacted then 0 else 1))") auto

declare update_loop.simps [simp del]

definition update ::
    "(bytes \<Rightarrow> oid) \<Rightarrow> namespace \<Rightarrow> (reader \<Rightarrow> (container, changes \<times> 'a) op) \<Rightarrow> (container, 'a) op" where
  "update sha ns operation =
     needS (\<not> ns_revision ns) ''revision view is read-only'' (
     \<lambda>c. update_loop sha ns operation False (ct_waits c) c)"

section \<open>Worlds and revisions\<close>

definition descriptor :: "oid \<Rightarrow> oid \<Rightarrow> u64 \<Rightarrow> bytes" where
  "descriptor manifest parent sequence = ''FFREV001'' @ oid_bytes manifest @ oid_bytes parent @ store64 sequence"

definition revision_manifest :: "journal \<Rightarrow> string \<Rightarrow> oid res" where
  "revision_manifest j name =
     bindR (valid_name name) (\<lambda>_. bindR (j_get j (history @ ''revision/'' @ name)) (\<lambda>b.
     need (length b = 80 \<and> slice 0 8 b = ''FFREV001'') ''invalid revision record'' (Inr (oid_at b 8))))"

definition snapshot_head :: "(bytes \<Rightarrow> oid) \<Rightarrow> journal \<Rightarrow> namespace \<Rightarrow> nview \<Rightarrow> (oid \<times> mutation list) res" where
  "snapshot_head sha j ns v =
     (if v = Legacy then
        bindR (view_plan sha j v [] False) (\<lambda>p.
        Inr (object_hash sha (vp_manifest p),
          map (\<lambda>b. value_mutation (object_registry (object_hash sha b)) (Some b))
            (filter (\<lambda>b. \<not> j_contains j (object_registry (object_hash sha b))) (vp_objects p @ [vp_manifest p]))))
      else bindR (j_root_object j (world_key (ns_view ns))) (\<lambda>i. Inr (i, [])))"

definition snapshot_parent :: "journal \<Rightarrow> string \<Rightarrow> oid res" where
  "snapshot_parent j base =
     (if \<not> j_contains j base then Inr 0
      else bindR (j_get j base) (\<lambda>parent.
        need (length parent = 32) ''invalid revision ancestry'' (
        let i = oid_of_bytes parent in
        bindR (j_get_object j i) (\<lambda>d.
        need (length d = 80 \<and> slice 0 8 d = ''FFREV001'') ''invalid parent revision'' (Inr i)))))"

definition snapshot :: "(bytes \<Rightarrow> oid) \<Rightarrow> namespace \<Rightarrow> string \<Rightarrow> (container, string) op" where
  "snapshot sha ns name =
     bindS (liftS (valid_name name)) (\<lambda>_.
     needS (\<not> ns_revision ns) ''revision view is read-only'' (
     bindS getS (\<lambda>c. let j = ct_journal c; base = history @ ''base/'' @ ns_view ns in
     needS (\<not> j_contains j (history @ ''revision/'' @ name)) ''revision name already exists'' (
     bindS (journalS (\<lambda>j. open_view j (ns_view ns) False True)) (\<lambda>v.
     bindS (liftS (root_id (view_reader j v))) (\<lambda>_.
     bindS (liftS (snapshot_head sha j ns v)) (\<lambda>(manifest, batch).
     bindS (liftS (snapshot_parent j base)) (\<lambda>parent.
     let d = descriptor manifest parent (j_sequence j); i = object_hash sha d in
     bindS (transact sha (batch @ [value_mutation (history @ ''revision/'' @ name) (Some d), value_mutation base (Some (oid_bytes i))])) (\<lambda>_.
     returnS (hex (oid_bytes i)))))))))))"

definition fork_world :: "(bytes \<Rightarrow> oid) \<Rightarrow> namespace \<Rightarrow> string \<Rightarrow> string \<Rightarrow> (container, unit) op" where
  "fork_world sha ns revision world =
     bindS (liftS (valid_name revision)) (\<lambda>_. bindS (liftS (valid_name world)) (\<lambda>_.
     needS (world \<noteq> ''main'') ''main World already exists'' (
     needS (\<not> ns_revision ns) ''revision view is read-only'' (
     bindS getS (\<lambda>c. let j = ct_journal c in
     needS (\<not> j_contains j (world_key world) \<and> \<not> j_contains j (history @ ''base/'' @ world)) ''World already exists'' (
     bindS (liftS (revision_manifest j revision)) (\<lambda>manifest.
     bindS (liftS (open_view j revision True True)) (\<lambda>validated.
     bindS (liftS (root_id (view_reader j validated))) (\<lambda>_.
     bindS (liftS (j_root_object j (history @ ''revision/'' @ revision))) (\<lambda>i.
     transact sha [\<lparr>m_key = world_key world, m_value = None, m_reference = Some manifest\<rparr>,
                   value_mutation (history @ ''base/'' @ world) (Some (oid_bytes i))]))))))))))"

definition names_under :: "journal \<Rightarrow> string \<Rightarrow> string list res" where
  "names_under j p = mapR (\<lambda>key. let name = drop (length p) key in bindR (valid_name name) (\<lambda>_. Inr name)) (j_keys j p)"

definition worlds :: "(container, string list) op" where
  "worlds = journalS (\<lambda>j. bindR (names_under j (world_key [])) (\<lambda>names.
     Inr ((if j_contains j root_key then [''main''] else []) @ filter (\<lambda>n. n \<noteq> ''main'') names)))"

definition revisions :: "(container, string list) op" where
  "revisions = journalS (\<lambda>j. names_under j (history @ ''revision/''))"

definition run_count :: "namespace \<Rightarrow> (container, nat) op" where
  "run_count ns = bindS (viewS ns) (\<lambda>v. bindS (journalS (\<lambda>j. root_id (view_reader j v))) (\<lambda>_. returnS (view_run_count v)))"

end
