(* ===== verification/Namespace_Files.thy ===== *)
theory Namespace_Files
  imports Namespace
begin

text \<open>
  \<^verbatim>\<open>daemon/namespace.cpp\<close>, the path operations: directories, files, links, attributes, renames,
  directory cursors, verification and the search for an inode's path.
\<close>

abbreviation file_limit :: nat where "file_limit \<equiv> 262144"
abbreviation int64_max :: u64 where "int64_max \<equiv> 0x7fffffffffffffff"
abbreviation limit_message :: string where "limit_message \<equiv> ''prototype files are limited to 256 KiB''"

section \<open>Shared steps\<close>

definition put_inode :: "inode \<Rightarrow> changes \<Rightarrow> changes" where
  "put_inode n c = put (inode_key (i_id n)) (Some (encode_inode n)) c"

definition put_content :: "string \<Rightarrow> bytes \<Rightarrow> changes \<Rightarrow> changes" where
  "put_content i b c = put (content_key i) (Some b) c"

definition put_allocated :: "string \<Rightarrow> changes \<Rightarrow> changes" where
  "put_allocated i c = put (allocated_key i) (Some []) c"

definition put_entry :: "string \<Rightarrow> string \<Rightarrow> changes \<Rightarrow> changes res" where
  "put_entry key i c = bindR (id_bytes i) (\<lambda>b. Inr (put key (Some b) c))"

definition overwrite :: "bytes \<Rightarrow> nat \<Rightarrow> bytes \<Rightarrow> bytes" where
  "overwrite data at v = (let end = at + length v; d = (if end > length data then resize data end else data) in
     take at d @ v @ drop end d)"

text \<open>A new file or symbolic link in a directory, and the time of the directory.\<close>

definition create_in ::
    "reader \<Rightarrow> parent \<Rightarrow> inode \<Rightarrow> bytes \<Rightarrow> (container, changes) op" where
  "create_in R p n b =
     bindS (liftS (get_inode R (pa_id p))) (\<lambda>pn. bindS (touch pn) (\<lambda>pn.
     liftS (bindR (put_entry (pa_key p) (i_id n) (put_allocated (i_id n) (put_content (i_id n) b (put_inode n [])))) (\<lambda>c.
       Inr (put_inode pn c)))))"

definition retire :: "namespace \<Rightarrow> reader \<Rightarrow> inode \<Rightarrow> changes \<Rightarrow> (container, changes) op" where
  "retire ns R n c =
     (let c = put (inode_key (i_id n)) None c in
      if i_directory n then returnS c
      else let c = put (content_key (i_id n)) None c in
        bindS getS (\<lambda>ct. case map_of (ct_counts ct) (ns_view ns, i_id n) of
          None \<Rightarrow> returnS c
        | Some k \<Rightarrow> if k = 0 then returnS c
            else bindS now (\<lambda>t. bindS (liftS (rd_get R (content_key (i_id n)))) (\<lambda>b.
              let pre = orphan_prefix (ns_view ns) (i_id n); orphan = n\<lparr>i_links := 0, i_changed := t\<rparr> in
              returnS (put (pre @ ''content'') (Some b) (put (pre @ ''inode'') (Some (encode_inode orphan)) c))))))"

text \<open>Dropping one of several links.\<close>

definition drop_link :: "inode \<Rightarrow> changes \<Rightarrow> (container, changes) op" where
  "drop_link n c = bindS now (\<lambda>t. returnS (put_inode (n\<lparr>i_links := i_links n - 1, i_changed := t\<rparr>) c))"

section \<open>Creation\<close>

definition fs_initialize :: "(bytes \<Rightarrow> oid) \<Rightarrow> namespace \<Rightarrow> (container, unit) op" where
  "fs_initialize sha ns =
     needS (ns_view ns = ''main'' \<and> \<not> ns_revision ns) ''fs-init initializes main only'' (
     update sha ns (\<lambda>R.
       bindS (liftS (rd_contains R root_key)) (\<lambda>there.
       needS (\<not> there) ''filesystem already initialized'' (
       bindS (liftS (rd_keys R forkfs_prefix)) (\<lambda>ks.
       needS (ks = []) ''orphan filesystem records prevent initialization'' (
       bindS (new_id R) (\<lambda>i. bindS (fresh_inode i True 493 2 0 False) (\<lambda>n.
       bindS (liftS (put_entry root_key i (put_inode n (put_allocated i [])))) (\<lambda>c. returnS (c, ()))))))))))"

definition fs_mkdir :: "(bytes \<Rightarrow> oid) \<Rightarrow> namespace \<Rightarrow> string \<Rightarrow> nat \<Rightarrow> (container, unit) op" where
  "fs_mkdir sha ns path mode =
     needS (mode \<le> 511) ''invalid creation mode'' (
     update sha ns (\<lambda>R.
       bindS (liftS (parent_of R path)) (\<lambda>(p, _).
       bindS (liftS (rd_contains R (pa_key p))) (\<lambda>there.
       needS (\<not> there) ''path already exists'' (
       bindS (new_id R) (\<lambda>i. bindS (fresh_inode i True mode 2 0 False) (\<lambda>n.
       bindS (liftS (get_inode R (pa_id p))) (\<lambda>pn.
       needS (i_links pn < - 1) ''directory link count exhausted'' (
       bindS (touch (pn\<lparr>i_links := i_links pn + 1\<rparr>)) (\<lambda>pn.
       bindS (liftS (put_entry (pa_key p) i [])) (\<lambda>c.
       returnS (put_allocated i (put_inode pn (put_inode n c)), ()))))))))))))"

definition fs_symlink :: "(bytes \<Rightarrow> oid) \<Rightarrow> namespace \<Rightarrow> string \<Rightarrow> string \<Rightarrow> (container, unit) op" where
  "fs_symlink sha ns target path =
     bindS (liftS (target_components target)) (\<lambda>_.
     update sha ns (\<lambda>R.
       bindS (liftS (parent_of R path)) (\<lambda>(p, _).
       bindS (liftS (rd_contains R (pa_key p))) (\<lambda>there.
       needS (\<not> there) ''path already exists'' (
       bindS (new_id R) (\<lambda>i. bindS (fresh_inode i False 511 1 (of_nat (length target)) True) (\<lambda>n.
       bindS (create_in R p n target) (\<lambda>c. returnS (c, ())))))))))"

section \<open>File contents\<close>

text \<open>The target of a write: the inode and, when the file is new, where to enter it.\<close>

definition write_target :: "reader \<Rightarrow> string \<Rightarrow> (container, string \<times> parent option) op" where
  "write_target R path =
     bindS (liftS (parent_of R path)) (\<lambda>(p, _).
     bindS (liftS (rd_contains R (pa_key p))) (\<lambda>there.
     if \<not> there then bindS (new_id R) (\<lambda>i. returnS (i, Some p))
     else
       bindS (liftS (bindR (rd_get R (pa_key p)) decode_id)) (\<lambda>i.
       bindS (liftS (get_inode R i)) (\<lambda>n.
       if \<not> i_symlink n then returnS (i, None)
       else bindS (liftS (resolve_or R path True True)) (\<lambda>w. case w of
           Found stack \<Rightarrow> returnS (hd stack, None)
         | Missing q \<Rightarrow> bindS (new_id R) (\<lambda>i. returnS (i, Some q)))))))"

definition fs_write :: "(bytes \<Rightarrow> oid) \<Rightarrow> namespace \<Rightarrow> string \<Rightarrow> bytes \<Rightarrow> (container, unit) op" where
  "fs_write sha ns path v =
     needS (length v \<le> file_limit) limit_message (
     update sha ns (\<lambda>R.
       bindS (write_target R path) (\<lambda>(i, new).
       bindS (if new = None then liftS (get_inode R i) else fresh_inode i False 420 1 0 False) (\<lambda>n.
       needS (\<not> i_directory n \<and> \<not> i_symlink n) ''cannot write non-regular file'' (
       bindS (touch (n\<lparr>i_size := of_nat (length v)\<rparr>)) (\<lambda>n.
       case new of
         None \<Rightarrow> returnS (put_content i v (put_inode n []), ())
       | Some p \<Rightarrow> bindS (create_in R p n v) (\<lambda>c. returnS (c, ()))))))))"

definition fs_replace :: "(bytes \<Rightarrow> oid) \<Rightarrow> namespace \<Rightarrow> string \<Rightarrow> bytes \<Rightarrow> (container, unit) op" where
  "fs_replace sha ns path v =
     needS (length v \<le> file_limit) limit_message (
     update sha ns (\<lambda>R.
       bindS (liftS (parent_of R path)) (\<lambda>(p, _).
       bindS (liftS (rd_contains R (pa_key p))) (\<lambda>there.
       bindS (if \<not> there then returnS (420, [])
              else bindS (liftS (bindR (rd_get R (pa_key p)) decode_id)) (\<lambda>i.
                bindS (liftS (get_inode R i)) (\<lambda>old.
                needS (\<not> i_directory old) ''cannot replace directory with a file'' (
                bindS (if i_links old = 1 then retire ns R old [] else drop_link old []) (\<lambda>c.
                returnS (if i_symlink old then 420 else i_mode old, c)))))) (\<lambda>(mode, c).
       bindS (new_id R) (\<lambda>i. bindS (fresh_inode i False mode 1 (of_nat (length v)) False) (\<lambda>n.
       bindS (liftS (get_inode R (pa_id p))) (\<lambda>pn. bindS (touch pn) (\<lambda>pn.
       bindS (liftS (put_entry (pa_key p) i (put_allocated i (put_content i v (put_inode n c))))) (\<lambda>c.
       returnS (put_inode pn c, ())))))))))))"

definition read_content :: "reader \<Rightarrow> string \<Rightarrow> bytes res" where
  "read_content R path =
     bindR (resolve R path True) (\<lambda>i. bindR (get_inode R i) (\<lambda>n.
     need (\<not> i_directory n) ''cannot read a directory'' (
     bindR (rd_get R (content_key i)) (\<lambda>v.
     need (of_nat (length v) = i_size n) ''inode size mismatch'' (Inr v)))))"

definition fs_read :: "namespace \<Rightarrow> string \<Rightarrow> (container, bytes) op" where
  "fs_read ns path = readS ns (\<lambda>R. read_content R path)"

text \<open>\<open>edit_content\<close>: the edit answers with the new contents, or with nothing to change.\<close>

definition edit_content ::
    "(bytes \<Rightarrow> oid) \<Rightarrow> namespace \<Rightarrow> string \<Rightarrow> (bytes \<Rightarrow> (bytes option \<times> 'a) res) \<Rightarrow> (container, 'a) op" where
  "edit_content sha ns path edit =
     update sha ns (\<lambda>R.
       bindS (liftS (resolve R path True)) (\<lambda>i. bindS (liftS (get_inode R i)) (\<lambda>n.
       needS (\<not> i_directory n) ''cannot modify directory content'' (
       bindS (liftS (rd_get R (content_key i))) (\<lambda>v.
       needS (of_nat (length v) = i_size n) ''inode size mismatch'' (
       bindS (liftS (edit v)) (\<lambda>(new, r). case new of
           None \<Rightarrow> returnS ([], r)
         | Some v \<Rightarrow>
             needS (length v \<le> file_limit) limit_message (
             bindS (touch (n\<lparr>i_size := of_nat (length v)\<rparr>)) (\<lambda>n.
             returnS (put_content i v (put_inode n []), r))))))))))"

definition fs_write_at :: "(bytes \<Rightarrow> oid) \<Rightarrow> namespace \<Rightarrow> string \<Rightarrow> u64 \<Rightarrow> bytes \<Rightarrow> (container, unit) op" where
  "fs_write_at sha ns path offset v =
     needS (offset \<le> int64_max) ''file offset exceeds signed 64-bit range'' (
     needS (v = [] \<or> unat offset \<le> file_limit \<and> length v \<le> file_limit - unat offset) limit_message (
     edit_content sha ns path (\<lambda>data. Inr (if v = [] then None else Some (overwrite data (unat offset) v), ()))))"

definition append_edit :: "bytes \<Rightarrow> bytes \<Rightarrow> (bytes option \<times> nat) res" where
  "append_edit v data =
     need (length data \<le> file_limit \<and> length v \<le> file_limit - length data) limit_message (
     Inr (if v = [] then None else Some (data @ v), length data))"

definition fs_append :: "(bytes \<Rightarrow> oid) \<Rightarrow> namespace \<Rightarrow> string \<Rightarrow> bytes \<Rightarrow> (container, nat) op" where
  "fs_append sha ns path v =
     needS (length v \<le> file_limit) limit_message (edit_content sha ns path (append_edit v))"

definition truncate_edit :: "u64 \<Rightarrow> bytes \<Rightarrow> (bytes option \<times> unit) res" where
  "truncate_edit n data = Inr (if length data = unat n then None else Some (resize data (unat n)), ())"

definition fs_truncate :: "(bytes \<Rightarrow> oid) \<Rightarrow> namespace \<Rightarrow> string \<Rightarrow> u64 \<Rightarrow> (container, unit) op" where
  "fs_truncate sha ns path n =
     needS (unat n \<le> file_limit) limit_message (edit_content sha ns path (truncate_edit n))"

definition cut :: "bytes \<Rightarrow> u64 \<Rightarrow> u64 \<Rightarrow> bytes" where
  "cut data offset count = (if length data \<le> unat offset \<or> count = 0 then []
     else take (min (unat count) (length data - unat offset)) (drop (unat offset) data))"

definition fs_read_at :: "namespace \<Rightarrow> string \<Rightarrow> u64 \<Rightarrow> u64 \<Rightarrow> (container, bytes) op" where
  "fs_read_at ns path offset count =
     needS (offset \<le> int64_max) ''file offset exceeds signed 64-bit range'' (
     bindS (fs_read ns path) (\<lambda>data. returnS (cut data offset count)))"

section \<open>Directories and attributes\<close>

definition fs_list :: "namespace \<Rightarrow> string \<Rightarrow> (container, string list) op" where
  "fs_list ns path = readS ns (\<lambda>R.
     bindR (resolve R path True) (\<lambda>i. bindR (get_inode R i) (\<lambda>n.
     need (i_directory n) ''path is not a directory'' (
     bindR (rd_keys R (directory_prefix i)) (\<lambda>ks.
     Inr (map (drop (length (directory_prefix i))) ks))))))"

definition fs_stat :: "namespace \<Rightarrow> string \<Rightarrow> (container, inode) op" where
  "fs_stat ns path = readS ns (\<lambda>R. bindR (resolve R path True) (get_inode R))"

definition fs_lstat :: "namespace \<Rightarrow> string \<Rightarrow> (container, inode) op" where
  "fs_lstat ns path = readS ns (\<lambda>R. bindR (resolve R path False) (get_inode R))"

definition fs_readlink :: "namespace \<Rightarrow> string \<Rightarrow> (container, string) op" where
  "fs_readlink ns path = readS ns (\<lambda>R.
     bindR (resolve R path False) (\<lambda>i. bindR (get_inode R i) (\<lambda>n.
     need (i_symlink n) ''path is not a symbolic link'' (
     bindR (rd_get R (content_key i)) (\<lambda>b.
     need (of_nat (length b) = i_size n) ''symlink size mismatch'' (
     bindR (target_components b) (\<lambda>_. Inr b)))))))"

record attributes =
  at_mode :: "nat option"
  at_modified :: "u64 option"
  at_size :: "u64 option"

abbreviation no_attributes :: "attributes \<Rightarrow> bool" where
  "no_attributes a \<equiv> at_mode a = None \<and> at_modified a = None \<and> at_size a = None"

definition valid_attributes :: "attributes \<Rightarrow> unit res" where
  "valid_attributes a =
     need (case at_mode a of None \<Rightarrow> True | Some m \<Rightarrow> m \<le> 511) ''unsupported mode bits'' (
     need (case at_size a of None \<Rightarrow> True | Some n \<Rightarrow> unat n \<le> file_limit) limit_message (
     need (case at_modified a of None \<Rightarrow> True | Some t \<Rightarrow> t \<le> int64_max) ''mtime exceeds supported nanosecond range'' (
     Inr ())))"

definition apply_attributes :: "inode \<Rightarrow> attributes \<Rightarrow> (container, inode) op" where
  "apply_attributes n a =
     (let n = (case at_mode a of None \<Rightarrow> n | Some m \<Rightarrow> n\<lparr>i_mode := m\<rparr>);
          n = (case at_modified a of None \<Rightarrow> n | Some t \<Rightarrow> n\<lparr>i_modified := t\<rparr>) in
      bindS now (\<lambda>t. returnS (n\<lparr>i_changed := t\<rparr>)))"

text \<open>The size part of an attribute change, on the contents under \<open>key\<close>.\<close>

definition resize_content ::
    "string \<Rightarrow> bytes res \<Rightarrow> attributes \<Rightarrow> inode \<Rightarrow> (container, inode \<times> changes) op" where
  "resize_content key content a n = (case at_size a of
       None \<Rightarrow> returnS (n, [])
     | Some k \<Rightarrow>
         bindS (liftS content) (\<lambda>data.
         needS (of_nat (length data) = i_size n) ''inode size mismatch'' (
         if i_size n = k then returnS (n, [])
         else bindS (touch (n\<lparr>i_size := k\<rparr>)) (\<lambda>n. returnS (n, put key (Some (resize data (unat k))) [])))))"

definition fs_set_attributes :: "(bytes \<Rightarrow> oid) \<Rightarrow> namespace \<Rightarrow> string \<Rightarrow> attributes \<Rightarrow> (container, unit) op" where
  "fs_set_attributes sha ns path a =
     bindS (liftS (valid_attributes a)) (\<lambda>_.
     update sha ns (\<lambda>R.
       bindS (liftS (resolve R path True)) (\<lambda>i. bindS (liftS (get_inode R i)) (\<lambda>n.
       if no_attributes a then returnS ([], ())
       else if at_size a = Some (i_size n) \<and> at_mode a = None \<and> at_modified a = None then returnS ([], ())
       else
         needS (at_size a = None \<or> \<not> i_directory n \<and> \<not> i_symlink n) ''only regular files support size changes'' (
         bindS (resize_content (content_key i) (rd_get R (content_key i)) a n) (\<lambda>(n, c).
         bindS (apply_attributes n a) (\<lambda>n.
         returnS (put (inode_key i) (Some (encode_inode n)) c, ()))))))))"

section \<open>Directory cursors\<close>

record dir_cursor =
  dc_lifetime :: nat
  dc_view :: string
  dc_prefix :: string
  dc_after :: string
  dc_revision :: bool
  dc_done :: bool
  dc_manifest :: oid
  dc_pin :: nat

record dir_page =
  dp_names :: "string list"
  dp_eof :: bool
  dp_entries :: "(string \<times> inode) list"

definition open_directory :: "namespace \<Rightarrow> string \<Rightarrow> (container, dir_cursor) op" where
  "open_directory ns path =
     bindS getS (\<lambda>c. let j = ct_journal c in
     needS (j_leveldb j) ''directory cursors require LevelDB'' (
     bindS (viewS ns) (\<lambda>v. let R = view_reader j v in
     bindS (liftS (resolve R path True)) (\<lambda>i. bindS (liftS (get_inode R i)) (\<lambda>n.
     needS (i_directory n) ''path is not a directory'' (
     bindS (if v = Legacy then
              bindS (liftS (rd_keys R (directory_prefix i))) (\<lambda>ks.
              needS (ks = []) ''flat namespace directory is not empty'' (returnS (True, 0)))
            else bindS (liftS (if ns_revision ns then revision_manifest j (ns_view ns)
                               else j_root_object j (world_key (ns_view ns)))) (\<lambda>m. returnS (False, m))) (\<lambda>(finished, manifest).
     bindS (modifyS (\<lambda>c. c\<lparr>ct_pins := ct_pins c @ [ct_next_pin c], ct_next_pin := Suc (ct_next_pin c)\<rparr>)) (\<lambda>_.
     returnS \<lparr>dc_lifetime = ct_lifetime c, dc_view = ns_view ns, dc_prefix = directory_prefix i, dc_after = [],
       dc_revision = ns_revision ns, dc_done = finished, dc_manifest = manifest, dc_pin = ct_next_pin c\<rparr>))))))))"

text \<open>Destroying a cursor releases its pin.\<close>

definition close_directory :: "dir_cursor \<Rightarrow> container \<Rightarrow> container" where
  "close_directory d c = c\<lparr>ct_pins := removeAll (dc_pin d) (ct_pins c)\<rparr>"

definition cursor_check :: "namespace \<Rightarrow> dir_cursor \<Rightarrow> container \<Rightarrow> bool" where
  "cursor_check ns d c \<longleftrightarrow> dc_lifetime d = ct_lifetime c \<and> dc_view d = ns_view ns \<and> dc_revision d = ns_revision ns"

definition read_directory ::
    "namespace \<Rightarrow> dir_cursor \<Rightarrow> nat \<Rightarrow> bool \<Rightarrow> (container, dir_cursor \<times> dir_page) op" where
  "read_directory ns d limit attrs =
     needS (1 \<le> limit \<and> limit \<le> 1024) ''directory page limit must be 1..1024'' (
     bindS getS (\<lambda>c. let j = ct_journal c in
     needS (cursor_check ns d c) ''directory cursor belongs to another repository/view'' (
     if dc_done d then returnS (d, \<lparr>dp_names = [], dp_eof = True, dp_entries = []\<rparr>)
     else
       bindS (liftS (load_view j (dc_manifest d) True)) (\<lambda>v. let R = view_reader j v in
       bindS (liftS (view_page j v (dc_prefix d) (dc_after d) (limit + 1))) (\<lambda>ks.
       let eof = length ks \<le> limit; ks = take limit ks; name = drop (length (dc_prefix d)) in
       bindS (liftS (if attrs then mapR (\<lambda>key. bindR (rd_get R key) (\<lambda>b. bindR (decode_id b) (\<lambda>i.
                       bindR (get_inode R i) (\<lambda>n. Inr (name key, n))))) ks else Inr [])) (\<lambda>entries.
       returnS (d\<lparr>dc_after := (if ks = [] then dc_after d else last ks), dc_done := eof\<rparr>,
         \<lparr>dp_names = map name ks, dp_eof = eof, dp_entries = entries\<rparr>)))))))"

definition rewind_directory :: "namespace \<Rightarrow> dir_cursor \<Rightarrow> (container, dir_cursor) op" where
  "rewind_directory ns d =
     bindS getS (\<lambda>c.
     needS (cursor_check ns d c) ''directory cursor belongs to another repository/view'' (
     returnS (d\<lparr>dc_after := [], dc_done := (dc_manifest d = 0)\<rparr>)))"

section \<open>Links, removal and renaming\<close>

definition fs_link :: "(bytes \<Rightarrow> oid) \<Rightarrow> namespace \<Rightarrow> string \<Rightarrow> string \<Rightarrow> (container, unit) op" where
  "fs_link sha ns source target =
     update sha ns (\<lambda>R.
       bindS (liftS (resolve R source False)) (\<lambda>i. bindS (liftS (get_inode R i)) (\<lambda>n.
       needS (\<not> i_directory n) ''directory hard links are forbidden'' (
       bindS (liftS (parent_of R target)) (\<lambda>(p, _).
       bindS (liftS (rd_contains R (pa_key p))) (\<lambda>there.
       needS (\<not> there) ''target already exists'' (
       needS (i_links n < - 1) ''link count exhausted'' (
       bindS now (\<lambda>t.
       bindS (liftS (get_inode R (pa_id p))) (\<lambda>pn. bindS (touch pn) (\<lambda>pn.
       bindS (liftS (put_entry (pa_key p) i [])) (\<lambda>c.
       returnS (put_allocated i (put (inode_key (pa_id p)) (Some (encode_inode pn))
         (put (inode_key i) (Some (encode_inode (n\<lparr>i_links := i_links n + 1, i_changed := t\<rparr>))) c)), ())))))))))))))"

definition fs_remove :: "(bytes \<Rightarrow> oid) \<Rightarrow> namespace \<Rightarrow> string \<Rightarrow> bool \<Rightarrow> (container, unit) op" where
  "fs_remove sha ns path directory =
     update sha ns (\<lambda>R.
       bindS (liftS (parent_of R path)) (\<lambda>(p, _).
       bindS (liftS (rd_contains R (pa_key p))) (\<lambda>there.
       needS there ''path not found'' (
       bindS (liftS (bindR (rd_get R (pa_key p)) decode_id)) (\<lambda>i.
       bindS (liftS (get_inode R i)) (\<lambda>n. bindS (liftS (get_inode R (pa_id p))) (\<lambda>pn.
       needS (i_directory n = directory) ''wrong removal operation for inode type'' (
       bindS (if directory then
                bindS (liftS (rd_keys R (directory_prefix i))) (\<lambda>ks.
                needS (ks = []) ''directory is not empty'' (returnS (pn\<lparr>i_links := i_links pn - 1\<rparr>)))
              else returnS pn) (\<lambda>pn.
       let c = put (pa_key p) None [] in
       bindS (if directory \<or> i_links n = 1 then retire ns R n c else drop_link n c) (\<lambda>c.
       bindS (touch pn) (\<lambda>pn.
       returnS (put (inode_key (pa_id p)) (Some (encode_inode pn)) c, ()))))))))))))"

text \<open>The inode a rename replaces: the changes that retire or unlink it, and whether the target
  directory loses a subdirectory; \<open>None\<close> when both names are the same inode.\<close>

definition replace_target ::
    "namespace \<Rightarrow> reader \<Rightarrow> parent \<Rightarrow> string \<Rightarrow> inode \<Rightarrow> (container, (changes \<times> bool) option) op" where
  "replace_target ns R dst i n =
     bindS (liftS (rd_contains R (pa_key dst))) (\<lambda>there.
     if \<not> there then returnS (Some ([], False))
     else
       bindS (liftS (bindR (rd_get R (pa_key dst)) decode_id)) (\<lambda>replaced.
       if replaced = i then returnS None
       else
         bindS (liftS (get_inode R replaced)) (\<lambda>other.
         needS (i_directory other = i_directory n) ''rename inode types differ'' (
         bindS (if i_directory other then
                  bindS (liftS (rd_keys R (directory_prefix replaced))) (\<lambda>ks.
                  needS (ks = []) ''target directory is not empty'' (returnS ()))
                else returnS ()) (\<lambda>_.
         bindS (if i_directory other \<or> i_links other = 1 then retire ns R other [] else drop_link other []) (\<lambda>c.
         returnS (Some (c, i_directory other))))))))"

definition fs_rename :: "(bytes \<Rightarrow> oid) \<Rightarrow> namespace \<Rightarrow> string \<Rightarrow> string \<Rightarrow> (container, unit) op" where
  "fs_rename sha ns source target =
     update sha ns (\<lambda>R.
       bindS (liftS (parent_of R source)) (\<lambda>(src, _).
       bindS (liftS (rd_contains R (pa_key src))) (\<lambda>there.
       needS there ''source not found'' (
       bindS (liftS (bindR (rd_get R (pa_key src)) decode_id)) (\<lambda>i.
       bindS (liftS (get_inode R i)) (\<lambda>n.
       bindS (liftS (parent_of R target)) (\<lambda>(dst, ancestry).
       if pa_key src = pa_key dst then returnS ([], ())
       else
         needS (\<not> i_directory n \<or> i \<notin> set ancestry) ''cannot move directory into itself'' (
         bindS (liftS (get_inode R (pa_id src))) (\<lambda>sn. bindS (liftS (get_inode R (pa_id dst))) (\<lambda>dn.
         let parents = emplace (pa_id dst) dn (put (pa_id src) sn []) in
         bindS (replace_target ns R dst i n) (\<lambda>outcome. case outcome of
           None \<Rightarrow> returnS ([], ())
         | Some (c, lost) \<Rightarrow>
             let links = (\<lambda>k d ps. case map_of ps k of None \<Rightarrow> ps | Some m \<Rightarrow> put k (m\<lparr>i_links := i_links m + d\<rparr>) ps);
                 parents = (if lost then links (pa_id dst) (- 1) parents else parents);
                 moved = (i_directory n \<and> pa_id src \<noteq> pa_id dst);
                 parents = (if moved then links (pa_id src) (- 1) parents else parents) in
             needS (\<not> moved \<or> (case map_of parents (pa_id dst) of None \<Rightarrow> False | Some m \<Rightarrow> i_links m < - 1))
               ''directory link count exhausted'' (
             let parents = (if moved then links (pa_id dst) 1 parents else parents) in
             bindS (liftS (put_entry (pa_key dst) i (put (pa_key src) None c))) (\<lambda>c.
             bindS now (\<lambda>t.
             bindS (foldS (\<lambda>(k, m) c. bindS (touch m) (\<lambda>m. returnS (put (inode_key k) (Some (encode_inode m)) c))) parents
                 (put (inode_key i) (Some (encode_inode (n\<lparr>i_changed := t\<rparr>))) c)) (\<lambda>c.
             returnS (c, ()))))))))))))))))"

section \<open>Verification\<close>

record survey =
  sv_expected :: "string set"
  sv_references :: "(string, u64) smap"
  sv_directories :: "string set"

text \<open>The recursion visits each directory once, and an identity has 32 hexadecimal digits, so the
  depth is at most the number of identities and one leaf.\<close>

abbreviation visit_fuel :: nat where "visit_fuel \<equiv> 16 ^ 32 + 2"

primrec visit :: "nat \<Rightarrow> reader \<Rightarrow> string \<Rightarrow> survey \<Rightarrow> survey res" where
  "visit 0 R i s = Inl (Runtime_error ''out of fuel'')"
| "visit (Suc fuel) R i s =
     bindR (get_inode R i) (\<lambda>n.
     let s = s\<lparr>sv_expected := insert (inode_key i) (sv_expected s)\<rparr> in
     bindR (rd_contains R (allocated_key i)) (\<lambda>there.
     need there ''inode missing allocation record'' (
     bindR (rd_get R (allocated_key i)) (\<lambda>b.
     need (b = []) ''inode missing allocation record'' (
     if \<not> i_directory n then
       bindR (rd_get R (content_key i)) (\<lambda>data.
       need (of_nat (length data) = i_size n) ''inode content size mismatch'' (
       bindR (if i_symlink n then target_components data else Inr []) (\<lambda>_.
       Inr (s\<lparr>sv_expected := insert (content_key i) (sv_expected s)\<rparr>))))
     else
       need (i \<notin> sv_directories s) ''directory cycle or hardlink'' (
       let pre = directory_prefix i in
       bindR (rd_keys R pre) (\<lambda>ks.
       bindR (foldR (\<lambda>key (s, subdirs).
           bindR (components (CHR ''/'' # drop (length pre) key)) (\<lambda>parsed.
           need (length parsed = 1) ''invalid directory name'' (
           bindR (rd_get R key) (\<lambda>b. bindR (decode_id b) (\<lambda>child.
           bindR (get_inode R child) (\<lambda>cn.
           let count = (case map_of (sv_references s) child of None \<Rightarrow> 0 | Some k \<Rightarrow> k) in
           bindR (visit fuel R child (s\<lparr>sv_expected := insert key (sv_expected s),
               sv_references := put child (count + 1) (sv_references s)\<rparr>)) (\<lambda>s.
           Inr (s, if i_directory cn then subdirs + 1 else subdirs))))))))
         ks (s\<lparr>sv_directories := insert i (sv_directories s)\<rparr>, 0)) (\<lambda>(s, subdirs).
       need (i_links n = 2 + subdirs) ''directory link count mismatch'' (Inr s)))))))))"

definition check_links :: "reader \<Rightarrow> string \<times> u64 \<Rightarrow> unit \<Rightarrow> unit res" where
  "check_links R = (\<lambda>(i, count) _. bindR (get_inode R i) (\<lambda>n.
     need (i_directory n \<or> i_links n = count) ''file link count mismatch'' (Inr ())))"

definition check_allocation :: "reader \<Rightarrow> string \<Rightarrow> string set \<Rightarrow> string set res" where
  "check_allocation R key expected =
     need (valid_id (drop (length allocations) key)) ''invalid allocation record'' (
     bindR (rd_get R key) (\<lambda>b. need (b = []) ''invalid allocation record'' (Inr (insert key expected))))"

definition check_orphan :: "namespace \<Rightarrow> container \<Rightarrow> reader \<Rightarrow> string \<Rightarrow> string set \<Rightarrow> string set res" where
  "check_orphan ns c R key checked =
     (let relative = drop (length (history @ ''orphan/'' @ ns_view ns @ ''/'')) key; i = take 32 relative; j = ct_journal c in
      need (33 \<le> length relative \<and> valid_id i \<and> relative ! 32 = CHR ''/'') ''invalid orphan root'' (
      need (drop 33 relative = ''inode'' \<or> drop 33 relative = ''content'') ''invalid orphan field'' (
      if i \<in> checked then Inr checked
      else
        need (case map_of (ct_counts c) (ns_view ns, i) of None \<Rightarrow> False | Some k \<Rightarrow> 0 < k) ''orphan lacks an open handle'' (
        bindR (rd_contains R (inode_key i)) (\<lambda>linked.
        need (\<not> linked) ''orphan also appears in World tree'' (
        bindR (j_get j (orphan_prefix (ns_view ns) i @ ''inode'')) (\<lambda>b. bindR (decode_inode b i True) (\<lambda>n.
        bindR (j_get j (orphan_prefix (ns_view ns) i @ ''content'')) (\<lambda>data.
        need (of_nat (length data) = i_size n) ''orphan content size mismatch'' (Inr (insert i checked)))))))))))"

definition fs_verify :: "(bytes \<Rightarrow> oid) \<Rightarrow> namespace \<Rightarrow> (container, unit) op" where
  "fs_verify sha ns =
     bindS getS (\<lambda>c. let j = ct_journal c in
     bindS (viewS ns) (\<lambda>v. let R = view_reader j v in
     bindS (if j_leveldb j then bindS (liftS (view_references sha j v)) (\<lambda>_. returnS ()) else returnS ()) (\<lambda>_.
     bindS (liftS (root_id R)) (\<lambda>r. bindS (liftS (get_inode R r)) (\<lambda>n.
     needS (i_directory n) ''root inode is not a directory'' (
     bindS (liftS (visit visit_fuel R r \<lparr>sv_expected = {root_key}, sv_references = [], sv_directories = {}\<rparr>)) (\<lambda>s.
     bindS (liftS (foldR (check_links R) (sv_references s) ())) (\<lambda>_.
     bindS (liftS (rd_keys R allocations)) (\<lambda>ks.
     bindS (liftS (foldR (check_allocation R) ks (sv_expected s))) (\<lambda>expected.
     bindS (liftS (rd_keys R forkfs_prefix)) (\<lambda>actual.
     needS (length actual = card expected) ''orphan namespace records'' (
     needS (\<forall>key \<in> set actual. key \<in> expected) ''unexpected namespace record'' (
     if ns_revision ns then returnS ()
     else bindS (liftS (foldR (check_orphan ns c R) (j_keys j (history @ ''orphan/'' @ ns_view ns @ ''/'')) {})) (\<lambda>_. returnS ()))))))))))))))"

section \<open>From an inode to a path\<close>

record pending_path =
  pp_inode :: string
  pp_path :: string
  pp_too_long :: bool

text \<open>The children of a directory pushed on the stack, the last one on top.\<close>

definition push_child :: "reader \<Rightarrow> pending_path \<Rightarrow> string \<Rightarrow> pending_path list \<Rightarrow> pending_path list res" where
  "push_child R entry key pending =
     (let name = drop (length (directory_prefix (pp_inode entry))) key in
      bindR (rd_get R key) (\<lambda>b. bindR (decode_id b) (\<lambda>child.
      let n = length (pp_path entry); separator = (if pp_path entry = ''/'' then 0 else 1) in
      if pp_too_long entry \<or> n + separator > 4096 \<or> length name > 4096 - n - separator
      then Inr (\<lparr>pp_inode = child, pp_path = [], pp_too_long = True\<rparr> # pending)
      else Inr (\<lparr>pp_inode = child, pp_path = (if pp_path entry = ''/'' then pp_path entry @ name else pp_path entry @ ''/'' @ name),
                 pp_too_long = False\<rparr> # pending))))"

text \<open>The set of directory identities still to visit is finite, so the loop ends; an identity that is
  not one is not reached.\<close>

definition identities :: "string set" where
  "identities = {i. valid_id i}"

lemma finite_identities: "finite identities"
proof -
  have "identities \<subseteq> {xs. set xs \<subseteq> UNIV \<and> length xs = 32}" by (auto simp: identities_def valid_id_def)
  then show ?thesis by (rule finite_subset [OF _ finite_lists_length_eq]) (rule finite_class.finite_UNIV)
qed

function path_loop :: "reader \<Rightarrow> string \<Rightarrow> pending_path list \<Rightarrow> string set \<Rightarrow> bool \<Rightarrow> string res" where
  "path_loop R i pending visited found_too_long =
     (case pending of
        [] \<Rightarrow> Inl (Runtime_error (if found_too_long then ''path exceeds mount protocol limit'' else ''inode is no longer linked''))
      | entry # pending \<Rightarrow>
          if pp_inode entry = i \<and> \<not> pp_too_long entry then Inr (pp_path entry)
          else
            let found_too_long = (found_too_long \<or> pp_inode entry = i) in
            bindR (get_inode R (pp_inode entry)) (\<lambda>n.
            if \<not> i_directory n then path_loop R i pending visited found_too_long
            else
              need (valid_id (pp_inode entry) \<and> pp_inode entry \<notin> visited) ''invalid directory cycle or hardlink'' (
              bindR (rd_keys R (directory_prefix (pp_inode entry))) (\<lambda>ks.
              bindR (foldR (push_child R entry) ks pending) (\<lambda>pending.
              path_loop R i pending (insert (pp_inode entry) visited) found_too_long)))))"
  by pat_completeness auto
termination
proof (relation "measures [\<lambda>(R, i, pending, visited, f). card (identities - visited), \<lambda>(R, i, pending, visited, f). length pending]", goal_cases)
  case (3 R i pending visited f entry rest g n u v)
  then have "pp_inode entry \<in> identities - visited" by (auto simp: identities_def split: if_splits)
  then have "card (identities - insert (pp_inode entry) visited) < card (identities - visited)"
    using finite_identities by (intro psubset_card_mono) auto
  then show ?case by simp
qed auto

declare path_loop.simps [simp del]

definition path_for_inode :: "namespace \<Rightarrow> string \<Rightarrow> (container, string) op" where
  "path_for_inode ns i =
     needS (valid_id i) ''invalid inode identity'' (
     readS ns (\<lambda>R. bindR (root_id R) (\<lambda>r.
       path_loop R i [\<lparr>pp_inode = r, pp_path = ''/'', pp_too_long = False\<rparr>] {} False)))"

end
