(* ===== verification/Namespace_Handles.thy ===== *)
theory Namespace_Handles
  imports Namespace_Files
begin

text \<open>
  \<^verbatim>\<open>daemon/namespace.cpp\<close>, open file handles: a handle pins its inode, also after the last link is
  gone (the inode then lives under an orphan root until the last handle closes); duplicated
  handles share a cursor, which holds the position and the advisory locks.
\<close>

section \<open>Handles\<close>

definition find_handle :: "namespace \<Rightarrow> container \<Rightarrow> string \<Rightarrow> open_handle res" where
  "find_handle ns c token = (case map_of (ct_handles c) token of
       None \<Rightarrow> Inl (Runtime_error ''invalid or expired file handle'')
     | Some h \<Rightarrow> need (h_view h = ns_view ns \<and> h_revision h = ns_revision ns) ''file handle belongs to another view'' (Inr h))"

definition handleS :: "namespace \<Rightarrow> string \<Rightarrow> (container, open_handle) op" where
  "handleS ns token c = (find_handle ns c token, c)"

definition count_up :: "string \<times> string \<Rightarrow> container \<Rightarrow> container" where
  "count_up k c = c\<lparr>ct_counts := put k (Suc (case map_of (ct_counts c) k of None \<Rightarrow> 0 | Some n \<Rightarrow> n)) (ct_counts c)\<rparr>"

definition count_down :: "string \<times> string \<Rightarrow> container \<Rightarrow> container" where
  "count_down k c = (case map_of (ct_counts c) k of None \<Rightarrow> c
     | Some n \<Rightarrow> if n \<le> 1 then c\<lparr>ct_counts := erase k (ct_counts c)\<rparr> else c\<lparr>ct_counts := put k (n - 1) (ct_counts c)\<rparr>)"

text \<open>A token that is neither the inode nor a live handle. The loop of the source repeats only while
  the entropy device returns an identity already in use (at most 4096 handles).\<close>

primrec fresh_token :: "nat \<Rightarrow> reader \<Rightarrow> string option \<Rightarrow> (container, string) op" where
  "fresh_token 0 R avoid = throwS (Runtime_error ''out of fuel'')"
| "fresh_token (Suc fuel) R avoid =
     bindS (new_id R) (\<lambda>token. bindS getS (\<lambda>c.
     if avoid = Some token \<or> map_of (ct_handles c) token \<noteq> None then fresh_token fuel R avoid else returnS token))"

abbreviation token_fuel :: nat where "token_fuel \<equiv> 8192"

datatype access = Read | Write | Read_write

record open_options =
  oo_create :: bool
  oo_exclusive :: bool
  oo_truncate :: bool
  oo_mode :: nat
  oo_append :: bool
  oo_nofollow :: bool

text \<open>The inode to open, and the changes that create it.\<close>

definition open_target :: "reader \<Rightarrow> string \<Rightarrow> open_options \<Rightarrow> (container, string \<times> changes) op" where
  "open_target R path opts =
     (if oo_create opts then
        bindS (liftS (parent_of R path)) (\<lambda>(p, _).
        bindS (liftS (rd_contains R (pa_key p))) (\<lambda>there.
        needS (\<not> there \<or> \<not> oo_exclusive opts) ''path already exists'' (
        bindS (if there then
                 bindS (liftS (bindR (rd_get R (pa_key p)) decode_id)) (\<lambda>raw. bindS (liftS (get_inode R raw)) (\<lambda>rn.
                 needS (\<not> oo_nofollow opts \<or> \<not> i_symlink rn) ''final symbolic link is forbidden'' (
                 liftS (resolve_or R path True True))))
               else returnS (Missing p)) (\<lambda>w. case w of
            Found stack \<Rightarrow> returnS (hd stack, [])
          | Missing p \<Rightarrow>
              bindS (new_id R) (\<lambda>i. bindS (fresh_inode i False (oo_mode opts) 1 0 False) (\<lambda>n.
              bindS (create_in R p n []) (\<lambda>c. returnS (i, c))))))))
      else
        bindS (liftS (resolve R path (\<not> oo_nofollow opts))) (\<lambda>i. bindS (liftS (get_inode R i)) (\<lambda>n.
        needS (\<not> oo_nofollow opts \<or> \<not> i_symlink n) ''final symbolic link is forbidden'' (returnS (i, [])))))"

definition open_truncate :: "reader \<Rightarrow> open_options \<Rightarrow> string \<Rightarrow> changes \<Rightarrow> (container, changes) op" where
  "open_truncate R opts i c =
     (if c \<noteq> [] then returnS c
      else bindS (liftS (get_inode R i)) (\<lambda>n.
        needS (\<not> i_directory n \<and> \<not> i_symlink n) ''only regular file handles are implemented'' (
        if oo_truncate opts \<and> i_size n \<noteq> 0 then
          bindS (touch (n\<lparr>i_size := 0\<rparr>)) (\<lambda>n. returnS (put_content i [] (put (inode_key i) (Some (encode_inode n)) [])))
        else returnS [])))"

definition reserve_handle :: "string \<Rightarrow> open_handle \<Rightarrow> container \<Rightarrow> container" where
  "reserve_handle token h c = c\<lparr>ct_handles := emplace token (h\<lparr>h_cursor := ct_next_cursor c\<rparr>) (ct_handles c),
     ct_cursors := (ct_cursors c)(ct_next_cursor c := \<lparr>fc_position = 0, fc_locks = []\<rparr>), ct_next_cursor := Suc (ct_next_cursor c)\<rparr>"

definition fs_open ::
    "(bytes \<Rightarrow> oid) \<Rightarrow> namespace \<Rightarrow> string \<Rightarrow> access \<Rightarrow> open_options \<Rightarrow> (container, string) op" where
  "fs_open sha ns path access opts =
     needS (\<not> oo_exclusive opts \<or> oo_create opts) ''exclusive open requires create'' (
     needS (\<not> oo_truncate opts \<or> access \<noteq> Read) ''truncate open requires writable access'' (
     needS (\<not> oo_append opts \<or> access \<noteq> Read) ''append open requires writable access'' (
     needS (oo_mode opts \<le> 511) ''invalid creation mode'' (
     needS (\<not> ns_revision ns \<or> access = Read \<and> \<not> oo_create opts \<and> \<not> oo_truncate opts) ''revision view is read-only'' (
     bindS getS (\<lambda>c. let j = ct_journal c in
     needS (j_leveldb j) ''file handles require the LevelDB backend'' (
     needS (length (ct_handles c) < 4096) ''file handle limit reached'' (
     bindS (viewS ns) (\<lambda>v. let R = view_reader j v in
     bindS (open_target R path opts) (\<lambda>(i, ch). bindS (open_truncate R opts i ch) (\<lambda>ch.
     bindS (fresh_token token_fuel R (Some i)) (\<lambda>token.
     bindS (modifyS (reserve_handle token \<lparr>h_view = ns_view ns, h_inode = i, h_revision = ns_revision ns,
         h_readable = (access \<noteq> Write), h_writable = (access \<noteq> Read), h_append = oo_append opts, h_cursor = 0\<rparr>)) (\<lambda>_.
     bindS (if ns_revision ns then returnS () else modifyS (count_up (ns_view ns, i))) (\<lambda>_.
     (\<lambda>c. case commit_changes sha ns v ch c of
         (Inr _, c) \<Rightarrow> (Inr token, c)
       | (Inl e, c) \<Rightarrow> (Inl e, (let c = (if ns_revision ns then c else count_down (ns_view ns, i) c) in
           c\<lparr>ct_handles := erase token (ct_handles c)\<rparr>)))))))))))))))))"

definition dup_handle :: "namespace \<Rightarrow> string \<Rightarrow> (container, string) op" where
  "dup_handle ns token =
     bindS (handleS ns token) (\<lambda>h. bindS getS (\<lambda>c.
     needS (length (ct_handles c) < 4096) ''file handle limit reached'' (
     bindS (viewS ns) (\<lambda>v.
     bindS (fresh_token token_fuel (view_reader (ct_journal c) v) None) (\<lambda>t.
     bindS (modifyS (\<lambda>c. c\<lparr>ct_handles := emplace t h (ct_handles c)\<rparr>)) (\<lambda>_.
     bindS (if ns_revision ns then returnS () else modifyS (count_up (ns_view ns, h_inode h))) (\<lambda>_.
     returnS t)))))))"

definition close_handle :: "(bytes \<Rightarrow> oid) \<Rightarrow> namespace \<Rightarrow> string \<Rightarrow> (container, unit) op" where
  "close_handle sha ns token =
     bindS (handleS ns token) (\<lambda>h.
     bindS (if h_revision h then returnS ()
            else bindS getS (\<lambda>c. case map_of (ct_counts c) (h_view h, h_inode h) of
                None \<Rightarrow> throwS (Runtime_error ''invalid open count'')
              | Some k \<Rightarrow>
                  needS (0 < k) ''invalid open count'' (
                  if k = 1 then
                    let pre = orphan_prefix (h_view h) (h_inode h) in
                    bindS (if j_contains (ct_journal c) (pre @ ''inode'')
                           then transact sha [value_mutation (pre @ ''inode'') None, value_mutation (pre @ ''content'') None]
                           else returnS ()) (\<lambda>_.
                    modifyS (\<lambda>c. c\<lparr>ct_counts := erase (h_view h, h_inode h) (ct_counts c)\<rparr>))
                  else modifyS (\<lambda>c. c\<lparr>ct_counts := put (h_view h, h_inode h) (k - 1) (ct_counts c)\<rparr>)))) (\<lambda>_.
     modifyS (\<lambda>c. c\<lparr>ct_handles := erase token (ct_handles c)\<rparr>)))"

section \<open>Advisory locks\<close>

datatype lock_mode = Shared | Exclusive | Unlock

abbreviation lock_end :: nat where "lock_end \<equiv> 2 ^ 63"

definition overlaps :: "nat \<Rightarrow> nat \<Rightarrow> lock_range \<Rightarrow> bool" where
  "overlaps start stop r \<longleftrightarrow> start < lr_end r \<and> lr_start r < stop"

definition lock_conflict :: "container \<Rightarrow> open_handle \<Rightarrow> nat \<Rightarrow> nat \<Rightarrow> nat \<Rightarrow> bool" where
  "lock_conflict c h start stop requested \<longleftrightarrow> (\<exists>(_, h') \<in> set (ct_handles c).
     \<not> (h_cursor h' = h_cursor h \<or> h_view h' \<noteq> h_view h \<or> h_revision h' \<noteq> h_revision h \<or> h_inode h' \<noteq> h_inode h) \<and>
     (\<exists>r \<in> set (fc_locks (ct_cursors c (h_cursor h'))). overlaps start stop r \<and> (requested = 2 \<or> lr_mode r = 2)))"

text \<open>A held range with the requested interval cut out.\<close>

definition cut_range :: "nat \<Rightarrow> nat \<Rightarrow> lock_range \<Rightarrow> lock_range list" where
  "cut_range start stop r =
     (if start \<ge> lr_end r \<or> lr_start r \<ge> stop then [r]
      else (if lr_start r < start then [r\<lparr>lr_end := start\<rparr>] else []) @ (if stop < lr_end r then [r\<lparr>lr_start := stop\<rparr>] else []))"

fun merge_ranges :: "lock_range list \<Rightarrow> lock_range list" where
  "merge_ranges (a # b # rest) =
     (if lr_end a = lr_start b \<and> lr_mode a = lr_mode b then merge_ranges (a\<lparr>lr_end := lr_end b\<rparr> # rest)
      else a # merge_ranges (b # rest))"
| "merge_ranges rest = rest"

definition next_locks :: "lock_mode \<Rightarrow> nat \<Rightarrow> nat \<Rightarrow> lock_range list \<Rightarrow> lock_range list" where
  "next_locks mode start stop held =
     merge_ranges (sort_key lr_start (concat (map (cut_range start stop) held) @
       (if mode = Unlock then [] else [\<lparr>lr_start = start, lr_end = stop, lr_mode = (if mode = Shared then 1 else 2)\<rparr>])))"

definition try_lock_range :: "namespace \<Rightarrow> string \<Rightarrow> lock_mode \<Rightarrow> nat \<Rightarrow> nat \<Rightarrow> (container, bool) op" where
  "try_lock_range ns token mode start len =
     needS (start < lock_end \<and> (len = 0 \<or> len \<le> lock_end - start)) ''lock range exceeds signed offset space'' (
     let stop = (if len = 0 then lock_end else start + len) in
     bindS (handleS ns token) (\<lambda>h. bindS getS (\<lambda>c.
     if mode \<noteq> Unlock \<and> lock_conflict c h start stop (if mode = Shared then 1 else 2) then returnS False
     else
       let cur = ct_cursors c (h_cursor h); locks = next_locks mode start stop (fc_locks cur) in
       needS (length locks \<le> 128) ''open description lock range limit reached'' (
       bindS (modifyS (\<lambda>c. c\<lparr>ct_cursors := (ct_cursors c)(h_cursor h := cur\<lparr>fc_locks := locks\<rparr>)\<rparr>)) (\<lambda>_.
       returnS True)))))"

definition try_lock :: "namespace \<Rightarrow> string \<Rightarrow> lock_mode \<Rightarrow> (container, bool) op" where
  "try_lock ns token mode = try_lock_range ns token mode 0 0"

section \<open>Positions and contents\<close>

datatype seek_origin = From_start | From_current | From_end

definition orphan_inode :: "journal \<Rightarrow> namespace \<Rightarrow> string \<Rightarrow> inode res" where
  "orphan_inode j ns i = bindR (j_get j (orphan_prefix (ns_view ns) i @ ''inode'')) (\<lambda>b. decode_inode b i True)"

definition set_position :: "nat \<Rightarrow> u64 \<Rightarrow> container \<Rightarrow> container" where
  "set_position k p c = c\<lparr>ct_cursors := (ct_cursors c)(k := (ct_cursors c k)\<lparr>fc_position := p\<rparr>)\<rparr>"

definition seek :: "namespace \<Rightarrow> string \<Rightarrow> int \<Rightarrow> seek_origin \<Rightarrow> (container, u64) op" where
  "seek ns token offset origin =
     bindS (handleS ns token) (\<lambda>h. bindS getS (\<lambda>c. let j = ct_journal c in
     bindS (case origin of
         From_start \<Rightarrow> returnS 0
       | From_current \<Rightarrow> returnS (fc_position (ct_cursors c (h_cursor h)))
       | From_end \<Rightarrow> bindS (viewS ns) (\<lambda>v. let R = view_reader j v in
           liftS (bindR (rd_contains R (inode_key (h_inode h))) (\<lambda>linked.
             bindR (if linked then get_inode R (h_inode h) else orphan_inode j ns (h_inode h)) (\<lambda>n. Inr (i_size n)))))) (\<lambda>base.
     needS (base \<le> int64_max) ''file position overflow'' (
     bindS (if offset < 0 then
              needS (nat (- offset) \<le> unat base) ''negative file position'' (returnS (base - of_nat (nat (- offset))))
            else needS (nat offset \<le> unat int64_max - unat base) ''file position overflow'' (returnS (base + of_nat (nat offset)))) (\<lambda>p.
     bindS (modifyS (set_position (h_cursor h) p)) (\<lambda>_. returnS p))))))"

definition handle_data :: "journal \<Rightarrow> namespace \<Rightarrow> reader \<Rightarrow> string \<Rightarrow> (bool \<times> inode \<times> bytes) res" where
  "handle_data j ns R i =
     bindR (rd_contains R (inode_key i)) (\<lambda>linked.
     if linked then bindR (get_inode R i) (\<lambda>n. bindR (rd_get R (content_key i)) (\<lambda>b. Inr (True, n, b)))
     else bindR (orphan_inode j ns i) (\<lambda>n. bindR (j_get j (orphan_prefix (ns_view ns) i @ ''content'')) (\<lambda>b. Inr (False, n, b))))"

definition read_handle :: "namespace \<Rightarrow> open_handle \<Rightarrow> u64 \<Rightarrow> u64 \<Rightarrow> (container, bytes) op" where
  "read_handle ns h offset count =
     bindS (viewS ns) (\<lambda>v. bindS getS (\<lambda>c. let j = ct_journal c; R = view_reader j v in
     bindS (liftS (bindR (rd_contains R (inode_key (h_inode h))) (\<lambda>linked.
       need (linked \<or> \<not> ns_revision ns) ''revision inode missing'' (handle_data j ns R (h_inode h))))) (\<lambda>(_, n, data).
     needS (of_nat (length data) = i_size n) ''inode size mismatch'' (returnS (cut data offset count)))))"

definition handle_read :: "namespace \<Rightarrow> string \<Rightarrow> u64 \<Rightarrow> u64 \<Rightarrow> (container, bytes) op" where
  "handle_read ns token offset count =
     needS (offset \<le> int64_max) ''file offset exceeds signed 64-bit range'' (
     bindS (handleS ns token) (\<lambda>h. needS (h_readable h) ''handle is not readable'' (read_handle ns h offset count)))"

definition handle_read_next :: "namespace \<Rightarrow> string \<Rightarrow> u64 \<Rightarrow> (container, bytes) op" where
  "handle_read_next ns token count =
     bindS (handleS ns token) (\<lambda>h. needS (h_readable h) ''handle is not readable'' (
     bindS getS (\<lambda>c. let p = fc_position (ct_cursors c (h_cursor h)) in
     bindS (read_handle ns h p count) (\<lambda>data.
     bindS (modifyS (set_position (h_cursor h) (p + of_nat (length data)))) (\<lambda>_. returnS data)))))"

definition handle_stat :: "namespace \<Rightarrow> string \<Rightarrow> (container, inode) op" where
  "handle_stat ns token =
     bindS (handleS ns token) (\<lambda>h. bindS (viewS ns) (\<lambda>v. bindS getS (\<lambda>c. let j = ct_journal c; R = view_reader j v in
     bindS (liftS (rd_contains R (inode_key (h_inode h)))) (\<lambda>linked.
     if linked then liftS (get_inode R (h_inode h))
     else needS (\<not> ns_revision ns) ''revision inode missing'' (liftS (orphan_inode j ns (h_inode h)))))))"

text \<open>\<open>edit_handle\<close>: the edit sees the cursor and the append flag; \<open>committed\<close> runs after the commit.\<close>

definition edit_handle ::
    "(bytes \<Rightarrow> oid) \<Rightarrow> namespace \<Rightarrow> string \<Rightarrow> (file_cursor \<Rightarrow> bool \<Rightarrow> bytes \<Rightarrow> (bytes option \<times> 'a) res) \<Rightarrow>
      (open_handle \<Rightarrow> 'a \<Rightarrow> container \<Rightarrow> container) \<Rightarrow> (container, 'a) op" where
  "edit_handle sha ns token edit committed =
     needS (\<not> ns_revision ns) ''revision view is read-only'' (
     bindS (viewS ns) (\<lambda>v. bindS (handleS ns token) (\<lambda>h.
     needS (h_writable h) ''handle is not writable'' (
     bindS getS (\<lambda>c. let j = ct_journal c; R = view_reader j v; i = h_inode h; pre = orphan_prefix (ns_view ns) i in
     bindS (liftS (handle_data j ns R i)) (\<lambda>(linked, n, data).
     needS (of_nat (length data) = i_size n) ''inode size mismatch'' (
     bindS (liftS (edit (ct_cursors c (h_cursor h)) (h_append h) data)) (\<lambda>(new, r).
     bindS (case new of
         None \<Rightarrow> returnS []
       | Some data \<Rightarrow>
           needS (length data \<le> file_limit) limit_message (
           bindS (touch (n\<lparr>i_size := of_nat (length data)\<rparr>)) (\<lambda>n.
           returnS (put (if linked then content_key i else pre @ ''content'') (Some data)
             (put (if linked then inode_key i else pre @ ''inode'') (Some (encode_inode n)) []))))) (\<lambda>ch.
     bindS (commit_changes sha ns v ch) (\<lambda>_.
     bindS (modifyS (committed h r)) (\<lambda>_. returnS r)))))))))))"

definition write_edit :: "nat \<Rightarrow> bytes \<Rightarrow> bytes \<Rightarrow> bytes option res" where
  "write_edit actual v data =
     (if v = [] then Inr None
      else need (actual \<le> file_limit \<and> length v \<le> file_limit - actual) limit_message (
        Inr (Some (overwrite data actual v))))"

definition handle_write :: "(bytes \<Rightarrow> oid) \<Rightarrow> namespace \<Rightarrow> string \<Rightarrow> u64 \<Rightarrow> bytes \<Rightarrow> (container, unit) op" where
  "handle_write sha ns token offset v =
     needS (offset \<le> int64_max) ''file offset exceeds signed 64-bit range'' (
     needS (length v \<le> file_limit) limit_message (
     edit_handle sha ns token (\<lambda>cur append data.
         bindR (write_edit (if append then length data else unat offset) v data) (\<lambda>new. Inr (new, ())))
       (\<lambda>h r c. c)))"

definition handle_append :: "(bytes \<Rightarrow> oid) \<Rightarrow> namespace \<Rightarrow> string \<Rightarrow> bytes \<Rightarrow> (container, nat) op" where
  "handle_append sha ns token v =
     needS (length v \<le> file_limit) limit_message (edit_handle sha ns token (\<lambda>cur append. append_edit v) (\<lambda>h r c. c))"

definition handle_truncate :: "(bytes \<Rightarrow> oid) \<Rightarrow> namespace \<Rightarrow> string \<Rightarrow> u64 \<Rightarrow> (container, unit) op" where
  "handle_truncate sha ns token n =
     needS (unat n \<le> file_limit) limit_message (edit_handle sha ns token (\<lambda>cur append. truncate_edit n) (\<lambda>h r c. c))"

definition handle_write_next :: "(bytes \<Rightarrow> oid) \<Rightarrow> namespace \<Rightarrow> string \<Rightarrow> bytes \<Rightarrow> (container, nat) op" where
  "handle_write_next sha ns token v =
     needS (length v \<le> file_limit) limit_message (
     bindS (edit_handle sha ns token (\<lambda>cur append data.
         let actual = (if append then length data else unat (fc_position cur)) in
         bindR (write_edit actual v data) (\<lambda>new.
         Inr (new, if v = [] then fc_position cur else of_nat (actual + length v))))
       (\<lambda>h p. set_position (h_cursor h) p)) (\<lambda>_. returnS (length v)))"

definition handle_set_attributes :: "(bytes \<Rightarrow> oid) \<Rightarrow> namespace \<Rightarrow> string \<Rightarrow> attributes \<Rightarrow> (container, unit) op" where
  "handle_set_attributes sha ns token a =
     bindS (liftS (valid_attributes a)) (\<lambda>_.
     needS (\<not> ns_revision ns) ''revision view is read-only'' (
     bindS (handleS ns token) (\<lambda>h. bindS (viewS ns) (\<lambda>v. bindS getS (\<lambda>c.
     let j = ct_journal c; R = view_reader j v; i = h_inode h; pre = orphan_prefix (ns_view ns) i in
     bindS (liftS (rd_contains R (inode_key i))) (\<lambda>linked.
     bindS (liftS (if linked then get_inode R i else orphan_inode j ns i)) (\<lambda>n.
     needS (at_size a = None \<or> h_writable h) ''handle is not writable'' (
     if no_attributes a then returnS ()
     else if at_size a = Some (i_size n) \<and> at_mode a = None \<and> at_modified a = None then returnS ()
     else
       bindS (resize_content (if linked then content_key i else pre @ ''content'')
           (if linked then rd_get R (content_key i) else j_get j (pre @ ''content'')) a n) (\<lambda>(n, ch).
       bindS (apply_attributes n a) (\<lambda>n.
       commit_changes sha ns v (put (if linked then inode_key i else pre @ ''inode'') (Some (encode_inode n)) ch)))))))))))"

section \<open>Recovery\<close>

definition orphan_root_ok :: "string \<Rightarrow> unit res" where
  "orphan_root_ok key =
     (let relative = drop (length (history @ ''orphan/'')) key; world = takeWhile (\<lambda>ch. ch \<noteq> CHR ''/'') relative;
          rest = drop (Suc (length world)) relative in
      need (CHR ''/'' \<in> set relative) ''invalid orphan root'' (
      bindR (valid_name world) (\<lambda>_.
      need (33 \<le> length rest \<and> valid_id (take 32 rest) \<and> rest ! 32 = CHR ''/'' \<and> (drop 33 rest = ''inode'' \<or> drop 33 rest = ''content''))
        ''invalid orphan root'' (Inr ()))))"

definition recover_key :: "(bytes \<Rightarrow> oid) \<Rightarrow> string \<Rightarrow> mutation list \<Rightarrow> (container, mutation list) op" where
  "recover_key sha key batch =
     bindS (liftS (orphan_root_ok key)) (\<lambda>_.
     let batch = batch @ [value_mutation key None] in
     if length batch = 4096 then bindS (transact sha batch) (\<lambda>_. returnS []) else returnS batch)"

definition recover_orphans :: "(bytes \<Rightarrow> oid) \<Rightarrow> (container, unit) op" where
  "recover_orphans sha = bindS getS (\<lambda>c.
     bindS (foldS (recover_key sha) (j_keys (ct_journal c) (history @ ''orphan/'')) []) (\<lambda>batch.
     if batch = [] then returnS () else transact sha batch))"

end
