(* ===== verification/Text_Format.thy ===== *)
theory Text_Format
  imports Forkfs_Prelude
begin

text \<open>
  Text the daemon prints and parses: decimal numbers (\<^verbatim>\<open>std::to_string\<close>, \<^verbatim>\<open>std::from_chars\<close>) and the
  two string quotings of \<^verbatim>\<open>daemon/container.cpp\<close> and \<^verbatim>\<open>daemon/rpc.cpp\<close>.
\<close>

section \<open>Numbers\<close>

definition digit :: "nat \<Rightarrow> char" where
  "digit n = char_of (48 + n)"

fun dec :: "nat \<Rightarrow> string" where
  "dec n = (if n < 10 then [digit n] else dec (n div 10) @ [digit (n mod 10)])"

declare dec.simps [simp del]

definition digit_value :: "char \<Rightarrow> nat" where
  "digit_value c = of_char c - 48"

definition is_digit :: "nat \<Rightarrow> char \<Rightarrow> bool" where
  "is_digit base c \<longleftrightarrow> 48 \<le> (of_char c :: nat) \<and> of_char c < 48 + base"

definition digits_value :: "nat \<Rightarrow> string \<Rightarrow> nat" where
  "digits_value base = foldl (\<lambda>n c. n * base + digit_value c) 0"

text \<open>\<^verbatim>\<open>from_chars\<close> on an unsigned 64-bit integer, required to consume the whole text: at least one
  digit of the base, no sign, and no overflow.\<close>

definition text_number :: "nat \<Rightarrow> string \<Rightarrow> u64 res" where
  "text_number base s = need (s \<noteq> [] \<and> list_all (is_digit base) s \<and> digits_value base s < 2 ^ 64) ''invalid file offset/count'' (
     Inr (of_nat (digits_value base s)))"

text \<open>The same for a signed 64-bit integer: an optional minus sign.\<close>

definition signed_number :: "string \<Rightarrow> int res" where
  "signed_number s =
     (let negative = (s \<noteq> [] \<and> hd s = CHR ''-''); ds = (if negative then tl s else s);
          n = (if negative then - int (digits_value 10 ds) else int (digits_value 10 ds)) in
      need (ds \<noteq> [] \<and> list_all (is_digit 10) ds \<and> - (2 ^ 63) \<le> n \<and> n < 2 ^ 63) ''invalid signed offset'' (Inr n))"

definition flag :: "bool \<Rightarrow> string" where
  "flag b = (if b then ''true'' else ''false'')"

section \<open>Quoting\<close>

definition quote_char :: string where "quote_char = [CHR 0x22]"

definition json_char :: "char \<Rightarrow> string" where
  "json_char c = (let n = of_char c :: nat in
     if n = 34 \<or> n = 92 then [CHR 0x5C, c]
     else if n < 32 then [CHR 0x5C] @ ''u00'' @ [hex_digit (n div 16), hex_digit (n mod 16)]
     else [c])"

definition json_string :: "string \<Rightarrow> string" where
  "json_string s = quote_char @ concat (map json_char s) @ quote_char"

definition quoted_char :: "char \<Rightarrow> string" where
  "quoted_char c = (if of_char c = (34 :: nat) \<or> of_char c = (92 :: nat) then [CHR 0x5C, c] else [c])"

definition quoted :: "string \<Rightarrow> string" where
  "quoted s = quote_char @ concat (map quoted_char s) @ quote_char"

text \<open>A member of a JSON object: its quoted name, a colon and its text.\<close>

definition member :: "string \<Rightarrow> string \<Rightarrow> string" where
  "member name text = quote_char @ name @ quote_char @ '':'' @ text"

definition text_member :: "string \<Rightarrow> string \<Rightarrow> string" where
  "text_member name text = member name (quote_char @ text @ quote_char)"

fun join :: "string \<Rightarrow> string list \<Rightarrow> string" where
  "join sep [] = []"
| "join sep [s] = s"
| "join sep (s # rest) = s @ sep @ join sep rest"

fun split_on :: "char \<Rightarrow> string \<Rightarrow> string list" where
  "split_on sep [] = [[]]"
| "split_on sep (c # s) = (if c = sep then [] # split_on sep s
     else case split_on sep s of [] \<Rightarrow> [[c]] | w # ws \<Rightarrow> (c # w) # ws)"

definition object_text :: "string list \<Rightarrow> string" where
  "object_text members = ''{'' @ join '','' members @ ''}''"

abbreviation line_end :: string where "line_end \<equiv> [CHR 0x0A]"

section \<open>Printing and parsing agree\<close>

lemma digit_facts:
  assumes "n < 10"
  shows "digit_value (digit n) = n" "is_digit 10 (digit n)"
  using assms by (simp_all add: digit_def digit_value_def is_digit_def)

lemma dec_digits: "list_all (is_digit 10) (dec n) \<and> dec n \<noteq> []"
proof (induction n rule: dec.induct)
  case (1 n)
  then show ?case
    by (subst (1 2) dec.simps) (simp add: digit_facts)
qed

lemma digits_value_dec: "digits_value 10 (dec n) = n"
proof (induction n rule: dec.induct)
  case (1 n)
  then show ?case
    by (subst dec.simps) (auto simp: digits_value_def digit_facts)
qed

lemma text_number_dec: "n < 2 ^ 64 \<Longrightarrow> text_number 10 (dec n) = Inr (of_nat n)"
  using dec_digits [of n] by (simp add: text_number_def digits_value_dec)

lemma dec_inject: "dec m = dec n \<longleftrightarrow> m = n"
  by (metis digits_value_dec)

lemma json_char_inject:
  assumes "json_char c @ r = json_char d @ s"
  shows "c = d \<and> r = s"
proof -
  define m n where "m = (of_char c :: nat)" and "n = (of_char d :: nat)"
  have chars: "c = char_of m" "d = char_of n" by (simp_all add: m_def n_def)
  have small: "m div 16 < 16" "n div 16 < 16" "m < 256" "n < 256"
    by (simp_all add: m_def n_def less_mult_imp_div_less)
  have u: "m \<noteq> 34" "m \<noteq> 92" if "c = CHR ''u''" using that by (simp_all add: m_def)
  have v: "n \<noteq> 34" "n \<noteq> 92" if "d = CHR ''u''" using that by (simp_all add: n_def)
  have e: "m = 92" if "c = CHR 0x5C" using that by (simp add: m_def)
  have f: "n = 92" if "d = CHR 0x5C" using that by (simp add: n_def)
  have split: "m = n" if "m div 16 = n div 16" "m mod 16 = n mod 16"
    using that by (metis div_mult_mod_eq)
  show ?thesis
  proof (cases "m < 32 \<and> n < 32")
    case True
    then show ?thesis
      using assms small split
      by (auto simp: json_char_def Let_def m_def [symmetric] n_def [symmetric] hex_digit_inject chars)
  next
    case False
    then show ?thesis
      using assms u v e f
      by (auto simp: json_char_def Let_def m_def [symmetric] n_def [symmetric] split: if_splits)
  qed
qed

lemma json_char_nonempty: "json_char c \<noteq> []"
  by (simp add: json_char_def Let_def)

lemma json_string_inject: "json_string a = json_string b \<longleftrightarrow> a = b"
proof
  assume "json_string a = json_string b"
  then have "concat (map json_char a) = concat (map json_char b)" by (simp add: json_string_def)
  then show "a = b"
  proof (induction a arbitrary: b)
    case Nil
    then show ?case by (cases b) (simp_all add: json_char_nonempty)
  next
    case (Cons c a)
    then obtain d b' where b: "b = d # b'" by (cases b) (auto simp: json_char_nonempty)
    with Cons.prems have "json_char c @ concat (map json_char a) = json_char d @ concat (map json_char b')"
      by simp
    from json_char_inject [OF this] b Cons.IH show ?case by simp
  qed
qed simp

end
