(* ===== verification/Container_Ops.thy ===== *)
theory Container_Ops
  imports Namespace_Handles Garbage Text_Format
begin

text \<open>
  The remaining operations of \<^verbatim>\<open>daemon/container.cpp\<close> on an open container: the named-object interface,
  verification, and the status reports. What the reports show of the process and of the storage
  engine's own counters is the record \<open>facts\<close>.
\<close>

section \<open>Named objects\<close>

definition reserved_key :: "string \<Rightarrow> bool" where
  "reserved_key key \<longleftrightarrow> prefix forkfs_prefix key \<or> prefix history key"

text \<open>\<open>Journal::put\<close> of either backend, as the contract sees it.\<close>

definition j_put :: "(bytes \<Rightarrow> oid) \<Rightarrow> string \<Rightarrow> bytes \<Rightarrow> journal \<Rightarrow> journal res" where
  "j_put sha key v j =
     (if j_leveldb j then j_transact sha (j_sequence j) [value_mutation key (Some v)] j
      else
        need (key \<noteq> [] \<and> length key \<le> 1024) ''root name must be 1..1024 bytes'' (
        need (length v \<le> 256 * 1024) ''object exceeds 256 KiB'' (
        need (j_sequence j \<noteq> - 1) ''transaction sequence exhausted'' (
        let i = object_hash sha v in
        Inr (j\<lparr>j_sequence := j_sequence j + 1, j_roots := put key i (j_roots j), j_objects := put i v (j_objects j)\<rparr>)))))"

definition object_put :: "(bytes \<Rightarrow> oid) \<Rightarrow> string \<Rightarrow> bytes \<Rightarrow> (container, unit) op" where
  "object_put sha key v =
     needS (\<not> reserved_key key) ''reserved filesystem key'' (
     bindS (journalS (j_put sha key v)) (\<lambda>j. modifyS (\<lambda>c. c\<lparr>ct_journal := j\<rparr>)))"

definition object_get :: "string \<Rightarrow> (container, bytes) op" where
  "object_get key = journalS (\<lambda>j. j_get j key)"

definition object_transact :: "(bytes \<Rightarrow> oid) \<Rightarrow> u64 \<Rightarrow> mutation list \<Rightarrow> (container, unit) op" where
  "object_transact sha expected ms =
     needS (list_all (\<lambda>m. \<not> reserved_key (m_key m)) ms) ''reserved filesystem key'' (
     bindS (journalS (j_transact sha expected ms)) (\<lambda>j. modifyS (\<lambda>c. c\<lparr>ct_journal := j\<rparr>)))"

definition object_get_many :: "string list \<Rightarrow> (container, bytes list) op" where
  "object_get_many keys = journalS (\<lambda>j. mapR (j_get j) keys)"

definition container_verify :: "(bytes \<Rightarrow> oid) \<Rightarrow> (container, unit) op" where
  "container_verify sha = journalS (j_verify sha)"

section \<open>Reports\<close>

record space =
  sp_block_size :: nat
  sp_blocks :: nat
  sp_free_blocks :: nat
  sp_available :: nat
  sp_files :: nat
  sp_free_files :: nat

record facts =
  fa_id :: string
  fa_degraded :: bool
  fa_checkpoint :: nat
  fa_replayed :: nat
  fa_prepare_ns :: nat
  fa_metrics :: string
  fa_detailed_metrics :: string
  fa_tail :: bool
  fa_space :: "exn + space"
  fa_uid :: nat
  fa_gid :: nat

definition storage_engine :: "container \<Rightarrow> string" where
  "storage_engine c = (if j_leveldb (ct_journal c) then ''leveldb'' else ''legacy'')"

definition storage_profile :: "facts \<Rightarrow> string" where
  "storage_profile fa = object_text [member ''metadata_prepare_ns'' (dec (fa_prepare_ns fa)),
     member ''storage_metrics'' (fa_detailed_metrics fa)] @ line_end"

definition status :: "facts \<Rightarrow> container \<Rightarrow> string" where
  "status fa c =
     (let j = ct_journal c in
      object_text [text_member ''service'' ''forkfsd'',
        text_member ''state'' (if j_leveldb j then ''leveldb'' else ''object-journal''),
        text_member ''storage_engine'' (storage_engine c), text_member ''repository_id'' (fa_id fa),
        member ''degraded_anchor'' (flag (fa_degraded fa)), member ''mounted'' ''false'',
        member ''transactions_supported'' ''true'', member ''last_committed_seq'' (dec (unat (j_sequence j))),
        member ''checkpoint_seq'' (dec (fa_checkpoint fa)), member ''replayed_transactions'' (dec (fa_replayed fa)),
        member ''indexed_objects'' (dec (length (j_objects j))), member ''object_roots'' (dec (length (j_roots j))),
        member ''compaction_running'' (flag (ct_running c)), member ''compaction_queued'' (dec (length (ct_queue c))),
        member ''compaction_active'' (flag (ct_active c)), member ''compaction_completed'' (dec (unat (ct_completed c))),
        member ''compaction_races'' (dec (unat (ct_races c))), member ''compaction_failures'' (dec (unat (ct_failures c))),
        member ''compaction_last_error'' (json_string (ct_error c)), member ''metadata_prepare_ns'' (dec (fa_prepare_ns fa)),
        member ''storage_metrics'' (fa_metrics fa), member ''uncommitted_tail'' (flag (fa_tail fa))] @ line_end)"

definition space_json :: "facts \<Rightarrow> string res" where
  "space_json fa = bindR (fa_space fa) (\<lambda>st.
     Inr (object_text [member ''block_size'' (dec (sp_block_size st)), member ''blocks'' (dec (sp_blocks st)),
       member ''free_blocks'' (dec (sp_free_blocks st)), member ''available_blocks'' (dec (sp_available st)),
       member ''files'' (dec (sp_files st)), member ''free_files'' (dec (sp_free_files st))] @ line_end))"

end
