(* ===== verification/Rpc_Codec.thy ===== *)
theory Rpc_Codec
  imports Namespace_Paths Text_Format
begin

text \<open>
  The wire format of \<^verbatim>\<open>daemon/rpc.cpp\<close> and \<^verbatim>\<open>daemon/rpc_client.cpp\<close>, the error numbers of \<^verbatim>\<open>daemon/rpc.h\<close>
  and the batch files of \<^verbatim>\<open>daemon/main.cpp\<close>.
\<close>

section \<open>Frames\<close>

abbreviation rpc_limit :: nat where "rpc_limit \<equiv> 1048576"
abbreviation rpc_header :: nat where "rpc_header \<equiv> 12"

definition read_u32 :: "bytes \<Rightarrow> nat \<Rightarrow> nat res" where
  "read_u32 b at = need (at \<le> length b \<and> 4 \<le> length b - at) ''truncated RPC integer'' (Inr (load_at b at 4))"

definition frame :: "string \<Rightarrow> bytes \<Rightarrow> bytes res" where
  "frame tag payload = need (length payload \<le> rpc_limit) ''RPC payload exceeds 1 MiB'' (
     Inr (tag @ le_store 4 (length payload) @ payload))"

definition response :: "nat \<Rightarrow> bytes \<Rightarrow> bytes res" where
  "response code v = frame ''FFRSP001'' (le_store 4 code @ v)"

primrec decode_fields :: "nat \<Rightarrow> bytes \<Rightarrow> nat \<Rightarrow> (string list \<times> nat) res" where
  "decode_fields 0 b at = Inr ([], at)"
| "decode_fields (Suc count) b at =
     bindR (read_u32 b at) (\<lambda>n.
     need (n \<le> length b - (at + 4)) ''truncated RPC field'' (
     bindR (decode_fields count b (at + 4 + n)) (\<lambda>(args, at'). Inr (slice (at + 4) n b # args, at'))))"

definition decode :: "bytes \<Rightarrow> string list res" where
  "decode b =
     bindR (read_u32 b rpc_header) (\<lambda>count.
     need (0 < count \<and> count \<le> 16) ''RPC requires 1..16 fields'' (
     bindR (decode_fields count b (rpc_header + 4)) (\<lambda>(args, at).
     need (at = length b) ''trailing RPC bytes'' (Inr args))))"

section \<open>The client\<close>

definition encode_field :: "string \<Rightarrow> bytes" where
  "encode_field s = le_store 4 (length s) @ s"

definition encode_request :: "string list \<Rightarrow> bytes res" where
  "encode_request args =
     need (args \<noteq> [] \<and> length args \<le> 16) ''RPC requires 1..16 fields'' (
     need (list_all (\<lambda>s. length s \<le> rpc_limit) args) ''oversized RPC field'' (
     frame ''FFRPC001'' (le_store 4 (length args) @ concat (map encode_field args))))"

text \<open>The reply, read from the bytes the server sends before it closes the connection; bytes beyond
  the announced length are not read.\<close>

definition decode_reply :: "bytes \<Rightarrow> string res" where
  "decode_reply b =
     need (rpc_header \<le> length b) ''truncated RPC reply'' (
     need (slice 0 8 b = ''FFRSP001'') ''unsupported RPC reply'' (
     let n = load_at b 8 4 in
     need (4 \<le> n \<and> n \<le> rpc_limit) ''invalid RPC reply length'' (
     need (rpc_header + n \<le> length b) ''truncated RPC reply'' (
     let reply = take (rpc_header + n) b; code = load_at reply rpc_header 4; text = drop (rpc_header + 4) reply in
     need (code \<le> 4096) ''invalid RPC result code'' (
     if code > 1 then Inl (Rpc_error (code - 1) text)
     else if code \<noteq> 0 then Inl (Runtime_error text)
     else Inr text)))))"

section \<open>Results\<close>

definition names_text :: "string list \<Rightarrow> string" where
  "names_text ns = concat (map (\<lambda>s. s @ line_end) ns)"

definition inode_json :: "inode \<Rightarrow> string" where
  "inode_json n = object_text [text_member ''inode_id'' (i_id n), member ''directory'' (flag (i_directory n)),
     member ''symlink'' (flag (i_symlink n)), member ''mode'' (dec (i_mode n)), member ''links'' (dec (unat (i_links n))),
     member ''size'' (dec (unat (i_size n))), member ''modified_ns'' (dec (unat (i_modified n))),
     member ''changed_ns'' (dec (unat (i_changed n)))]"

text \<open>Error numbers, with the values they have on Linux.\<close>

datatype errno = ENOENT | EIO | EBADF | EBUSY | EEXIST | ENOTDIR | EISDIR | EINVAL | EMFILE | EFBIG | EROFS |
  ENAMETOOLONG | ENOTEMPTY | ELOOP | ENOTSUP | ENOTCONN | ETIMEDOUT | ESTALE

fun errno_code :: "errno \<Rightarrow> nat" where
  "errno_code ENOENT = 2"
| "errno_code EIO = 5"
| "errno_code EBADF = 9"
| "errno_code EBUSY = 16"
| "errno_code EEXIST = 17"
| "errno_code ENOTDIR = 20"
| "errno_code EISDIR = 21"
| "errno_code EINVAL = 22"
| "errno_code EMFILE = 24"
| "errno_code EFBIG = 27"
| "errno_code EROFS = 30"
| "errno_code ENAMETOOLONG = 36"
| "errno_code ENOTEMPTY = 39"
| "errno_code ELOOP = 40"
| "errno_code ENOTSUP = 95"
| "errno_code ENOTCONN = 107"
| "errno_code ETIMEDOUT = 110"
| "errno_code ESTALE = 116"

text \<open>\<^verbatim>\<open>message.find(pattern) != npos\<close>.\<close>

abbreviation mentions :: "string \<Rightarrow> string \<Rightarrow> bool" where "mentions message pat \<equiv> sublist pat message"

definition rpc_posix_error :: "string \<Rightarrow> errno" where
  "rpc_posix_error m =
     (if m = ''RPC timeout'' then ETIMEDOUT
      else if m = ''RPC connect failed'' \<or> m = ''RPC connection failed'' \<or> m = ''RPC send failed'' \<or> m = ''truncated RPC reply''
        then ENOTCONN
      else if m = ''object root not found'' then ENOENT
      else if m = ''path exceeds mount protocol limit'' then ENAMETOOLONG
      else if m = ''path not found'' \<or> m = ''source not found'' then ENOENT
      else if mentions m ''invalid stale'' \<or> mentions m ''invalid mount view'' then ESTALE
      else if m = ''inode is no longer linked'' \<or> mentions m ''invalid or expired session'' \<or> mentions m ''invalid file handle''
        then ESTALE
      else if mentions m ''already exists'' then EEXIST
      else if mentions m ''busy'' \<or> mentions m ''outstanding handles'' then EBUSY
      else if mentions m ''not empty'' then ENOTEMPTY
      else if mentions m ''not a directory'' then ENOTDIR
      else if mentions m ''cannot read a directory'' then EISDIR
      else if mentions m ''read-only'' then EROFS
      else if mentions m ''256 KiB'' then EFBIG
      else if mentions m ''too many symbolic links'' then ELOOP
      else if mentions m ''handle limit'' \<or> mentions m ''cursor limit'' then EMFILE
      else if mentions m ''not readable'' \<or> mentions m ''not writable'' then EBADF
      else if mentions m ''unsupported'' then ENOTSUP
      else if mentions m ''NUL'' \<or> mentions m ''printable ASCII'' \<or> mentions m ''path must'' \<or> mentions m ''invalid'' \<or>
          mentions m ''forbidden'' \<or> mentions m ''inode types differ'' \<or> mentions m ''cannot move'' then EINVAL
      else EIO)"

section \<open>Batch files\<close>

text \<open>\<open>load_batch\<close> on the bytes of the file.\<close>

definition batch_u32 :: "bytes \<Rightarrow> nat \<Rightarrow> nat res" where
  "batch_u32 b pos = need (4 \<le> length b - pos) ''truncated batch input'' (Inr (load_at b pos 4))"

primrec batch_entries :: "nat \<Rightarrow> bytes \<Rightarrow> nat \<Rightarrow> (mutation list \<times> nat) res" where
  "batch_entries 0 b pos = Inr ([], pos)"
| "batch_entries (Suc count) b pos =
     bindR (batch_u32 b pos) (\<lambda>oper. bindR (batch_u32 b (pos + 4)) (\<lambda>k. bindR (batch_u32 b (pos + 8)) (\<lambda>n.
     let pos = pos + 12 in
     need (\<not> (oper \<noteq> 1 \<and> oper \<noteq> 2 \<or> k = 0 \<or> k > 1024 \<or> n > 256 * 1024 \<or> oper = 2 \<and> n \<noteq> 0 \<or> length b - pos < k + n))
       ''invalid batch input entry'' (
     bindR (batch_entries count b (pos + k + n)) (\<lambda>(ms, pos').
     Inr (\<lparr>m_key = slice pos k b, m_value = (if oper = 1 then Some (slice (pos + k) n b) else None), m_reference = None\<rparr> # ms,
       pos'))))))"

definition load_batch :: "bytes \<Rightarrow> mutation list res" where
  "load_batch b =
     need (length b \<le> 2 * 1024 * 1024) ''invalid or oversized batch input'' (
     need (12 \<le> length b \<and> slice 0 8 b = ''FFBATCH1'') ''invalid batch input magic'' (
     bindR (batch_u32 b 8) (\<lambda>count.
     need (0 < count \<and> count \<le> 64) ''batch requires 1..64 mutations'' (
     bindR (batch_entries count b 12) (\<lambda>(ms, pos).
     need (pos = length b) ''trailing batch input bytes'' (Inr ms))))))"

end
