(* ===== verification/Rpc_Sessions.thy ===== *)
theory Rpc_Sessions
  imports Container_Ops Rpc_Codec
begin

text \<open>
  Leased sessions of \<^verbatim>\<open>daemon/rpc.cpp\<close>: a session owns file handles, directory cursors and at most one
  mounted view, and everything it owns is released when its lease runs out. Readings of the
  steady clock are a stream in the state, in milliseconds.
\<close>

section \<open>State\<close>

record owned_handle =
  oh_view :: string
  oh_revision :: bool

record owned_directory =
  od_view :: string
  od_revision :: bool
  od_cursor :: dir_cursor

record session =
  se_lease :: nat
  se_deadline :: nat
  se_closing :: bool
  se_handles :: "(string, owned_handle) smap"
  se_mount :: "owned_handle option"
  se_directories :: "(string, owned_directory) smap"

record server =
  sv_store :: container
  sv_sessions :: "(string, session) smap"
  sv_clock :: "nat \<Rightarrow> nat"
  sv_facts :: facts

definition storeS :: "(container, 'a) op \<Rightarrow> (server, 'a) op" where
  "storeS f s = (case f (sv_store s) of (r, c) \<Rightarrow> (r, s\<lparr>sv_store := c\<rparr>))"

definition steady_now :: "(server, nat) op" where
  "steady_now s = (Inr (sv_clock s 0), s\<lparr>sv_clock := (\<lambda>k. sv_clock s (Suc k))\<rparr>)"

definition set_session :: "string \<Rightarrow> session \<Rightarrow> server \<Rightarrow> server" where
  "set_session token x s = s\<lparr>sv_sessions := put token x (sv_sessions s)\<rparr>"

definition random_token :: "(server, string) op" where
  "random_token s = (case storeS draw_id s of
     (Inl _, s) \<Rightarrow> (Inl (Runtime_error ''session entropy unavailable''), s) | r \<Rightarrow> r)"

text \<open>A token not in use. The loop repeats only while the entropy device returns one that is.\<close>

primrec unused_token :: "nat \<Rightarrow> (string \<Rightarrow> server \<Rightarrow> bool) \<Rightarrow> (server, string) op" where
  "unused_token 0 taken = throwS (Runtime_error ''out of fuel'')"
| "unused_token (Suc fuel) taken =
     bindS random_token (\<lambda>t. bindS getS (\<lambda>s. if taken t s then unused_token fuel taken else returnS t))"

section \<open>Leases\<close>

definition session_create :: "nat \<Rightarrow> (server, string) op" where
  "session_create lease =
     needS (100 \<le> lease \<and> lease \<le> 300000) ''session lease must be 100..300000 ms'' (
     bindS getS (\<lambda>s.
     needS (length (sv_sessions s) < 128) ''session limit reached'' (
     bindS (unused_token token_fuel (\<lambda>t s. map_of (sv_sessions s) t \<noteq> None)) (\<lambda>token.
     bindS steady_now (\<lambda>time.
     bindS (modifyS (\<lambda>s. s\<lparr>sv_sessions := emplace token \<lparr>se_lease = lease, se_deadline = time + lease, se_closing = False,
       se_handles = [], se_mount = None, se_directories = []\<rparr> (sv_sessions s)\<rparr>)) (\<lambda>_. returnS token))))))"

definition invalid_session :: "(server, 'a) op" where
  "invalid_session = throwS (Runtime_error ''invalid or expired session'')"

definition acquire :: "string \<Rightarrow> (server, session) op" where
  "acquire token = bindS getS (\<lambda>s. case map_of (sv_sessions s) token of
       None \<Rightarrow> invalid_session
     | Some x \<Rightarrow>
         if se_closing x then invalid_session
         else bindS steady_now (\<lambda>time.
           if se_deadline x \<le> time then invalid_session
           else bindS steady_now (\<lambda>time. let x = x\<lparr>se_deadline := time + se_lease x\<rparr> in
             bindS (modifyS (set_session token x)) (\<lambda>_. returnS x))))"

text \<open>Closing releases the handles in order; one that cannot be closed leaves the session closing.\<close>

primrec close_handles :: "(bytes \<Rightarrow> oid) \<Rightarrow> string \<Rightarrow> (string \<times> owned_handle) list \<Rightarrow> (server, unit) op" where
  "close_handles sha token [] = returnS ()"
| "close_handles sha token (h # hs) =
     bindS (storeS (close_handle sha \<lparr>ns_view = oh_view (snd h), ns_revision = oh_revision (snd h)\<rparr> (fst h))) (\<lambda>_.
     bindS (modifyS (\<lambda>s. case map_of (sv_sessions s) token of None \<Rightarrow> s
       | Some x \<Rightarrow> set_session token (x\<lparr>se_handles := erase (fst h) (se_handles x)\<rparr>) s)) (\<lambda>_.
     close_handles sha token hs))"

definition drop_session :: "string \<Rightarrow> server \<Rightarrow> server" where
  "drop_session token s = (case map_of (sv_sessions s) token of None \<Rightarrow> s
     | Some x \<Rightarrow> s\<lparr>sv_sessions := erase token (sv_sessions s),
         sv_store := fold (\<lambda>(_, d). close_directory (od_cursor d)) (se_directories x) (sv_store s)\<rparr>)"

definition session_close :: "(bytes \<Rightarrow> oid) \<Rightarrow> string \<Rightarrow> (server, unit) op" where
  "session_close sha token = bindS getS (\<lambda>s. case map_of (sv_sessions s) token of
       None \<Rightarrow> invalid_session
     | Some x \<Rightarrow>
         bindS (modifyS (set_session token (x\<lparr>se_closing := True\<rparr>))) (\<lambda>_.
         bindS (close_handles sha token (se_handles x)) (\<lambda>_.
         modifyS (drop_session token))))"

definition expired :: "string \<times> session \<Rightarrow> string list \<Rightarrow> (server, string list) op" where
  "expired = (\<lambda>(token, x) dead.
     if se_closing x then returnS (dead @ [token])
     else bindS steady_now (\<lambda>time. returnS (if se_deadline x \<le> time then dead @ [token] else dead)))"

definition expire :: "(bytes \<Rightarrow> oid) \<Rightarrow> (server, unit) op" where
  "expire sha = bindS getS (\<lambda>s. bindS (foldS expired (sv_sessions s) []) (\<lambda>dead.
     foldS (\<lambda>token _. session_close sha token) dead ()))"

definition shutdown :: "(bytes \<Rightarrow> oid) \<Rightarrow> (server, unit) op" where
  "shutdown sha = bindS getS (\<lambda>s. foldS (\<lambda>token _. session_close sha token) (map fst (sv_sessions s)) ())"

section \<open>Mounts\<close>

definition blocks_mount :: "string \<Rightarrow> string \<Rightarrow> string \<times> session \<Rightarrow> unit \<Rightarrow> unit res" where
  "blocks_mount token view = (\<lambda>(other, x) _.
     if other = token then Inr ()
     else
       need (case se_mount x of None \<Rightarrow> True | Some m \<Rightarrow> oh_revision m \<or> oh_view m \<noteq> view) ''mount view is busy'' (
       need (list_all (\<lambda>(_, h). oh_revision h \<or> oh_view h \<noteq> view) (se_handles x)) ''mount view has outstanding handles'' (Inr ())))"

definition mount_acquire :: "string \<Rightarrow> string \<Rightarrow> bool \<Rightarrow> (server, unit) op" where
  "mount_acquire token view revision =
     bindS (acquire token) (\<lambda>x.
     needS (case se_mount x of None \<Rightarrow> True | Some m \<Rightarrow> oh_view m = view \<and> oh_revision m = revision) ''invalid mount view'' (
     bindS getS (\<lambda>s.
     bindS (liftS (if revision then Inr () else foldR (blocks_mount token view) (sv_sessions s) ())) (\<lambda>_.
     modifyS (set_session token (x\<lparr>se_mount := Some \<lparr>oh_view = view, oh_revision = revision\<rparr>\<rparr>))))))"

definition mount_require :: "string \<Rightarrow> string \<Rightarrow> bool \<Rightarrow> (server, unit) op" where
  "mount_require token view revision =
     bindS (acquire token) (\<lambda>x.
     needS (se_mount x = Some \<lparr>oh_view = view, oh_revision = revision\<rparr>) ''invalid mount view/session'' (returnS ()))"

definition authorize :: "string \<Rightarrow> string \<Rightarrow> bool \<Rightarrow> bool \<Rightarrow> server \<Rightarrow> unit res" where
  "authorize token view revision writes s =
     (if \<not> writes \<or> revision then Inr ()
      else if list_ex (\<lambda>(other, x). other \<noteq> token \<and> (case se_mount x of None \<Rightarrow> False
          | Some m \<Rightarrow> \<not> oh_revision m \<and> oh_view m = view)) (sv_sessions s)
      then Inl (Rpc_error (errno_code EBUSY) ''World is exclusively leased to a mounted filesystem'')
      else Inr ())"

definition directory_count :: "server \<Rightarrow> nat" where
  "directory_count s = sum_list (map (\<lambda>(_, x). length (se_directories x)) (sv_sessions s))"

text \<open>\<open>Activity\<close>: a request renews its session's lease again when it ends, also by an exception.\<close>

definition renew :: "string \<Rightarrow> server \<Rightarrow> server" where
  "renew token s = (case map_of (sv_sessions s) token of None \<Rightarrow> s
     | Some x \<Rightarrow> if se_closing x then s else (case steady_now s of (Inr time, s') \<Rightarrow>
         set_session token (x\<lparr>se_deadline := time + se_lease x\<rparr>) s' | (_, s') \<Rightarrow> s'))"

definition with_activity :: "string \<Rightarrow> (server, 'a) op \<Rightarrow> (server, 'a) op" where
  "with_activity token k =
     (if token = [] then k else bindS (acquire token) (\<lambda>_ s. map_prod (\<lambda>r. r) (renew token) (k s)))"

end
