(* ===== verification/Rpc_Dispatch.thy ===== *)
theory Rpc_Dispatch
  imports Rpc_Sessions
begin

text \<open>
  \<^verbatim>\<open>dispatch\<close> and the per-connection part of \<^verbatim>\<open>serve_rpc\<close> (\<^verbatim>\<open>daemon/rpc.cpp\<close>): arguments are checked and their
  selectors stripped, inode requests are turned into path requests, and the path and handle
  requests call the namespace. Requests are served one at a time.
\<close>

section \<open>Arguments\<close>

definition arg_count :: "string \<Rightarrow> nat" where
  "arg_count oper =
     (if oper = ''inode-rename'' then 7
      else if oper = ''inode-setattr'' then 6
      else if oper = ''inode-remove'' then 5
      else if oper \<in> {''inode-create'', ''inode-mkdir'', ''inode-symlink'', ''inode-link''} then 4
      else if oper \<in> {''inode-lookup'', ''inode-open''} then 3
      else if oper \<in> {''inode-stat'', ''inode-dir-open'', ''inode-readlink''} then 2
      else if oper \<in> {''inode-root'', ''inode-sync'', ''inode-space''} then 1
      else if oper \<in> {''fs-read-at'', ''fs-write-at'', ''fs-hread'', ''fs-hwrite'', ''fs-hseek'', ''fs-hrange-lock''} then 4
      else if oper \<in> {''fs-write'', ''fs-save'', ''fs-rename'', ''fs-link'', ''fs-fork'', ''fs-append'', ''fs-truncate'', ''fs-open'',
          ''fs-happend'', ''fs-htruncate'', ''fs-hread-next'', ''fs-hwrite-next'', ''fs-symlink'', ''fs-chmod'', ''fs-setmtime'',
          ''fs-hchmod'', ''fs-hsetmtime'', ''fs-dir-page'', ''fs-dir-entries'', ''fs-hlock''} then 3
      else if oper \<in> {''status'', ''storage-profile'', ''fs-init'', ''fs-check'', ''fs-worlds'', ''fs-revisions'', ''fs-compact''} then 1
      else 2)"

record selection =
  sl_args :: "string list"
  sl_view :: string
  sl_revision :: bool
  sl_selected :: bool
  sl_session :: string

definition select_last :: "string \<Rightarrow> selection \<Rightarrow> selection option res" where
  "select_last oper x =
     (let args = sl_args x; selector = args ! (length args - 2); v = last args; rest = take (length args - 2) args in
      if selector = ''--world'' \<or> selector = ''--revision'' then
        need ((prefix ''fs-'' oper \<or> prefix ''inode-'' oper) \<and> \<not> sl_selected x) ''invalid or duplicate view selector'' (
        Inr (Some (x\<lparr>sl_args := rest, sl_view := v, sl_revision := (selector = ''--revision''), sl_selected := True\<rparr>)))
      else if selector = ''--session'' then
        need (\<not> prefix ''session-'' oper \<and> sl_session x = []) ''invalid or duplicate session selector'' (
        need (v \<noteq> []) ''empty session token'' (
        Inr (Some (x\<lparr>sl_args := rest, sl_session := v\<rparr>))))
      else Inr None)"

lemma select_last_shorter:
  "select_last oper x = Inr (Some y) \<Longrightarrow> count + 2 \<le> length (sl_args x) \<Longrightarrow> length (sl_args y) < length (sl_args x)"
  by (auto simp: select_last_def Let_def split: if_splits)

function selectors :: "string \<Rightarrow> nat \<Rightarrow> selection \<Rightarrow> selection res" where
  "selectors oper count x =
     (if length (sl_args x) < count + 2 then Inr x
      else case select_last oper x of Inl e \<Rightarrow> Inl e | Inr None \<Rightarrow> Inr x | Inr (Some y) \<Rightarrow> selectors oper count y)"
  by pat_completeness auto
termination
proof (relation "measure (\<lambda>(oper, count, x). length (sl_args x))", goal_cases)
  case (2 oper count x r y)
  then show ?case using select_last_shorter [of oper x y count] by simp
qed simp

declare selectors.simps [simp del]

text \<open>Only the data argument of a write may contain a NUL byte.\<close>

definition binary_argument :: "string \<Rightarrow> nat \<Rightarrow> bool" where
  "binary_argument oper i \<longleftrightarrow>
     oper \<in> {''fs-write'', ''fs-save'', ''fs-append'', ''fs-happend'', ''fs-hwrite-next''} \<and> i = 2 \<or>
     oper \<in> {''fs-write-at'', ''fs-hwrite''} \<and> i = 3"

definition no_nul :: "string \<Rightarrow> string list \<Rightarrow> bool" where
  "no_nul oper args = list_all (\<lambda>i. binary_argument oper i \<or> CHR 0x00 \<notin> set (args ! i)) [0..<length args]"

definition read_ops :: "string list" where
  "read_ops = [''fs-cat'', ''fs-read-at'', ''fs-ls'', ''fs-stat'', ''fs-lstat'', ''fs-readlink'', ''fs-check'', ''fs-worlds'',
     ''fs-revisions'', ''fs-snapshot'', ''fs-fork'', ''fs-hstat'', ''fs-hread'', ''fs-hread-next'', ''fs-hseek'', ''fs-close'',
     ''fs-dup'', ''fs-hlock'', ''fs-hrange-lock'', ''fs-dir-open'', ''fs-dir-page'', ''fs-dir-entries'', ''fs-dir-rewind'',
     ''fs-dir-close'']"

definition handle_op :: "string \<Rightarrow> bool" where
  "handle_op oper \<longleftrightarrow> oper = ''fs-open'' \<or> oper = ''fs-close'' \<or> oper = ''fs-dup'' \<or> prefix ''fs-h'' oper"

definition dir_op :: "string \<Rightarrow> bool" where
  "dir_op oper \<longleftrightarrow> prefix ''fs-dir-'' oper"

section \<open>Session state of a request\<close>

record request =
  rq_ns :: namespace
  rq_token :: string

definition owner_of :: "request \<Rightarrow> owned_handle" where
  "owner_of rq = \<lparr>oh_view = ns_view (rq_ns rq), oh_revision = ns_revision (rq_ns rq)\<rparr>"

definition sessionS :: "request \<Rightarrow> (session \<Rightarrow> (server, 'a) op) \<Rightarrow> (server, 'a) op" where
  "sessionS rq k = bindS getS (\<lambda>s. case map_of (sv_sessions s) (rq_token rq) of None \<Rightarrow> invalid_session | Some x \<Rightarrow> k x)"

definition update_session :: "request \<Rightarrow> (session \<Rightarrow> session) \<Rightarrow> (server, unit) op" where
  "update_session rq f = modifyS (\<lambda>s. case map_of (sv_sessions s) (rq_token rq) of None \<Rightarrow> s
     | Some x \<Rightarrow> set_session (rq_token rq) (f x) s)"

definition statusS :: "(server, string) op" where
  "statusS s = (Inr (status (sv_facts s) (sv_store s)), s)"

definition fsS :: "request \<Rightarrow> (namespace \<Rightarrow> (container, 'a) op) \<Rightarrow> (server, 'a) op" where
  "fsS rq f = storeS (f (rq_ns rq))"

section \<open>Inode requests\<close>

text \<open>An inode request is answered, or continues as a path request with the mode of a created file.\<close>

datatype routed = Answer string | Route string "string list" nat

definition child :: "request \<Rightarrow> string \<Rightarrow> string \<Rightarrow> (server, string) op" where
  "child rq i name =
     needS (name \<noteq> [] \<and> name \<noteq> ''.'' \<and> name \<noteq> ''..'' \<and> CHR ''/'' \<notin> set name) ''invalid mount name'' (
     bindS (fsS rq (\<lambda>ns. path_for_inode ns i)) (\<lambda>path.
     bindS (fsS rq (\<lambda>ns. fs_lstat ns path)) (\<lambda>n.
     needS (i_directory n) ''parent is not a directory'' (
     returnS (if path = ''/'' then path @ name else path @ ''/'' @ name)))))"

definition mode_argument :: "nat \<Rightarrow> string \<Rightarrow> nat res" where
  "mode_argument base s = bindR (text_number base s) (\<lambda>m. need (m \<le> 511) ''unsupported mode bits'' (Inr (unat m)))"

definition lstat_json :: "request \<Rightarrow> string \<Rightarrow> (server, routed) op" where
  "lstat_json rq path = bindS (fsS rq (\<lambda>ns. fs_lstat ns path)) (\<lambda>n. returnS (Answer (inode_json n)))"

text \<open>The cursor of \<open>inode-root\<close> is a local variable: it releases its pin however the request ends.\<close>

definition probe_root :: "request \<Rightarrow> (server, unit) op" where
  "probe_root rq = bindS (fsS rq (\<lambda>ns. open_directory ns ''/'')) (\<lambda>d s.
     map_prod (\<lambda>r. r) (\<lambda>s. s\<lparr>sv_store := close_directory d (sv_store s)\<rparr>)
       (bindS (fsS rq (\<lambda>ns. read_directory ns d 1 False)) (\<lambda>_.
        mount_acquire (rq_token rq) (ns_view (rq_ns rq)) (ns_revision (rq_ns rq))) s))"

definition inode_root :: "request \<Rightarrow> (server, routed) op" where
  "inode_root rq = bindS getS (\<lambda>s.
     needS (storage_engine (sv_store s) = ''leveldb'') ''mount requires LevelDB'' (
     bindS (fsS rq (\<lambda>ns. fs_lstat ns ''/'')) (\<lambda>n.
     bindS (probe_root rq) (\<lambda>_. let fa = sv_facts s in
     returnS (Answer (object_text [member ''inode'' (inode_json n), member ''repository'' (quoted (fa_id fa)),
       member ''uid'' (dec (fa_uid fa)), member ''gid'' (dec (fa_gid fa))] @ line_end))))))"

definition inode_rename :: "(bytes \<Rightarrow> oid) \<Rightarrow> request \<Rightarrow> string list \<Rightarrow> (server, routed) op" where
  "inode_rename sha rq args =
     bindS (child rq (args ! 1) (args ! 2)) (\<lambda>source. bindS (child rq (args ! 3) (args ! 4)) (\<lambda>target.
     bindS (fsS rq (\<lambda>ns. fs_lstat ns source)) (\<lambda>n.
     needS (i_id n = args ! 5) ''invalid stale source entry'' (
     bindS (if args ! 6 \<noteq> ''-'' then
              bindS (fsS rq (\<lambda>ns. fs_lstat ns target)) (\<lambda>n. needS (i_id n = args ! 6) ''invalid stale target entry'' (returnS ()))
            else (\<lambda>s. case fsS rq (\<lambda>ns. fs_lstat ns target) s of
                (Inr _, s) \<Rightarrow> (Inl (Runtime_error ''target already exists''), s)
              | (Inl e, s) \<Rightarrow> (if what e = ''path not found'' then Inr () else Inl e, s))) (\<lambda>_.
     bindS (fsS rq (\<lambda>ns. fs_rename sha ns source target)) (\<lambda>_. lstat_json rq target))))))"

definition optional_argument :: "(string \<Rightarrow> 'a res) \<Rightarrow> string \<Rightarrow> 'a option res" where
  "optional_argument f s = (if s = ''-'' then Inr None else bindR (f s) (\<lambda>x. Inr (Some x)))"

definition inode_setattr :: "(bytes \<Rightarrow> oid) \<Rightarrow> request \<Rightarrow> string list \<Rightarrow> (server, routed) op" where
  "inode_setattr sha rq args =
     bindS (liftS (optional_argument (mode_argument 10) (args ! 2))) (\<lambda>mode.
     bindS (liftS (optional_argument (text_number 10) (args ! 3))) (\<lambda>n_bytes.
     bindS (liftS (optional_argument (text_number 10) (args ! 4))) (\<lambda>modified.
     let a = \<lparr>at_mode = mode, at_modified = modified, at_size = n_bytes\<rparr>; i = args ! 1; handle = args ! 5 in
     if handle \<noteq> ''-'' then
       sessionS rq (\<lambda>x.
       needS (map_of (se_handles x) handle \<noteq> None) ''handle belongs to another session'' (
       bindS (fsS rq (\<lambda>ns. handle_stat ns handle)) (\<lambda>n.
       needS (i_id n = i) ''invalid inode/handle pairing'' (
       bindS (fsS rq (\<lambda>ns. handle_set_attributes sha ns handle a)) (\<lambda>_.
       bindS (fsS rq (\<lambda>ns. handle_stat ns handle)) (\<lambda>n. returnS (Answer (inode_json n))))))))
     else
       bindS (fsS rq (\<lambda>ns. path_for_inode ns i)) (\<lambda>path.
       bindS (fsS rq (\<lambda>ns. fs_lstat ns path)) (\<lambda>n.
       needS (\<not> i_symlink n) ''symbolic link attributes are unsupported'' (
       bindS (fsS rq (\<lambda>ns. fs_set_attributes sha ns path a)) (\<lambda>_. lstat_json rq path)))))))"

definition inode_request :: "(bytes \<Rightarrow> oid) \<Rightarrow> request \<Rightarrow> string \<Rightarrow> string list \<Rightarrow> (server, routed) op" where
  "inode_request sha rq oper args =
     (let at = (\<lambda>k. args ! k); here = child rq (args ! 1) (args ! 2) in
      if oper = ''inode-root'' then inode_root rq
      else if oper = ''inode-space'' then bindS getS (\<lambda>s. bindS (liftS (space_json (sv_facts s))) (\<lambda>t. returnS (Answer t)))
      else if oper = ''inode-sync'' then bindS statusS (\<lambda>t. returnS (Answer t))
      else if oper = ''inode-lookup'' then bindS here (\<lambda>path. returnS (Route ''fs-lstat'' [''fs-lstat'', path] 420))
      else if oper \<in> {''inode-stat'', ''inode-dir-open'', ''inode-readlink'', ''inode-open''} then
        bindS (fsS rq (\<lambda>ns. path_for_inode ns (at 1))) (\<lambda>path.
        if oper = ''inode-stat'' then returnS (Route ''fs-lstat'' [''fs-lstat'', path] 420)
        else if oper = ''inode-dir-open'' then returnS (Route ''fs-dir-open'' [''fs-dir-open'', path] 420)
        else if oper = ''inode-readlink'' then returnS (Route ''fs-readlink'' [''fs-readlink'', path] 420)
        else
          bindS (fsS rq (\<lambda>ns. fs_lstat ns path)) (\<lambda>n.
          needS (\<not> i_symlink n) ''symbolic link open is forbidden'' (
          returnS (Route ''fs-open'' [''fs-open'', path, at 2 @ '',nofollow''] 420))))
      else if oper = ''inode-create'' then
        bindS here (\<lambda>path. bindS (liftS (mode_argument 10 (at 3))) (\<lambda>mode.
        returnS (Route ''fs-open'' [''fs-open'', path, ''rw,create,exclusive,nofollow''] mode)))
      else if oper = ''inode-mkdir'' then
        bindS here (\<lambda>path. bindS (liftS (mode_argument 10 (at 3))) (\<lambda>mode.
        bindS (fsS rq (\<lambda>ns. fs_mkdir sha ns path mode)) (\<lambda>_. lstat_json rq path)))
      else if oper = ''inode-symlink'' then
        bindS here (\<lambda>path. bindS (fsS rq (\<lambda>ns. fs_symlink sha ns (at 3) path)) (\<lambda>_. lstat_json rq path))
      else if oper = ''inode-link'' then
        bindS (fsS rq (\<lambda>ns. path_for_inode ns (at 1))) (\<lambda>source. bindS (child rq (at 2) (at 3)) (\<lambda>target.
        bindS (fsS rq (\<lambda>ns. fs_link sha ns source target)) (\<lambda>_. lstat_json rq target)))
      else if oper = ''inode-remove'' then
        bindS here (\<lambda>path. bindS (fsS rq (\<lambda>ns. fs_lstat ns path)) (\<lambda>n.
        needS (i_id n = at 3) ''invalid stale directory entry'' (
        needS (at 4 = ''file'' \<or> at 4 = ''directory'') ''invalid removal type'' (
        bindS (fsS rq (\<lambda>ns. fs_remove sha ns path (at 4 = ''directory''))) (\<lambda>_.
        bindS statusS (\<lambda>t. returnS (Answer t)))))))
      else if oper = ''inode-rename'' then inode_rename sha rq args
      else if oper = ''inode-setattr'' then inode_setattr sha rq args
      else returnS (Route oper args 420))"

section \<open>Directory cursors\<close>

definition dir_open :: "request \<Rightarrow> string \<Rightarrow> (server, string) op" where
  "dir_open rq path = sessionS rq (\<lambda>x. bindS getS (\<lambda>s.
     needS (length (se_directories x) < 64 \<and> directory_count s < 1024) ''directory cursor limit reached'' (
     bindS (fsS rq (\<lambda>ns. open_directory ns path)) (\<lambda>d.
     (\<lambda>s. case unused_token token_fuel (\<lambda>t _. map_of (se_directories x) t \<noteq> None) s of
         (Inl e, s) \<Rightarrow> (Inl e, s\<lparr>sv_store := close_directory d (sv_store s)\<rparr>)
       | (Inr token, s) \<Rightarrow>
           bindS (update_session rq (\<lambda>x. x\<lparr>se_directories := emplace token
             \<lparr>od_view = ns_view (rq_ns rq), od_revision = ns_revision (rq_ns rq), od_cursor = d\<rparr> (se_directories x)\<rparr>)) (\<lambda>_.
           returnS (object_text [text_member ''cursor'' token] @ line_end)) s)))))"

definition set_cursor :: "request \<Rightarrow> string \<Rightarrow> owned_directory \<Rightarrow> dir_cursor \<Rightarrow> (server, unit) op" where
  "set_cursor rq token od d = update_session rq (\<lambda>x. x\<lparr>se_directories := put token (od\<lparr>od_cursor := d\<rparr>) (se_directories x)\<rparr>)"

definition page_text :: "bool \<Rightarrow> dir_page \<Rightarrow> string" where
  "page_text attrs p =
     (if attrs then ''{'' @ member ''entries'' (''['' @ join '',''
         (map (\<lambda>(name, n). object_text [member ''name'' (quoted name), member ''inode'' (inode_json n)]) (dp_entries p)) @ '']'')
      else ''{'' @ member ''names'' (''['' @ join '','' (map quoted (dp_names p)) @ '']'')) @
     '','' @ member ''eof'' (flag (dp_eof p)) @ ''}'' @ line_end"

definition dir_request :: "request \<Rightarrow> string \<Rightarrow> string list \<Rightarrow> (server, string) op" where
  "dir_request rq oper args = sessionS rq (\<lambda>x.
     case map_of (se_directories x) (args ! 1) of
       None \<Rightarrow> throwS (Runtime_error ''invalid directory cursor/session'')
     | Some od \<Rightarrow>
         if oper = ''fs-dir-rewind'' then
           bindS (fsS rq (\<lambda>ns. rewind_directory ns (od_cursor od))) (\<lambda>d. bindS (set_cursor rq (args ! 1) od d) (\<lambda>_. statusS))
         else if oper = ''fs-dir-close'' then
           bindS (update_session rq (\<lambda>x. x\<lparr>se_directories := erase (args ! 1) (se_directories x)\<rparr>)) (\<lambda>_.
           bindS (modifyS (\<lambda>s. s\<lparr>sv_store := close_directory (od_cursor od) (sv_store s)\<rparr>)) (\<lambda>_. statusS))
         else
           bindS (liftS (text_number 10 (args ! 2))) (\<lambda>n.
           needS (1 \<le> n \<and> n \<le> 1024) ''directory page limit must be 1..1024'' (
           let attrs = (oper = ''fs-dir-entries'') in
           bindS (fsS rq (\<lambda>ns. read_directory ns (od_cursor od) (unat n) attrs)) (\<lambda>(d, p).
           bindS (set_cursor rq (args ! 1) od d) (\<lambda>_. returnS (page_text attrs p))))))"

section \<open>Handles\<close>

definition open_flag :: "string \<Rightarrow> string list \<times> open_options \<Rightarrow> (string list \<times> open_options) res" where
  "open_flag f = (\<lambda>(seen, opts).
     need (f \<notin> set seen) ''duplicate open flag'' (
     let seen = f # seen in
     if f = ''create'' then Inr (seen, opts\<lparr>oo_create := True\<rparr>)
     else if f = ''exclusive'' then Inr (seen, opts\<lparr>oo_exclusive := True\<rparr>)
     else if f = ''truncate'' then Inr (seen, opts\<lparr>oo_truncate := True\<rparr>)
     else if f = ''append'' then Inr (seen, opts\<lparr>oo_append := True\<rparr>)
     else if f = ''nofollow'' then Inr (seen, opts\<lparr>oo_nofollow := True\<rparr>)
     else Inl (Runtime_error ''unsupported open flag'')))"

definition parse_open :: "string \<Rightarrow> nat \<Rightarrow> (access \<times> open_options) res" where
  "parse_open s mode =
     (let words = split_on (CHR '','') s; m = hd words in
      need (m = ''r'' \<or> m = ''w'' \<or> m = ''rw'') ''invalid handle access mode'' (
      bindR (foldR open_flag (tl words) ([], \<lparr>oo_create = False, oo_exclusive = False, oo_truncate = False, oo_mode = mode,
          oo_append = False, oo_nofollow = False\<rparr>)) (\<lambda>(_, opts).
      Inr (if m = ''r'' then Read else if m = ''w'' then Write else Read_write, opts))))"

definition handle_text :: "string \<Rightarrow> string" where
  "handle_text h = object_text [text_member ''handle'' h] @ line_end"

definition own_handle :: "request \<Rightarrow> string \<Rightarrow> (server, unit) op" where
  "own_handle rq h = update_session rq (\<lambda>x. x\<lparr>se_handles := emplace h (owner_of rq) (se_handles x)\<rparr>)"

definition open_request :: "(bytes \<Rightarrow> oid) \<Rightarrow> request \<Rightarrow> string list \<Rightarrow> nat \<Rightarrow> (server, string) op" where
  "open_request sha rq args mode =
     bindS (liftS (parse_open (args ! 2) mode)) (\<lambda>(access, opts). sessionS rq (\<lambda>x.
     needS (length (se_handles x) < 256) ''session handle limit reached'' (
     bindS (fsS rq (\<lambda>ns. fs_open sha ns (args ! 1) access opts)) (\<lambda>h.
     bindS (own_handle rq h) (\<lambda>_. returnS (handle_text h))))))"

definition dup_request :: "request \<Rightarrow> string \<Rightarrow> (server, string) op" where
  "dup_request rq token = sessionS rq (\<lambda>x.
     needS (length (se_handles x) < 256) ''session handle limit reached'' (
     bindS (fsS rq (\<lambda>ns. dup_handle ns token)) (\<lambda>h.
     bindS (own_handle rq h) (\<lambda>_. returnS (handle_text h)))))"

definition lock_argument :: "string \<Rightarrow> lock_mode res" where
  "lock_argument s = need (s = ''shared'' \<or> s = ''exclusive'' \<or> s = ''unlock'') ''invalid lock mode'' (
     Inr (if s = ''shared'' then Shared else if s = ''exclusive'' then Exclusive else Unlock))"

definition range_argument :: "string \<Rightarrow> (nat \<times> nat) res" where
  "range_argument s = (case split_on (CHR '':'') s of
       [a, b] \<Rightarrow> bindR (text_number 10 a) (\<lambda>start. bindR (text_number 10 b) (\<lambda>len. Inr (unat start, unat len)))
     | _ \<Rightarrow> Inl (Runtime_error ''lock range must be START:LENGTH''))"

definition granted_text :: "bool \<Rightarrow> string" where
  "granted_text b = object_text [member ''granted'' (flag b)] @ line_end"

definition seek_argument :: "string \<Rightarrow> seek_origin res" where
  "seek_argument s = need (s = ''set'' \<or> s = ''cur'' \<or> s = ''end'') ''invalid seek origin'' (
     Inr (if s = ''set'' then From_start else if s = ''cur'' then From_current else From_end))"

definition count_text :: "string \<Rightarrow> nat \<Rightarrow> string" where
  "count_text name n = object_text [member name (dec n)] @ line_end"

definition appended_text :: "nat \<Rightarrow> nat \<Rightarrow> string" where
  "appended_text offset n = object_text [member ''offset'' (dec offset), member ''written'' (dec n)] @ line_end"

text \<open>Requests that answer with a value of their own.\<close>

definition value_request :: "(bytes \<Rightarrow> oid) \<Rightarrow> request \<Rightarrow> string \<Rightarrow> string list \<Rightarrow> (server, string) op option" where
  "value_request sha rq oper args =
     (let at = (\<lambda>k. args ! k); u64_of = (\<lambda>k. liftS (text_number 10 (args ! k))) in
      if oper = ''fs-cat'' then Some (fsS rq (\<lambda>ns. fs_read ns (at 1)))
      else if oper = ''fs-read-at'' then Some (bindS (u64_of 2) (\<lambda>off. bindS (u64_of 3) (\<lambda>n. fsS rq (\<lambda>ns. fs_read_at ns (at 1) off n))))
      else if oper = ''fs-hlock'' then
        Some (bindS (liftS (lock_argument (at 2))) (\<lambda>m. bindS (fsS rq (\<lambda>ns. try_lock ns (at 1) m)) (\<lambda>b. returnS (granted_text b))))
      else if oper = ''fs-hrange-lock'' then
        Some (bindS (liftS (lock_argument (at 2))) (\<lambda>m. bindS (liftS (range_argument (at 3))) (\<lambda>(start, len).
          bindS (fsS rq (\<lambda>ns. try_lock_range ns (at 1) m start len)) (\<lambda>b. returnS (granted_text b)))))
      else if oper = ''fs-hseek'' then
        Some (bindS (liftS (seek_argument (at 3))) (\<lambda>origin. bindS (liftS (signed_number (at 2))) (\<lambda>off.
          bindS (fsS rq (\<lambda>ns. seek ns (at 1) off origin)) (\<lambda>p. returnS (count_text ''offset'' (unat p))))))
      else if oper = ''fs-hread-next'' then Some (bindS (u64_of 2) (\<lambda>n. fsS rq (\<lambda>ns. handle_read_next ns (at 1) n)))
      else if oper = ''fs-hwrite-next'' then
        Some (bindS (fsS rq (\<lambda>ns. handle_write_next sha ns (at 1) (at 2))) (\<lambda>n. returnS (count_text ''written'' n)))
      else if oper = ''fs-hread'' then
        Some (bindS (u64_of 2) (\<lambda>off. bindS (u64_of 3) (\<lambda>n. fsS rq (\<lambda>ns. handle_read ns (at 1) off n))))
      else if oper = ''fs-happend'' then
        Some (bindS (fsS rq (\<lambda>ns. handle_append sha ns (at 1) (at 2))) (\<lambda>off. returnS (appended_text off (length (at 2)))))
      else if oper = ''fs-readlink'' then Some (fsS rq (\<lambda>ns. fs_readlink ns (at 1)))
      else if oper = ''fs-ls'' then Some (bindS (fsS rq (\<lambda>ns. fs_list ns (at 1))) (\<lambda>x. returnS (names_text x)))
      else if oper = ''fs-worlds'' then Some (bindS (fsS rq (\<lambda>ns. worlds)) (\<lambda>x. returnS (names_text x)))
      else if oper = ''fs-revisions'' then Some (bindS (fsS rq (\<lambda>ns. revisions)) (\<lambda>x. returnS (names_text x)))
      else if oper \<in> {''fs-stat'', ''fs-hstat'', ''fs-lstat''} then
        Some (bindS (fsS rq (\<lambda>ns. if oper = ''fs-stat'' then fs_stat ns (at 1) else if oper = ''fs-lstat'' then fs_lstat ns (at 1)
          else handle_stat ns (at 1))) (\<lambda>n. returnS (inode_json n @ line_end)))
      else if oper = ''fs-snapshot'' then
        Some (bindS (fsS rq (\<lambda>ns. snapshot sha ns (at 1))) (\<lambda>i. returnS (object_text [text_member ''revision_id'' i] @ line_end)))
      else if oper = ''fs-append'' then
        Some (bindS (fsS rq (\<lambda>ns. fs_append sha ns (at 1) (at 2))) (\<lambda>off. returnS (appended_text off (length (at 2)))))
      else None)"

definition attribute_argument :: "string \<Rightarrow> string \<Rightarrow> attributes res" where
  "attribute_argument oper s =
     (if oper = ''fs-chmod'' \<or> oper = ''fs-hchmod''
      then bindR (mode_argument 8 s) (\<lambda>m. Inr \<lparr>at_mode = Some m, at_modified = None, at_size = None\<rparr>)
      else bindR (text_number 10 s) (\<lambda>t. Inr \<lparr>at_mode = None, at_modified = Some t, at_size = None\<rparr>))"

text \<open>Requests answered with the status.\<close>

definition mutation_request :: "(bytes \<Rightarrow> oid) \<Rightarrow> request \<Rightarrow> string \<Rightarrow> string list \<Rightarrow> (server, unit) op" where
  "mutation_request sha rq oper args =
     (let at = (\<lambda>k. args ! k); u64_of = (\<lambda>k. liftS (text_number 10 (args ! k))) in
      if oper \<in> {''fs-chmod'', ''fs-hchmod'', ''fs-setmtime'', ''fs-hsetmtime''} then
        bindS (liftS (attribute_argument oper (at 2))) (\<lambda>a.
        fsS rq (\<lambda>ns. if oper = ''fs-hchmod'' \<or> oper = ''fs-hsetmtime'' then handle_set_attributes sha ns (at 1) a
          else fs_set_attributes sha ns (at 1) a))
      else if oper = ''fs-symlink'' then fsS rq (\<lambda>ns. fs_symlink sha ns (at 1) (at 2))
      else if oper = ''fs-close'' then
        bindS (fsS rq (\<lambda>ns. close_handle sha ns (at 1))) (\<lambda>_.
        update_session rq (\<lambda>x. x\<lparr>se_handles := erase (at 1) (se_handles x)\<rparr>))
      else if oper = ''fs-hwrite'' then bindS (u64_of 2) (\<lambda>off. fsS rq (\<lambda>ns. handle_write sha ns (at 1) off (at 3)))
      else if oper = ''fs-htruncate'' then bindS (u64_of 2) (\<lambda>n. fsS rq (\<lambda>ns. handle_truncate sha ns (at 1) n))
      else if oper = ''fs-init'' then fsS rq (fs_initialize sha)
      else if oper = ''fs-write-at'' then bindS (u64_of 2) (\<lambda>off. fsS rq (\<lambda>ns. fs_write_at sha ns (at 1) off (at 3)))
      else if oper = ''fs-truncate'' then bindS (u64_of 2) (\<lambda>n. fsS rq (\<lambda>ns. fs_truncate sha ns (at 1) n))
      else if oper = ''fs-save'' then fsS rq (\<lambda>ns. fs_replace sha ns (at 1) (at 2))
      else if oper = ''fs-write'' then fsS rq (\<lambda>ns. fs_write sha ns (at 1) (at 2))
      else if oper = ''fs-mkdir'' then fsS rq (\<lambda>ns. fs_mkdir sha ns (at 1) 493)
      else if oper = ''fs-unlink'' then fsS rq (\<lambda>ns. fs_remove sha ns (at 1) False)
      else if oper = ''fs-rmdir'' then fsS rq (\<lambda>ns. fs_remove sha ns (at 1) True)
      else if oper = ''fs-rename'' then fsS rq (\<lambda>ns. fs_rename sha ns (at 1) (at 2))
      else if oper = ''fs-link'' then fsS rq (\<lambda>ns. fs_link sha ns (at 1) (at 2))
      else if oper = ''fs-fork'' then fsS rq (\<lambda>ns. fork_world sha ns (at 1) (at 2))
      else if oper = ''fs-compact'' then fsS rq (compact_world sha)
      else if oper = ''fs-check'' then bindS (storeS (container_verify sha)) (\<lambda>_. fsS rq (fs_verify sha))
      else throwS (Runtime_error ''unsupported RPC command''))"

section \<open>Dispatch\<close>

definition path_request :: "(bytes \<Rightarrow> oid) \<Rightarrow> request \<Rightarrow> string \<Rightarrow> string list \<Rightarrow> nat \<Rightarrow> (server, string) op" where
  "path_request sha rq oper args mode =
     (if oper = ''fs-dir-open'' then dir_open rq (args ! 1)
      else if oper \<in> {''fs-dir-rewind'', ''fs-dir-close'', ''fs-dir-page'', ''fs-dir-entries''} then dir_request rq oper args
      else if oper = ''fs-open'' then open_request sha rq args mode
      else if oper = ''fs-dup'' then dup_request rq (args ! 1)
      else case value_request sha rq oper args of Some k \<Rightarrow> k
        | None \<Rightarrow> bindS (mutation_request sha rq oper args) (\<lambda>_. statusS))"

definition check_ownership :: "request \<Rightarrow> string \<Rightarrow> string list \<Rightarrow> server \<Rightarrow> unit res" where
  "check_ownership rq oper args s =
     (let x = map_of (sv_sessions s) (rq_token rq); ns = rq_ns rq in
      need (\<not> (handle_op oper \<and> oper \<noteq> ''fs-open'') \<or>
          (case x of None \<Rightarrow> False | Some x \<Rightarrow> map_of (se_handles x) (args ! 1) \<noteq> None)) ''handle belongs to another session'' (
      if dir_op oper \<and> oper \<noteq> ''fs-dir-open'' then
        (case Option.bind x (\<lambda>x. map_of (se_directories x) (args ! 1)) of
           None \<Rightarrow> Inl (Runtime_error ''invalid directory cursor/session'')
         | Some od \<Rightarrow> need (od_view od = ns_view ns \<and> od_revision od = ns_revision ns) ''directory cursor belongs to another view'' (Inr ()))
      else Inr ()))"

definition serve_request :: "(bytes \<Rightarrow> oid) \<Rightarrow> request \<Rightarrow> string \<Rightarrow> string list \<Rightarrow> (server, string) op" where
  "serve_request sha rq oper args =
     bindS getS (\<lambda>s. bindS (liftS (check_ownership rq oper args s)) (\<lambda>_.
     if oper = ''status'' then statusS
     else if oper = ''storage-profile'' then returnS (storage_profile (sv_facts s))
     else
       let ns = rq_ns rq in
       bindS (liftS (authorize (rq_token rq) (ns_view ns) (ns_revision ns) (oper \<notin> set read_ops) s)) (\<lambda>_.
       bindS (if prefix ''inode-'' oper \<and> oper \<noteq> ''inode-root'' then mount_require (rq_token rq) (ns_view ns) (ns_revision ns)
              else returnS ()) (\<lambda>_.
       bindS (if prefix ''inode-'' oper then inode_request sha rq oper args else returnS (Route oper args 420)) (\<lambda>r. case r of
           Answer t \<Rightarrow> returnS t
         | Route oper args mode \<Rightarrow> path_request sha rq oper args mode)))))"

definition dispatch :: "(bytes \<Rightarrow> oid) \<Rightarrow> string list \<Rightarrow> (server, string) op" where
  "dispatch sha args =
     (let oper = hd args; count = arg_count oper in
      bindS (liftS (selectors oper count \<lparr>sl_args = args, sl_view = ''main'', sl_revision = False, sl_selected = False,
        sl_session = []\<rparr>)) (\<lambda>x. let args = sl_args x; token = sl_session x in
      needS (length args = count) ''invalid RPC command arguments'' (
      needS (no_nul oper args) ''NUL in RPC argument'' (
      if oper = ''session-open'' then
        bindS (liftS (text_number 10 (args ! 1))) (\<lambda>lease. bindS (session_create (unat lease)) (\<lambda>t.
        returnS (object_text [text_member ''session'' t, member ''lease_ms'' (dec (unat lease))] @ line_end)))
      else if oper = ''session-keepalive'' then bindS (acquire (args ! 1)) (\<lambda>_. statusS)
      else if oper = ''session-close'' then
        bindS (acquire (args ! 1)) (\<lambda>_. bindS (session_close sha (args ! 1)) (\<lambda>_. statusS))
      else
        needS (\<not> (handle_op oper \<or> dir_op oper \<or> prefix ''inode-'' oper) \<or> token \<noteq> [])
          ''handle operations require --session TOKEN'' (
        with_activity token (serve_request sha
          \<lparr>rq_ns = \<lparr>ns_view = sl_view x, ns_revision = sl_revision x\<rparr>, rq_token = token\<rparr> oper args))))))"

section \<open>Connections\<close>

record peer =
  pe_in :: bytes
  pe_out :: bytes
  pe_sent :: nat
  pe_done :: bool

definition error_response :: "exn \<Rightarrow> bytes" where
  "error_response e = (case response (case e of Rpc_error code _ \<Rightarrow> code + 1 | _ \<Rightarrow> 1) (what e) of
     Inr b \<Rightarrow> b | Inl _ \<Rightarrow> [])"

text \<open>The answer to a complete request: inode requests report failures as error numbers.\<close>

definition answer :: "(bytes \<Rightarrow> oid) \<Rightarrow> bytes \<Rightarrow> server \<Rightarrow> bytes \<times> server" where
  "answer sha b s = (case decode b of
       Inl e \<Rightarrow> (error_response e, s)
     | Inr args \<Rightarrow> (case dispatch sha args s of (r, s') \<Rightarrow>
         (case bindR r (response 0) of
            Inr out \<Rightarrow> out
          | Inl e \<Rightarrow> error_response (case e of Rpc_error _ _ \<Rightarrow> e
              | _ \<Rightarrow> if prefix ''inode-'' (hd args) then Rpc_error (errno_code (rpc_posix_error (what e))) (what e) else e), s')))"

text \<open>What a read of a connection does with the bytes it got; nothing read means the client has
  closed its end.\<close>

definition receive :: "(bytes \<Rightarrow> oid) \<Rightarrow> bytes \<Rightarrow> peer \<Rightarrow> server \<Rightarrow> peer \<times> server" where
  "receive sha got p s =
     (if got = [] then (p\<lparr>pe_out := error_response (Runtime_error ''truncated RPC request'')\<rparr>, s)
      else let p = p\<lparr>pe_in := pe_in p @ got\<rparr>; b = pe_in p; n = load_at b 8 4;
               refuse = (\<lambda>m. (p\<lparr>pe_out := error_response (Runtime_error m)\<rparr>, s)) in
        if length b < rpc_header then (p, s)
        else if slice 0 8 b \<noteq> ''FFRPC001'' then refuse ''unsupported RPC protocol''
        else if n < 4 \<or> rpc_limit < n then refuse ''invalid RPC request length''
        else if rpc_header + n < length b then refuse ''trailing RPC frame''
        else if length b = rpc_header + n then (case answer sha b s of (out, s') \<Rightarrow> (p\<lparr>pe_out := out\<rparr>, s'))
        else (p, s))"

text \<open>What a write of a connection does: the number of bytes the kernel took.\<close>

definition transmit :: "nat \<Rightarrow> peer \<Rightarrow> peer" where
  "transmit n p = (if n = 0 then p\<lparr>pe_done := True\<rparr>
     else let sent = pe_sent p + n in p\<lparr>pe_sent := sent, pe_done := (pe_done p \<or> sent = length (pe_out p))\<rparr>)"

end
