(* ===== verification/Command_Line.thy ===== *)
theory Command_Line
  imports Rpc_Dispatch
begin

text \<open>
  \<^verbatim>\<open>daemon/main.cpp\<close>: the commands that open a container, run one operation and print, and the request
  command, which sends its arguments to a server. A command line is the list \<^verbatim>\<open>argv[1..]\<close>; the input
  files it names are the function \<open>files\<close> (\<open>None\<close>: cannot be opened).
\<close>

type_synonym input_files = "string \<Rightarrow> bytes option"

definition load_file :: "input_files \<Rightarrow> string \<Rightarrow> bytes res" where
  "load_file files path = (case files path of
       None \<Rightarrow> Inl (Runtime_error ''cannot open file input'')
     | Some b \<Rightarrow> need (length b \<le> 256 * 1024) ''invalid or oversized file input'' (Inr b))"

definition load_object :: "input_files \<Rightarrow> string \<Rightarrow> bytes res" where
  "load_object files path = (case files path of
       None \<Rightarrow> Inl (Runtime_error ''cannot open object input'')
     | Some b \<Rightarrow> need (length b \<le> 256 * 1024) ''object exceeds 256 KiB'' (Inr b))"

definition load_batch_file :: "input_files \<Rightarrow> string \<Rightarrow> mutation list res" where
  "load_batch_file files path = (case files path of
       None \<Rightarrow> Inl (Runtime_error ''cannot open batch input'') | Some b \<Rightarrow> load_batch b)"

section \<open>The request command\<close>

definition data_commands :: "string list" where
  "data_commands = [''fs-write'', ''fs-save'', ''fs-write-at'', ''fs-append'', ''fs-hwrite'', ''fs-happend'', ''fs-hwrite-next'']"

definition request_fields :: "input_files \<Rightarrow> string list \<Rightarrow> string list res" where
  "request_fields files args =
     (if hd args \<in> set data_commands then
        let k = (if hd args = ''fs-write-at'' \<or> hd args = ''fs-hwrite'' then 3 else 2) in
        need (length args = k + 1 \<or> length args = k + 3 \<or> length args = k + 5) ''write command requires input file'' (
        bindR (load_file files (args ! k)) (\<lambda>b. Inr (args[k := b])))
      else Inr args)"

definition request_command :: "input_files \<Rightarrow> string list \<Rightarrow> bytes res" where
  "request_command files argv =
     need (3 \<le> length argv) ''request requires socket and command'' (
     bindR (request_fields files (drop 2 argv)) encode_request)"

section \<open>Filesystem commands\<close>

text \<open>The number of words of a filesystem command without a view selector, \<^verbatim>\<open>argv[0]\<close> not counted.\<close>

definition base_words :: "string \<Rightarrow> nat" where
  "base_words command =
     (if command \<in> {''fs-read-at'', ''fs-write-at''} then 5
      else if command \<in> {''fs-write'', ''fs-save'', ''fs-link'', ''fs-rename'', ''fs-fork'', ''fs-append'', ''fs-truncate'',
          ''fs-symlink'', ''fs-chmod'', ''fs-setmtime''} then 4
      else if command \<in> {''fs-init'', ''fs-check'', ''fs-worlds'', ''fs-revisions'', ''fs-compact'', ''fs-layout''} then 2
      else 3)"

definition view_selector :: "string list \<Rightarrow> namespace \<times> string list" where
  "view_selector argv =
     (let command = hd argv; selector = argv ! (length argv - 2) in
      if prefix ''fs-'' command \<and> length argv = base_words command + 2 \<and> (selector = ''--world'' \<or> selector = ''--revision'')
      then (\<lparr>ns_view = last argv, ns_revision = (selector = ''--revision'')\<rparr>, take (length argv - 2) argv)
      else (\<lparr>ns_view = ''main'', ns_revision = False\<rparr>, argv))"

definition layout_text :: "nat \<Rightarrow> string" where
  "layout_text n = object_text [member ''runs'' (dec n), text_member ''layout'' (if n \<noteq> 0 then ''sorted-runs'' else ''flat'')] @ line_end"

text \<open>A command that prints its own result, or \<open>None\<close> for one that prints the status.\<close>

definition print_command ::
    "(bytes \<Rightarrow> oid) \<Rightarrow> input_files \<Rightarrow> namespace \<Rightarrow> string list \<Rightarrow> (container, string) op option" where
  "print_command sha files ns argv =
     (let command = hd argv; n = length argv; at = (\<lambda>k. argv ! k); u64_of = (\<lambda>k. liftS (text_number 10 (argv ! k))) in
      if command = ''fs-layout'' \<and> n = 2 then
        Some (bindS getS (\<lambda>c. if storage_engine c = ''leveldb''
          then bindS (fs_stat ns ''/'') (\<lambda>_. returnS (object_text [text_member ''layout'' ''cow-tree'',
            text_member ''storage_engine'' ''leveldb''] @ line_end))
          else bindS (run_count ns) (\<lambda>k. returnS (layout_text k))))
      else if command = ''fs-snapshot'' \<and> n = 3 then
        Some (bindS (snapshot sha ns (at 2)) (\<lambda>i. returnS (object_text [text_member ''revision_id'' i] @ line_end)))
      else if command = ''fs-worlds'' \<and> n = 2 then Some (bindS worlds (\<lambda>x. returnS (names_text x)))
      else if command = ''fs-revisions'' \<and> n = 2 then Some (bindS revisions (\<lambda>x. returnS (names_text x)))
      else if command = ''fs-readlink'' \<and> n = 3 then Some (fs_readlink ns (at 2))
      else if command = ''fs-append'' \<and> n = 4 then
        Some (bindS (liftS (load_file files (at 3))) (\<lambda>b. bindS (fs_append sha ns (at 2) b) (\<lambda>off.
          returnS (appended_text off (length b)))))
      else if command = ''fs-read-at'' \<and> n = 5 then
        Some (bindS (u64_of 3) (\<lambda>off. bindS (u64_of 4) (\<lambda>k. fs_read_at ns (at 2) off k)))
      else if command = ''fs-cat'' \<and> n = 3 then Some (fs_read ns (at 2))
      else if command = ''fs-ls'' \<and> n = 3 then Some (bindS (fs_list ns (at 2)) (\<lambda>x. returnS (names_text x)))
      else if (command = ''fs-stat'' \<or> command = ''fs-lstat'') \<and> n = 3 then
        Some (bindS (if command = ''fs-lstat'' then fs_lstat ns (at 2) else fs_stat ns (at 2)) (\<lambda>i. returnS (inode_json i @ line_end)))
      else None)"

definition update_command ::
    "(bytes \<Rightarrow> oid) \<Rightarrow> input_files \<Rightarrow> namespace \<Rightarrow> string list \<Rightarrow> (container, unit) op" where
  "update_command sha files ns argv =
     (let command = hd argv; n = length argv; at = (\<lambda>k. argv ! k); u64_of = (\<lambda>k. liftS (text_number 10 (argv ! k)));
          file = (\<lambda>k. liftS (load_file files (argv ! k))) in
      if command = ''fs-compact'' \<and> n = 2 then compact_world sha ns
      else if command = ''fs-fork'' \<and> n = 4 then fork_world sha ns (at 2) (at 3)
      else if command = ''fs-init'' \<and> n = 2 then fs_initialize sha ns
      else if command = ''fs-check'' \<and> n = 2 then bindS (container_verify sha) (\<lambda>_. fs_verify sha ns)
      else if (command = ''fs-chmod'' \<or> command = ''fs-setmtime'') \<and> n = 4 then
        bindS (liftS (attribute_argument command (at 3))) (\<lambda>a. fs_set_attributes sha ns (at 2) a)
      else if command = ''fs-symlink'' \<and> n = 4 then fs_symlink sha ns (at 2) (at 3)
      else if command = ''fs-mkdir'' \<and> n = 3 then fs_mkdir sha ns (at 2) 493
      else if command = ''fs-unlink'' \<and> n = 3 then fs_remove sha ns (at 2) False
      else if command = ''fs-rmdir'' \<and> n = 3 then fs_remove sha ns (at 2) True
      else if command = ''fs-rename'' \<and> n = 4 then fs_rename sha ns (at 2) (at 3)
      else if command = ''fs-link'' \<and> n = 4 then fs_link sha ns (at 2) (at 3)
      else if command = ''fs-truncate'' \<and> n = 4 then bindS (u64_of 3) (\<lambda>k. fs_truncate sha ns (at 2) k)
      else if command = ''fs-write-at'' \<and> n = 5 then
        bindS (u64_of 3) (\<lambda>off. bindS (file 4) (\<lambda>b. fs_write_at sha ns (at 2) off b))
      else if command = ''fs-save'' \<and> n = 4 then bindS (file 3) (\<lambda>b. fs_replace sha ns (at 2) b)
      else if command = ''fs-write'' \<and> n = 4 then bindS (file 3) (\<lambda>b. fs_write sha ns (at 2) b)
      else throwS (Runtime_error ''invalid filesystem command arguments''))"

section \<open>All commands on a container\<close>

text \<open>\<open>argv\<close> after the view selector is stripped; the container is the one \<^verbatim>\<open>argv[2]\<close> names.\<close>

definition container_command ::
    "(bytes \<Rightarrow> oid) \<Rightarrow> facts \<Rightarrow> input_files \<Rightarrow> string list \<Rightarrow> (container, string) op" where
  "container_command sha fa files argv =
     (let (ns, args) = view_selector argv; command = hd args; n = length args;
          report = (\<lambda>c. (Inr (status fa c), c)) in
      if command = ''check'' \<and> n = 2 then bindS (container_verify sha) (\<lambda>_. report)
      else if command = ''gc'' \<and> n = 2 then
        bindS (collect_garbage sha) (\<lambda>k. returnS (object_text [member ''collected_objects'' (dec k)] @ line_end))
      else if command = ''object-put'' \<and> n = 4 then
        bindS (liftS (load_object files (args ! 3))) (\<lambda>b. bindS (object_put sha (args ! 2) b) (\<lambda>_. report))
      else if command = ''object-batch'' \<and> n = 4 then
        bindS (liftS (case text_number 10 (args ! 2) of Inl _ \<Rightarrow> Inl (Runtime_error ''invalid expected sequence'') | r \<Rightarrow> r)) (\<lambda>expected.
        bindS (liftS (load_batch_file files (args ! 3))) (\<lambda>ms.
        bindS (object_transact sha expected ms) (\<lambda>_. report)))
      else if command = ''object-get'' \<and> n = 3 then object_get (args ! 2)
      else if prefix ''fs-'' command then
        (case print_command sha files ns args of Some k \<Rightarrow> k
         | None \<Rightarrow> bindS (update_command sha files ns args) (\<lambda>_. report))
      else throwS (Runtime_error ''invalid arguments; use forkfsd --help''))"

end
