(* ===== verification/Exec_Guard.thy ===== *)
theory Exec_Guard
  imports Forkfs_Prelude
begin

text \<open>
  \<^verbatim>\<open>cli/exec_guard.h\<close> and the record encoding of \<^verbatim>\<open>cli/main.cpp\<close> that uses it: which Git configuration
  entries make Git run a command, and how captured entries are encoded so that two different
  configurations never compare equal. A C string is a list of non-zero bytes; allocation failure
  is not modelled.
\<close>

section \<open>Escaping for sandbox rules\<close>

definition regex_meta :: "char \<Rightarrow> bool" where
  "regex_meta c \<longleftrightarrow> c \<in> set (''.[]()*+?{}|^$'' @ [CHR 0x5C])"

text \<open>The output so far and the capacity of the buffer, which also holds the terminating NUL.\<close>

fun regex_escape_loop :: "string \<Rightarrow> string \<Rightarrow> nat \<Rightarrow> string option" where
  "regex_escape_loop [] out cap = (if cap \<le> length out then None else Some out)"
| "regex_escape_loop (c # s) out cap =
     (if regex_meta c then
        if cap \<le> length out + 1 then None
        else if cap \<le> length out + 2 then None
        else regex_escape_loop s (out @ [CHR 0x5C, c]) cap
      else if cap \<le> length out + 1 then None
      else regex_escape_loop s (out @ [c]) cap)"

definition sb_regex_escape :: "string \<Rightarrow> nat \<Rightarrow> string option" where
  "sb_regex_escape s cap = regex_escape_loop s [] cap"

section \<open>Encoding captured entries\<close>

abbreviation esc :: char where "esc \<equiv> CHR 0x1D"
abbreviation record_sep :: char where "record_sep \<equiv> CHR 0x1E"
abbreviation field_sep :: char where "field_sep \<equiv> CHR 0x1F"

definition escape_value :: "string \<Rightarrow> string" where
  "escape_value s = concat (map (\<lambda>c. if c = esc \<or> c = record_sep then [esc, c] else [c]) s)"

text \<open>\<open>None\<close> is an implicit boolean: an entry with no value at all.\<close>

definition guard_encode_value :: "string option \<Rightarrow> string" where
  "guard_encode_value v = (case v of None \<Rightarrow> ''n'' | Some s \<Rightarrow> ''v'' @ escape_value s)"

definition guard_encode_id_field :: "string \<Rightarrow> string" where
  "guard_encode_id_field s =
     concat (map (\<lambda>c. if c = esc then [esc, CHR ''d''] else if c = field_sep then [esc, CHR ''f''] else [c]) s)"

definition config_id :: "string \<Rightarrow> string \<Rightarrow> string \<Rightarrow> string" where
  "config_id label scope key = ''c'' @ [field_sep] @ guard_encode_id_field label @ [field_sep] @ scope @ [field_sep] @
     guard_encode_id_field key"

text \<open>\<open>gs_finish\<close>: records sorted by identity, in the order they were captured within one identity, and
  the values of one identity joined.\<close>

fun fold_records :: "(string \<times> string) list \<Rightarrow> (string \<times> string) list" where
  "fold_records ((i, v) # (j, w) # rest) =
     (if i = j then fold_records ((i, v @ [record_sep] @ w) # rest) else (i, v) # fold_records ((j, w) # rest))"
| "fold_records rest = rest"

definition gs_finish :: "(string \<times> string) list \<Rightarrow> (string \<times> string) list" where
  "gs_finish rs = fold_records (sort_key fst rs)"

text \<open>Reading an encoded value back for a report: the decoded bytes, and what follows the value.\<close>

fun decode_value :: "string \<Rightarrow> string \<times> string" where
  "decode_value [] = ([], [])"
| "decode_value (c # s) =
     (if c = record_sep then ([], c # s)
      else if c = esc \<and> s \<noteq> [] then (case decode_value (tl s) of (v, rest) \<Rightarrow> (hd s # v, rest))
      else (case decode_value s of (v, rest) \<Rightarrow> (c # v, rest)))"

fun decode_id_field :: "string \<Rightarrow> string" where
  "decode_id_field (c # d # s) =
     (if c = esc \<and> (d = CHR ''d'' \<or> d = CHR ''f'') then (if d = CHR ''d'' then esc else field_sep) # decode_id_field s
      else c # decode_id_field (d # s))"
| "decode_id_field s = s"

section \<open>Configuration keys\<close>

datatype sub_rule = No_sub | Sub | Any_sub

record guard_key =
  gk_section :: string
  gk_name :: "string option"
  gk_sub :: sub_rule
  gk_bang :: bool

definition gkey :: "string \<Rightarrow> string option \<Rightarrow> sub_rule \<Rightarrow> guard_key" where
  "gkey s n sub = \<lparr>gk_section = s, gk_name = n, gk_sub = sub, gk_bang = False\<rparr>"

text \<open>The table; its fourth column is \<open>false\<close> in every row.\<close>

definition guard_keys :: "guard_key list" where
  "guard_keys =
    [gkey ''attr'' (Some ''tree'') No_sub, gkey ''uploadpackfilter'' (Some ''allow'') Any_sub,
     gkey ''http'' (Some ''followredirects'') Any_sub, gkey ''http'' (Some ''sslverify'') Any_sub,
     gkey ''http'' (Some ''proxy'') Any_sub, gkey ''remote'' (Some ''proxy'') Sub,
     gkey ''http'' (Some ''sslcainfo'') Any_sub, gkey ''http'' (Some ''sslcapath'') Any_sub,
     gkey ''http'' (Some ''proxysslcainfo'') Any_sub, gkey ''http'' (Some ''sslcert'') Any_sub,
     gkey ''http'' (Some ''proxysslcert'') Any_sub, gkey ''http'' (Some ''sslcertpasswordprotected'') Any_sub,
     gkey ''http'' (Some ''proxysslcertpasswordprotected'') Any_sub, gkey ''user'' (Some ''signingkey'') No_sub,
     gkey ''credential'' (Some ''interactive'') No_sub, gkey ''http'' (Some ''proactiveauth'') Any_sub,
     gkey ''core'' (Some ''attributesfile'') No_sub, gkey ''core'' (Some ''usereplacerefs'') No_sub,
     gkey ''tar'' (Some ''remote'') Sub, gkey ''uploadarchive'' (Some ''allowunreachable'') No_sub,
     gkey ''core'' (Some ''worktree'') No_sub, gkey ''tar'' (Some ''command'') Sub,
     gkey ''core'' (Some ''hookspath'') No_sub, gkey ''core'' (Some ''fsmonitor'') No_sub,
     gkey ''core'' (Some ''sshcommand'') No_sub, gkey ''core'' (Some ''editor'') No_sub,
     gkey ''core'' (Some ''pager'') No_sub, gkey ''core'' (Some ''askpass'') No_sub,
     gkey ''core'' (Some ''gitproxy'') No_sub, gkey ''core'' (Some ''alternaterefscommand'') No_sub,
     gkey ''sequence'' (Some ''editor'') No_sub, gkey ''credential'' (Some ''helper'') Any_sub,
     gkey ''filter'' (Some ''clean'') Sub, gkey ''filter'' (Some ''smudge'') Sub,
     gkey ''filter'' (Some ''required'') Sub, gkey ''filter'' (Some ''process'') Sub,
     gkey ''diff'' (Some ''external'') No_sub, gkey ''diff'' (Some ''tool'') No_sub,
     gkey ''diff'' (Some ''guitool'') No_sub, gkey ''difftool'' (Some ''guidefault'') No_sub,
     gkey ''mergetool'' (Some ''guidefault'') No_sub, gkey ''difftool'' (Some ''prompt'') No_sub,
     gkey ''mergetool'' (Some ''prompt'') No_sub, gkey ''merge'' (Some ''tool'') No_sub,
     gkey ''merge'' (Some ''guitool'') No_sub, gkey ''diff'' (Some ''command'') Sub,
     gkey ''diff'' (Some ''textconv'') Sub, gkey ''merge'' (Some ''defaulttoupstream'') No_sub,
     gkey ''merge'' (Some ''ff'') No_sub, gkey ''merge'' (Some ''recursive'') Sub,
     gkey ''merge'' (Some ''default'') No_sub, gkey ''merge'' (Some ''renormalize'') No_sub,
     gkey ''merge'' (Some ''driver'') Sub, gkey ''mergetool'' (Some ''cmd'') Sub,
     gkey ''mergetool'' (Some ''path'') Sub, gkey ''difftool'' (Some ''cmd'') Sub,
     gkey ''difftool'' (Some ''path'') Sub, gkey ''gpg'' (Some ''program'') Any_sub,
     gkey ''commit'' (Some ''gpgsign'') No_sub, gkey ''tag'' (Some ''gpgsign'') No_sub,
     gkey ''tag'' (Some ''forcesignannotated'') No_sub, gkey ''push'' (Some ''gpgsign'') No_sub,
     gkey ''gpg'' (Some ''format'') No_sub, gkey ''log'' (Some ''showsignature'') No_sub,
     gkey ''merge'' (Some ''verifysignatures'') No_sub, gkey ''rebase'' (Some ''autostash'') No_sub,
     gkey ''pull'' (Some ''autostash'') No_sub, gkey ''merge'' (Some ''autostash'') No_sub,
     gkey ''rebase'' (Some ''instructionformat'') No_sub, gkey ''format'' (Some ''commitlistformat'') No_sub,
     gkey ''format'' (Some ''coverletter'') No_sub, gkey ''format'' (Some ''pretty'') No_sub,
     gkey ''pretty'' (None) Any_sub, gkey ''gpg'' (Some ''defaultkeycommand'') Any_sub,
     gkey ''gc'' (Some ''recentobjectshook'') No_sub, gkey ''fetch'' (Some ''bundleuri'') No_sub,
     gkey ''transfer'' (Some ''bundleuri'') No_sub, gkey ''am'' (Some ''threeway'') No_sub,
     gkey ''gc'' (Some ''packrefs'') No_sub, gkey ''fetch'' (Some ''followremotehead'') No_sub,
     gkey ''remote'' (Some ''followremotehead'') Sub, gkey ''fetch'' (Some ''prune'') No_sub,
     gkey ''fetch'' (Some ''prunetags'') No_sub, gkey ''remote'' (Some ''fetch'') Sub,
     gkey ''remote'' (Some ''tagopt'') Sub, gkey ''remote'' (Some ''prune'') Sub,
     gkey ''remote'' (Some ''prunetags'') Sub, gkey ''fetch'' (Some ''fsckobjects'') No_sub,
     gkey ''transfer'' (Some ''fsckobjects'') No_sub, gkey ''fetch'' (Some ''all'') No_sub,
     gkey ''remotes'' (None) Any_sub, gkey ''remote'' (Some ''skipdefaultupdate'') Sub,
     gkey ''remote'' (Some ''skipfetchall'') Sub, gkey ''remote'' (Some ''url'') Sub,
     gkey ''remote'' (Some ''pushurl'') Sub, gkey ''url'' (Some ''insteadof'') Sub,
     gkey ''url'' (Some ''pushinsteadof'') Sub, gkey ''remote'' (Some ''uploadpack'') Sub,
     gkey ''remote'' (Some ''receivepack'') Sub, gkey ''push'' (Some ''useforceifincludes'') No_sub,
     gkey ''push'' (Some ''followtags'') No_sub, gkey ''push'' (Some ''pushoption'') No_sub,
     gkey ''push'' (Some ''default'') No_sub, gkey ''push'' (Some ''autosetupremote'') No_sub,
     gkey ''branch'' (Some ''merge'') Sub, gkey ''remote'' (Some ''push'') Sub,
     gkey ''remote'' (Some ''mirror'') Sub, gkey ''receive'' (Some ''procreceiverefs'') No_sub,
     gkey ''receive'' (Some ''shallowupdate'') No_sub, gkey ''receive'' (Some ''certnonceseed'') No_sub,
     gkey ''receive'' (Some ''advertiseatomic'') No_sub, gkey ''receive'' (Some ''advertisepushoptions'') No_sub,
     gkey ''receive'' (Some ''fsckobjects'') No_sub, gkey ''receive'' (Some ''maxinputsize'') No_sub,
     gkey ''receive'' (Some ''denydeletecurrent'') No_sub,
     gkey ''receive'' (Some ''denynonfastforwards'') No_sub, gkey ''receive'' (Some ''denydeletes'') No_sub,
     gkey ''receive'' (Some ''autogc'') No_sub, gkey ''maintenance'' (Some ''auto'') No_sub,
     gkey ''maintenance'' (Some ''strategy'') No_sub, gkey ''maintenance'' (Some ''repo'') No_sub,
     gkey ''gc'' (Some ''auto'') No_sub, gkey ''gc'' (Some ''autopacklimit'') No_sub,
     gkey ''receive'' (Some ''denycurrentbranch'') No_sub, gkey ''remote'' (Some ''promisor'') Sub,
     gkey ''remote'' (Some ''partialclonefilter'') Sub, gkey ''extensions'' (Some ''partialclone'') No_sub,
     gkey ''checkout'' (Some ''guess'') No_sub, gkey ''checkout'' (Some ''defaultremote'') No_sub,
     gkey ''pull'' (Some ''rebase'') No_sub, gkey ''branch'' (Some ''rebase'') Sub,
     gkey ''pull'' (Some ''ff'') No_sub, gkey ''pull'' (Some ''twohead'') No_sub,
     gkey ''pull'' (Some ''octopus'') No_sub, gkey ''branch'' (Some ''mergeoptions'') Sub,
     gkey ''branch'' (Some ''remote'') Sub, gkey ''branch'' (Some ''pushremote'') Sub,
     gkey ''remote'' (Some ''pushdefault'') No_sub, gkey ''uploadpack'' (Some ''hiderefs'') No_sub,
     gkey ''receive'' (Some ''hiderefs'') No_sub, gkey ''transfer'' (Some ''hiderefs'') No_sub,
     gkey ''remote'' (Some ''vcs'') Sub, gkey ''uploadpack'' (Some ''packobjectshook'') No_sub,
     gkey ''sendemail'' (Some ''identity'') No_sub, gkey ''sendemail'' (Some ''smtpuser'') Any_sub,
     gkey ''sendemail'' (Some ''smtppass'') Any_sub, gkey ''sendemail'' (Some ''smtpauth'') Any_sub,
     gkey ''sendemail'' (Some ''confirm'') Any_sub, gkey ''sendemail'' (Some ''annotate'') Any_sub,
     gkey ''sendemail'' (Some ''suppresscc'') Any_sub, gkey ''sendemail'' (Some ''validate'') Any_sub,
     gkey ''sendemail'' (Some ''useimaponly'') Any_sub, gkey ''sendemail'' (Some ''imapsentfolder'') Any_sub,
     gkey ''sendemail'' (Some ''tocmd'') Any_sub, gkey ''sendemail'' (Some ''cccmd'') Any_sub,
     gkey ''sendemail'' (Some ''headercmd'') Any_sub, gkey ''sendemail'' (Some ''sendmailcmd'') Any_sub,
     gkey ''sendemail'' (Some ''smtpserver'') Any_sub, gkey ''include'' (Some ''path'') No_sub,
     gkey ''includeif'' (Some ''path'') Sub, gkey ''submodule'' (Some ''active'') Any_sub,
     gkey ''submodule'' (Some ''url'') Sub, gkey ''submodule'' (Some ''recurse'') No_sub,
     gkey ''fetch'' (Some ''recursesubmodules'') No_sub,
     gkey ''submodule'' (Some ''fetchrecursesubmodules'') Sub, gkey ''submodule'' (Some ''ignore'') Sub,
     gkey ''diff'' (Some ''ignoresubmodules'') No_sub, gkey ''diff'' (Some ''submodule'') No_sub,
     gkey ''status'' (Some ''submodulesummary'') No_sub, gkey ''push'' (Some ''recursesubmodules'') No_sub,
     gkey ''alias'' (None) Any_sub, gkey ''submodule'' (Some ''update'') Sub, gkey ''pager'' (None) No_sub,
     gkey ''interactive'' (Some ''difffilter'') No_sub, gkey ''imap'' (Some ''tunnel'') No_sub,
     gkey ''svn'' (Some ''authorsprog'') No_sub, gkey ''instaweb'' (Some ''httpd'') No_sub,
     gkey ''guitool'' (Some ''cmd'') Sub, gkey ''help'' (Some ''autocorrect'') No_sub,
     gkey ''help'' (Some ''browser'') No_sub, gkey ''help'' (Some ''format'') No_sub,
     gkey ''instaweb'' (Some ''browser'') No_sub, gkey ''man'' (Some ''viewer'') No_sub,
     gkey ''web'' (Some ''browser'') No_sub, gkey ''browser'' (Some ''cmd'') Sub,
     gkey ''browser'' (Some ''path'') Sub, gkey ''man'' (Some ''cmd'') Sub,
     gkey ''man'' (Some ''path'') Sub, gkey ''init'' (Some ''templatedir'') No_sub,
     gkey ''hook'' (Some ''event'') Sub, gkey ''hook'' (Some ''enabled'') Sub,
     gkey ''hook'' (Some ''command'') Sub, gkey ''trailer'' (Some ''command'') Sub,
     gkey ''trailer'' (Some ''cmd'') Sub, gkey ''protocol'' (Some ''allow'') Any_sub,
     gkey ''lfs'' (Some ''gitprotocol'') No_sub, gkey ''lfs'' (Some ''url'') No_sub,
     gkey ''lfs'' (Some ''pushurl'') No_sub, gkey ''remote'' (Some ''lfsurl'') Sub,
     gkey ''remote'' (Some ''lfspushurl'') Sub, gkey ''lfs'' (Some ''access'') Any_sub,
     gkey ''lfs'' (Some ''fetchinclude'') No_sub, gkey ''lfs'' (Some ''fetchexclude'') No_sub,
     gkey ''lfs'' (Some ''basictransfersonly'') No_sub, gkey ''lfs'' (Some ''standalonetransferagent'') Any_sub,
     gkey ''lfs'' (Some ''path'') Sub, gkey ''lfs'' (Some ''clean'') Sub, gkey ''lfs'' (Some ''smudge'') Sub]"

definition lower :: "char \<Rightarrow> char" where
  "lower c = (if 65 \<le> (of_char c :: nat) \<and> of_char c \<le> (90 :: nat) then char_of (of_char c + (32 :: nat)) else c)"

definition caseless :: "string \<Rightarrow> string \<Rightarrow> bool" where
  "caseless a b \<longleftrightarrow> map lower a = map lower b"

definition signature_atom :: "string \<Rightarrow> bool" where
  "signature_atom s \<longleftrightarrow> take 9 s = ''signature'' \<and> (length s = 9 \<or> s ! 9 = CHR '':'')"

definition guard_signature_sort :: "string option \<Rightarrow> bool" where
  "guard_signature_sort v = (case v of None \<Rightarrow> False | Some s \<Rightarrow>
     let s = (if s \<noteq> [] \<and> hd s = CHR ''-'' then tl s else s);
         s = (if take 8 s = ''version:'' then drop 8 s else if take 2 s = ''v:'' then drop 2 s else s);
         s = (if s \<noteq> [] \<and> hd s = CHR ''*'' then tl s else s) in
     signature_atom s)"

text \<open>A key \<open>section.name\<close> or \<open>section.subsection.name\<close>: the section ends at the first dot, the name
  starts after the last.\<close>

definition config_section :: "string \<Rightarrow> string" where
  "config_section key = takeWhile (\<lambda>c. c \<noteq> CHR ''.'') key"

definition config_name :: "string \<Rightarrow> string" where
  "config_name key = rev (takeWhile (\<lambda>c. c \<noteq> CHR ''.'') (rev key))"

definition config_subsection :: "string \<Rightarrow> string option" where
  "config_subsection key =
     (let s = length (config_section key); n = length (config_name key) in
      if length key = s + 1 + n then None else Some (take (length key - s - n - 2) (drop (s + 1) key)))"

definition guard_key_redacts_value :: "string \<Rightarrow> bool" where
  "guard_key_redacts_value key \<longleftrightarrow> CHR ''.'' \<in> set key \<and> length (config_section key) = 9 \<and>
     caseless (config_section key) ''sendemail'' \<and> caseless (config_name key) ''smtppass''"

definition matches_key :: "string \<Rightarrow> string option \<Rightarrow> string \<Rightarrow> string option \<Rightarrow> guard_key \<Rightarrow> bool" where
  "matches_key section sub name v k \<longleftrightarrow> caseless section (gk_section k) \<and>
     (case gk_sub k of No_sub \<Rightarrow> sub = None | Sub \<Rightarrow> sub \<noteq> None | Any_sub \<Rightarrow> True) \<and>
     (case gk_name k of None \<Rightarrow> True | Some n \<Rightarrow> caseless name n) \<and>
     (gk_bang k \<longrightarrow> (case v of None \<Rightarrow> False | Some s \<Rightarrow> s \<noteq> [] \<and> hd s = CHR ''!''))"

definition custom_transfer :: "string \<Rightarrow> bool" where
  "custom_transfer sub \<longleftrightarrow> 15 < length sub \<and> caseless (take 15 sub) ''customtransfer.'' \<and> CHR ''.'' \<notin> set (drop 15 sub)"

definition guard_key_runs_command :: "string \<Rightarrow> string option \<Rightarrow> bool" where
  "guard_key_runs_command key v =
     (let section = config_section key; name = config_name key; sub = config_subsection key in
      if CHR ''.'' \<notin> set key \<or> name = [] then False
      else if caseless section ''uploadpackfilter'' \<and> sub = Some ''tree'' \<and> caseless name ''maxdepth'' then True
      else if sub = Some ''fsck'' \<and> (caseless section ''receive'' \<or> caseless section ''fetch'') then True
      else if caseless section ''lfs'' \<and> (case sub of None \<Rightarrow> False | Some s \<Rightarrow> custom_transfer s) \<and>
          (caseless name ''args'' \<or> caseless name ''direction'') then True
      else if caseless section ''maintenance'' \<and> sub \<in> {Some ''gc'', Some ''prefetch'', Some ''pack-refs''} \<and>
          (caseless name ''enabled'' \<or> caseless name ''schedule'') then True
      else if sub = None \<and> caseless name ''sort'' \<and> (caseless section ''branch'' \<or> caseless section ''tag'')
        then guard_signature_sort v
      else list_ex (matches_key section sub name v) guard_keys)"

end
