(* ===== verification/Sha256.thy ===== *)
theory Sha256
  imports Forkfs_Prelude
begin

text \<open>
  The SHA-256 of \<^verbatim>\<open>core/src/history.cpp\<close>: a streaming digest that buffers less than a block between
  calls. The buffer is the list of its first \<open>len\<close> bytes. The theory shows that hashing in any
  pieces is the textbook digest of the whole: pad, cut into blocks, fold.
\<close>

unbundle bit_operations_syntax

section \<open>The compression function\<close>

record sha256 =
  sh_h :: "u32 list"
  sh_bits :: u64
  sh_buf :: bytes

definition round_constants :: "u32 list" where
  "round_constants = concat
    [[0x428a2f98, 0x71374491, 0xb5c0fbcf, 0xe9b5dba5, 0x3956c25b, 0x59f111f1, 0x923f82a4],
     [0xab1c5ed5, 0xd807aa98, 0x12835b01, 0x243185be, 0x550c7dc3, 0x72be5d74, 0x80deb1fe],
     [0x9bdc06a7, 0xc19bf174, 0xe49b69c1, 0xefbe4786, 0x0fc19dc6, 0x240ca1cc, 0x2de92c6f],
     [0x4a7484aa, 0x5cb0a9dc, 0x76f988da, 0x983e5152, 0xa831c66d, 0xb00327c8, 0xbf597fc7],
     [0xc6e00bf3, 0xd5a79147, 0x06ca6351, 0x14292967, 0x27b70a85, 0x2e1b2138, 0x4d2c6dfc],
     [0x53380d13, 0x650a7354, 0x766a0abb, 0x81c2c92e, 0x92722c85, 0xa2bfe8a1, 0xa81a664b],
     [0xc24b8b70, 0xc76c51a3, 0xd192e819, 0xd6990624, 0xf40e3585, 0x106aa070, 0x19a4c116],
     [0x1e376c08, 0x2748774c, 0x34b0bcb5, 0x391c0cb3, 0x4ed8aa4a, 0x5b9cca4f, 0x682e6ff3],
     [0x748f82ee, 0x78a5636f, 0x84c87814, 0x8cc70208, 0x90befffa, 0xa4506ceb, 0xbef9a3f7],
     [0xc67178f2]]"

definition rotr :: "u32 \<Rightarrow> nat \<Rightarrow> u32" where
  "rotr x n = drop_bit n x OR push_bit (32 - n) x"

definition initial_hash :: "u32 list" where
  "initial_hash = [0x6a09e667, 0xbb67ae85, 0x3c6ef372, 0xa54ff53a, 0x510e527f, 0x9b05688c, 0x1f83d9ab, 0x5be0cd19]"

definition sha256_init :: sha256 where
  "sha256_init = \<lparr>sh_h = initial_hash, sh_bits = 0, sh_buf = []\<rparr>"

definition block_word :: "bytes \<Rightarrow> nat \<Rightarrow> u32" where
  "block_word p i = push_bit 24 (of_char (p ! (i * 4))) OR push_bit 16 (of_char (p ! (i * 4 + 1))) OR
     push_bit 8 (of_char (p ! (i * 4 + 2))) OR of_char (p ! (i * 4 + 3))"

definition extend_schedule :: "nat \<Rightarrow> u32 list \<Rightarrow> u32 list" where
  "extend_schedule i w =
     (let s0 = rotr (w ! (i - 15)) 7 XOR rotr (w ! (i - 15)) 18 XOR drop_bit 3 (w ! (i - 15));
          s1 = rotr (w ! (i - 2)) 17 XOR rotr (w ! (i - 2)) 19 XOR drop_bit 10 (w ! (i - 2)) in
      w @ [w ! (i - 16) + s0 + w ! (i - 7) + s1])"

definition schedule :: "bytes \<Rightarrow> u32 list" where
  "schedule p = fold extend_schedule [16..<64] (map (block_word p) [0..<16])"

definition sha_round :: "u32 list \<Rightarrow> nat \<Rightarrow> u32 list \<Rightarrow> u32 list" where
  "sha_round w i v =
     (let a = v ! 0; b = v ! 1; c = v ! 2; d = v ! 3; e = v ! 4; f = v ! 5; g = v ! 6; h = v ! 7;
          S1 = rotr e 6 XOR rotr e 11 XOR rotr e 25;
          ch = (e AND f) XOR (NOT e AND g);
          t1 = h + S1 + ch + round_constants ! i + w ! i;
          S0 = rotr a 2 XOR rotr a 13 XOR rotr a 22;
          maj = (a AND b) XOR (a AND c) XOR (b AND c);
          t2 = S0 + maj in
      [t1 + t2, a, b, c, d + t1, e, f, g])"

definition sha256_block :: "bytes \<Rightarrow> u32 list \<Rightarrow> u32 list" where
  "sha256_block p h = map2 (+) h (fold (sha_round (schedule p)) [0..<64] h)"

section \<open>Streaming\<close>

fun whole_blocks :: "bytes \<Rightarrow> u32 list \<Rightarrow> bytes \<times> u32 list" where
  "whole_blocks p h = (if 64 \<le> length p then whole_blocks (drop 64 p) (sha256_block (take 64 p) h) else (p, h))"

declare whole_blocks.simps [simp del]

definition sha256_update :: "bytes \<Rightarrow> sha256 \<Rightarrow> sha256" where
  "sha256_update data s =
     (let bits = sh_bits s + of_nat (length data) * 8;
          taken = (if sh_buf s = [] then 0 else min (64 - length (sh_buf s)) (length data));
          buf = sh_buf s @ take taken data;
          h = (if sh_buf s \<noteq> [] \<and> length buf = 64 then sha256_block buf (sh_h s) else sh_h s);
          buf = (if sh_buf s \<noteq> [] \<and> length buf = 64 then [] else buf) in
      case whole_blocks (drop taken data) h of (rest, h) \<Rightarrow>
        \<lparr>sh_h = h, sh_bits = bits, sh_buf = (if rest \<noteq> [] then rest else buf)\<rparr>)"

text \<open>The padding loop: a byte at a time until the buffer holds 56 bytes. It ends within 64 turns.\<close>

primrec pad_loop :: "nat \<Rightarrow> sha256 \<Rightarrow> sha256" where
  "pad_loop 0 s = s"
| "pad_loop (Suc n) s = (if length (sh_buf s) = 56 then s else pad_loop n (sha256_update [CHR 0x00] s))"

definition big64 :: "u64 \<Rightarrow> bytes" where
  "big64 n = rev (le_store 8 (unat n))"

definition big32 :: "u32 \<Rightarrow> bytes" where
  "big32 n = rev (le_store 4 (unat n))"

definition sha256_final :: "sha256 \<Rightarrow> bytes" where
  "sha256_final s =
     (let s' = sha256_update (big64 (sh_bits s)) (pad_loop 64 (sha256_update [CHR 0x80] s)) in
      concat (map big32 (sh_h s')))"

definition hex_encode :: "bytes \<Rightarrow> string" where
  "hex_encode b = hex b"

section \<open>The reference digest\<close>

definition sha_padding :: "bytes \<Rightarrow> bytes" where
  "sha_padding m = [CHR 0x80] @ replicate ((119 - length m mod 64) mod 64) (CHR 0x00) @ big64 (of_nat (length m) * 8)"

definition sha_digest :: "bytes \<Rightarrow> bytes" where
  "sha_digest m = concat (map big32 (snd (whole_blocks (m @ sha_padding m) initial_hash)))"

section \<open>Hashing in pieces\<close>

definition sha_ok :: "sha256 \<Rightarrow> bool" where
  "sha_ok s \<longleftrightarrow> length (sh_buf s) < 64"

lemma whole_blocks_rest: "length (fst (whole_blocks p h)) < 64"
  by (induction p h rule: whole_blocks.induct) (subst whole_blocks.simps, simp)

lemma whole_blocks_short [simp]: "length p < 64 \<Longrightarrow> whole_blocks p h = (p, h)"
  by (simp add: whole_blocks.simps)

lemma whole_blocks_block: "length p = 64 \<Longrightarrow> whole_blocks (p @ q) h = whole_blocks q (sha256_block p h)"
  by (subst whole_blocks.simps) simp

lemma whole_blocks_append:
  "whole_blocks (p @ q) h = (case whole_blocks p h of (r, h') \<Rightarrow> whole_blocks (r @ q) h')"
proof (induction p h rule: whole_blocks.induct)
  case (1 p h)
  show ?case
  proof (cases "64 \<le> length p")
    case True
    have "whole_blocks (p @ q) h = whole_blocks (drop 64 p @ q) (sha256_block (take 64 p) h)"
      using True by (subst whole_blocks.simps) simp
    moreover have "whole_blocks p h = whole_blocks (drop 64 p) (sha256_block (take 64 p) h)"
      using True by (subst whole_blocks.simps) simp
    ultimately show ?thesis using 1 [OF True] by simp
  qed simp
qed

text \<open>An update absorbs the buffer and the data as one string.\<close>

lemma update_absorbs:
  assumes "sha_ok s"
  shows "sha256_update data s = (case whole_blocks (sh_buf s @ data) (sh_h s) of (rest, h) \<Rightarrow>
    \<lparr>sh_h = h, sh_bits = sh_bits s + of_nat (length data) * 8, sh_buf = rest\<rparr>)"
proof (cases "sh_buf s = []")
  case True
  then show ?thesis by (auto simp: sha256_update_def split: prod.split)
next
  case False
  define k where "k = 64 - length (sh_buf s)"
  show ?thesis
  proof (cases "length data < k")
    case True
    then show ?thesis using False assms
      by (simp add: sha256_update_def k_def sha_ok_def Let_def)
  next
    case larger: False
    have full: "length (sh_buf s @ take k data) = 64" using larger assms by (simp add: k_def sha_ok_def)
    have "whole_blocks (sh_buf s @ data) (sh_h s) = whole_blocks ((sh_buf s @ take k data) @ drop k data) (sh_h s)"
      by simp
    also have "\<dots> = whole_blocks (drop k data) (sha256_block (sh_buf s @ take k data) (sh_h s))"
      by (rule whole_blocks_block [OF full])
    finally show ?thesis using False larger full
      by (auto simp: sha256_update_def k_def Let_def min_def split: prod.split)
  qed
qed

lemma update_ok: "sha_ok s \<Longrightarrow> sha_ok (sha256_update data s)"
  using whole_blocks_rest [of "sh_buf s @ data" "sh_h s"]
  by (auto simp: update_absorbs sha_ok_def split: prod.split)

lemma update_append:
  assumes "sha_ok s"
  shows "sha256_update b (sha256_update a s) = sha256_update (a @ b) s"
proof -
  obtain r h where w: "whole_blocks (sh_buf s @ a) (sh_h s) = (r, h)" by force
  have "whole_blocks (sh_buf s @ a @ b) (sh_h s) = whole_blocks (r @ b) h"
    using whole_blocks_append [of "sh_buf s @ a" b "sh_h s"] w by simp
  then show ?thesis
    using update_ok [OF assms, of a]
    by (auto simp: update_absorbs [OF assms] update_absorbs w algebra_simps split: prod.split)
qed

lemma fold_update:
  "sha_ok s \<Longrightarrow> fold sha256_update ds s = (if ds = [] then s else sha256_update (concat ds) s)"
proof (induction ds arbitrary: s)
  case (Cons d ds)
  then show ?case using update_append [OF Cons.prems, of _ d] update_ok [OF Cons.prems, of d] by auto
qed simp

lemma whole_blocks_length: "length (fst (whole_blocks p h)) = length p mod 64"
proof (induction p h rule: whole_blocks.induct)
  case (1 p h)
  then show ?case by (subst whole_blocks.simps) (auto simp: le_mod_geq)
qed

lemma update_empty: "sha_ok s \<Longrightarrow> sha256_update [] s = s"
  by (simp add: update_absorbs sha_ok_def)

lemma update_length: "sha_ok s \<Longrightarrow> length (sh_buf (sha256_update d s)) = (length (sh_buf s) + length d) mod 64"
  using whole_blocks_length [of "sh_buf s @ d" "sh_h s"] by (auto simp: update_absorbs split: prod.split)

text \<open>The padding loop adds the zeros that fill the buffer to 56 bytes.\<close>

lemma pad_loop_zeros:
  "sha_ok s \<Longrightarrow> k < 64 \<Longrightarrow> (length (sh_buf s) + k) mod 64 = 56 \<Longrightarrow> k \<le> n \<Longrightarrow>
    pad_loop n s = sha256_update (replicate k (CHR 0x00)) s"
proof (induction n arbitrary: s k)
  case 0
  then show ?case by (simp add: update_empty)
next
  case (Suc n)
  show ?case
  proof (cases k)
    case 0
    then show ?thesis using Suc.prems by (simp add: update_empty sha_ok_def)
  next
    case (Suc m)
    have short: "length (sh_buf s) \<noteq> 56" using Suc.prems Suc by (auto simp: sha_ok_def) presburger
    let ?t = "sha256_update [CHR 0x00] s"
    have "pad_loop n ?t = sha256_update (replicate m (CHR 0x00)) ?t"
      using Suc.prems Suc by (intro Suc.IH) (auto simp: update_ok update_length mod_simps)
    then show ?thesis
      using short Suc Suc.prems(1) by (simp add: update_append)
  qed
qed

lemma padding_length: "x < 64 \<Longrightarrow> ((x + 1) mod 64 + (119 - x) mod 64) mod 64 = (56 :: nat)"
proof -
  assume "x < 64"
  have "((x + 1) mod 64 + (119 - x) mod 64) mod 64 = (x + 1 + (119 - x)) mod 64" by (rule mod_add_eq)
  also have "x + 1 + (119 - x) = 120" using \<open>x < 64\<close> by simp
  finally show ?thesis by simp
qed

lemma final_digest:
  assumes "sha_ok s" and "s = sha256_update m sha256_init"
  shows "sha256_final s = sha_digest m"
proof -
  let ?k = "(119 - length m mod 64) mod 64"
  let ?one = "sha256_update [CHR 0x80] s"
  have init: "sha_ok sha256_init" by (simp add: sha_ok_def sha256_init_def)
  have buf: "length (sh_buf s) = length m mod 64"
    using update_length [OF init, of m] assms(2) by (simp add: sha256_init_def)
  have bits: "sh_bits s = of_nat (length m) * 8"
    using assms(2) init by (auto simp: update_absorbs sha256_init_def split: prod.split)
  have one: "sha_ok ?one" by (rule update_ok [OF assms(1)])
  have "(length (sh_buf ?one) + ?k) mod 64 = 56"
    using padding_length [of "length m mod 64"] buf by (simp add: update_length [OF assms(1)])
  then have "pad_loop 64 ?one = sha256_update (replicate ?k (CHR 0x00)) ?one"
    by (intro pad_loop_zeros [OF one]) auto
  then have "sha256_update (big64 (sh_bits s)) (pad_loop 64 ?one) = sha256_update (m @ sha_padding m) sha256_init"
    using assms init one unfolding bits by (simp add: update_append update_ok sha_padding_def)
  then show ?thesis
    using init by (auto simp: sha256_final_def sha_digest_def update_absorbs sha256_init_def Let_def split: prod.split)
qed

text \<open>C26. However a message is cut into pieces, feeding the pieces to the streaming digest and finishing it
  gives the reference digest of the whole message: pad to whole blocks, fold the compression
  function over the blocks, print the state big-endian.\<close>

theorem sha256_streaming: "sha256_final (fold sha256_update ds sha256_init) = sha_digest (concat ds)"
proof -
  have init: "sha_ok sha256_init" by (simp add: sha_ok_def sha256_init_def)
  then have "fold sha256_update ds sha256_init = sha256_update (concat ds) sha256_init"
    using fold_update [OF init, of ds] by (cases "ds = []") (simp_all add: update_empty)
  then show ?thesis using final_digest update_ok [OF init] by metis
qed

end
