(* ===== verification/Cli_Json.thy ===== *)
theory Cli_Json
  imports Text_Format
begin

text \<open>
  \<^verbatim>\<open>cli/json.h\<close>: the JSON the command line prints. File names are arbitrary bytes: well-formed UTF-8 is
  printed as it is, any other byte as an escaped lone surrogate, so that a reader can recover the
  name. A C string is a list of non-zero bytes.
\<close>

section \<open>Strings\<close>

text \<open>How many continuation bytes a lead byte announces, and whether the bytes that follow fit it.\<close>

definition utf8_extra :: "nat \<Rightarrow> nat" where
  "utf8_extra c = (if 0xC2 \<le> c \<and> c \<le> 0xDF then 1 else if 0xE0 \<le> c \<and> c \<le> 0xEF then 2
     else if 0xF0 \<le> c \<and> c \<le> 0xF4 then 3 else 0)"

definition utf8_tail :: "nat \<Rightarrow> bytes \<Rightarrow> bool" where
  "utf8_tail c p \<longleftrightarrow>
     (let n = utf8_extra c; v = (\<lambda>i. of_char (p ! i) :: nat) in
      n \<noteq> 0 \<and> n \<le> length p \<and> (\<forall>i \<in> {0..<n}. 0x80 \<le> v i \<and> v i \<le> 0xBF) \<and>
      \<not> (c = 0xE0 \<and> v 0 < 0xA0 \<or> c = 0xED \<and> 0xA0 \<le> v 0 \<or> c = 0xF0 \<and> v 0 < 0x90 \<or> c = 0xF4 \<and> 0x90 \<le> v 0))"

definition hex2 :: "nat \<Rightarrow> string" where
  "hex2 n = [hex_digit (n div 16), hex_digit (n mod 16)]"

function json_text :: "bytes \<Rightarrow> string" where
  "json_text [] = []"
| "json_text (c # p) =
     (let v = of_char c :: nat; n = utf8_extra v in
      if v = 34 \<or> v = 92 then CHR 0x5C # c # json_text p
      else if v < 32 then CHR 0x5C # ''u00'' @ hex2 v @ json_text p
      else if v < 128 then c # json_text p
      else if utf8_tail v p then c # take n p @ json_text (drop n p)
      else CHR 0x5C # ''udc'' @ hex2 v @ json_text p)"
  by pat_completeness auto
termination
  by (relation "measure length") auto

declare json_text.simps(2) [simp del]

definition cli_string :: "bytes \<Rightarrow> string" where
  "cli_string s = quote_char @ json_text s @ quote_char"

section \<open>Objects\<close>

definition json_key :: "string \<Rightarrow> string \<Rightarrow> string" where
  "json_key name text = cli_string name @ '':'' @ text"

definition json_str :: "string \<Rightarrow> bytes \<Rightarrow> string" where
  "json_str name v = json_key name (cli_string v)"

definition json_num :: "string \<Rightarrow> nat \<Rightarrow> string" where
  "json_num name v = json_key name (dec v)"

definition json_signed :: "string \<Rightarrow> int \<Rightarrow> string" where
  "json_signed name v = json_key name (if v < 0 then ''-'' @ dec (nat (- v)) else dec (nat v))"

definition json_boolean :: "string \<Rightarrow> bool \<Rightarrow> string" where
  "json_boolean name v = json_key name (flag v)"

definition json_ref :: "string \<Rightarrow> char \<Rightarrow> nat \<Rightarrow> string" where
  "json_ref name kind i = json_key name (if i \<noteq> 0 then quote_char @ [kind] @ dec i @ quote_char else ''null'')"

definition json_state :: "int \<Rightarrow> string" where
  "json_state s = (if s = 0 then ''creating'' else if s = 1 then ''active'' else if s = 2 then ''trashed''
     else if s = 3 then ''dead'' else if s = 4 then ''trashing'' else ''unknown'')"

record snapshot_rec =
  sn_id :: nat
  sn_name :: bytes
  sn_path :: bytes
  sn_src_path :: bytes
  sn_from_world :: nat
  sn_state :: int
  sn_created_at :: int
  sn_trashed_at :: int
  sn_entries :: nat
  sn_hardlinks :: nat
  sn_hl_groups :: nat
  sn_hl_external :: nat
  sn_root_mode :: nat
  sn_hard :: bool

definition json_snapshot :: "snapshot_rec \<Rightarrow> string" where
  "json_snapshot v = object_text [json_num ''schema_version'' 1, json_str ''kind'' ''snapshot'', json_ref ''id'' (CHR ''S'') (sn_id v),
     json_str ''name'' (sn_name v), json_str ''path'' (sn_path v), json_str ''src_path'' (sn_src_path v),
     json_ref ''from_world'' (CHR ''W'') (sn_from_world v), json_str ''state'' (json_state (sn_state v)),
     json_signed ''created_at'' (sn_created_at v), json_signed ''trashed_at'' (sn_trashed_at v),
     json_num ''entries'' (sn_entries v), json_num ''hardlinks'' (sn_hardlinks v), json_num ''hl_groups'' (sn_hl_groups v),
     json_num ''hl_external'' (sn_hl_external v), json_num ''root_mode'' (sn_root_mode v),
     json_str ''protection'' (if sn_hard v then ''hard'' else ''gate'')]"

record git_info =
  gi_branch :: bytes
  gi_head :: bytes
  gi_baseline :: bytes
  gi_git_dir :: bytes

record world_rec =
  wo_id :: nat
  wo_name :: bytes
  wo_path :: bytes
  wo_state :: int
  wo_parent_world :: nat
  wo_snapshot :: nat
  wo_origin :: int
  wo_created_at :: int
  wo_trashed_at :: int
  wo_entries :: nat
  wo_dir_dev :: nat
  wo_dir_ino :: nat
  wo_fsevents :: nat
  wo_present :: bool

text \<open>The Git part is printed when there is a repository.\<close>

definition json_world :: "world_rec \<Rightarrow> git_info option \<Rightarrow> string" where
  "json_world v git = object_text ([json_num ''schema_version'' 1, json_str ''kind'' ''world'', json_ref ''id'' (CHR ''W'') (wo_id v),
     json_str ''name'' (wo_name v), json_str ''path'' (wo_path v), json_str ''state'' (json_state (wo_state v)),
     json_ref ''parent_world'' (CHR ''W'') (wo_parent_world v), json_ref ''snapshot_id'' (CHR ''S'') (wo_snapshot v),
     json_str ''origin'' (if wo_origin v = 1 then ''snapshot'' else if wo_origin v = 2 then ''world''
       else if wo_origin v = 3 then ''adopted'' else ''unknown''),
     json_signed ''created_at'' (wo_created_at v), json_signed ''trashed_at'' (wo_trashed_at v),
     json_num ''entries'' (wo_entries v), json_num ''dir_dev'' (wo_dir_dev v), json_num ''dir_ino'' (wo_dir_ino v),
     json_num ''fsevents_id'' (wo_fsevents v), json_boolean ''present'' (wo_present v)] @
     (case git of None \<Rightarrow> [] | Some g \<Rightarrow> [json_key ''git'' (object_text [json_str ''branch'' (gi_branch g),
       json_str ''head'' (gi_head g), json_str ''baseline'' (gi_baseline g), json_str ''git_dir'' (gi_git_dir g)])]))"

definition json_change_code :: "char \<Rightarrow> string" where
  "json_change_code c = (if c = CHR ''A'' then ''added'' else if c = CHR ''M'' then ''modified''
     else if c = CHR ''D'' then ''deleted'' else if c = CHR ''T'' then ''metadata'' else ''unknown'')"

definition json_coverage :: "int \<Rightarrow> string" where
  "json_coverage c = (if c = 1 then ''mediated'' else if c = 2 then ''observed'' else if c = 3 then ''incomplete'' else ''unknown'')"

definition json_origin :: "int \<Rightarrow> string" where
  "json_origin c = (if c = 1 then ''tool'' else if c = 2 then ''filesystem'' else if c = 3 then ''restore'' else ''unknown'')"

record revision_rec =
  rv_id :: nat
  rv_world :: nat
  rv_parent :: nat
  rv_baseline :: nat
  rv_origin :: int
  rv_coverage :: int
  rv_actor :: bytes
  rv_turn :: bytes
  rv_tool_call :: bytes
  rv_git_head :: bytes
  rv_started :: int
  rv_finished :: int
  rv_created :: int
  rv_changes :: nat
  rv_added :: nat
  rv_modified :: nat
  rv_deleted :: nat
  rv_meta :: nat

definition json_revision :: "revision_rec \<Rightarrow> string" where
  "json_revision v = object_text [json_num ''schema_version'' 1, json_str ''kind'' ''revision'', json_ref ''id'' (CHR ''R'') (rv_id v),
     json_ref ''world_id'' (CHR ''W'') (rv_world v), json_ref ''parent_revision'' (CHR ''R'') (rv_parent v),
     json_ref ''baseline_snapshot'' (CHR ''S'') (rv_baseline v),
     json_str ''origin'' (json_origin (rv_origin v)), json_str ''coverage'' (json_coverage (rv_coverage v)),
     json_str ''actor_id'' (rv_actor v), json_str ''turn_id'' (rv_turn v), json_str ''tool_call_id'' (rv_tool_call v),
     json_str ''git_head'' (rv_git_head v), json_signed ''capture_started_at'' (rv_started v),
     json_signed ''capture_finished_at'' (rv_finished v), json_signed ''created_at'' (rv_created v),
     json_num ''changes'' (rv_changes v), json_num ''added'' (rv_added v), json_num ''modified'' (rv_modified v),
     json_num ''deleted'' (rv_deleted v), json_num ''meta'' (rv_meta v)]"

record revision_change =
  rc_file_id :: nat
  rc_change :: char
  rc_type :: int
  rc_path :: bytes
  rc_before :: bytes
  rc_after :: bytes
  rc_size :: nat
  rc_mode :: nat

definition json_revision_change :: "revision_change \<Rightarrow> string" where
  "json_revision_change c = object_text [json_num ''file_id'' (rc_file_id c), json_str ''change'' (json_change_code (rc_change c)),
     json_str ''path'' (rc_path c), json_str ''before_hash'' (rc_before c), json_str ''after_hash'' (rc_after c),
     json_num ''size'' (rc_size c), json_num ''mode'' (rc_mode c)]"

section \<open>Lists\<close>

text \<open>\<open>json_read_list\<close>: ask for the count, then read with that capacity, at most eight times. The list
  call is the function \<open>list\<close>: given a capacity and the number of the call, the items it holds then
  or an error; it reports their number and fills the buffer up to the capacity. The buffer is always allocated:
  \<open>ENOMEM\<close> is not modelled.\<close>

primrec read_list_loop :: "nat \<Rightarrow> (nat \<Rightarrow> int + 'a list) \<Rightarrow> nat \<Rightarrow> nat \<Rightarrow> int + 'a list" where
  "read_list_loop 0 list call cap = Inl (- 11)"
| "read_list_loop (Suc attempts) list call cap =
     (if cap = 0 then Inr []
      else case list call of Inl rc \<Rightarrow> Inl rc
        | Inr items \<Rightarrow> if length items \<le> cap then Inr items else read_list_loop attempts list (call + 1) (length items))"

definition json_read_list :: "(nat \<Rightarrow> int + 'a list) \<Rightarrow> int + 'a list" where
  "json_read_list list = (case list 0 of Inl rc \<Rightarrow> Inl rc | Inr items \<Rightarrow> read_list_loop 8 list 1 (length items))"

end
