(* ===== verification/World_Marker.thy ===== *)
theory World_Marker
  imports Text_Format
begin

text \<open>
  The \<^verbatim>\<open>.world\<close> marker of \<^verbatim>\<open>core/src/world.cpp\<close>: a small JSON object written and read by hand. A C string
  is a list of non-zero bytes and a pointer into it is the suffix it points to, so that reading
  the terminating NUL is meeting the empty list.
\<close>

section \<open>Writing\<close>

abbreviation quot :: char where "quot \<equiv> CHR 0x22"
abbreviation bslash :: char where "bslash \<equiv> CHR 0x5C"

definition json_escape :: "string \<Rightarrow> string" where
  "json_escape s = concat (map (\<lambda>c. if c = quot \<or> c = bslash then [bslash, c] else [c]) s)"

definition signed_dec :: "int \<Rightarrow> string" where
  "signed_dec n = (if n < 0 then ''-'' @ dec (nat (- n)) else dec (nat n))"

text \<open>One pair of the object, after the separator that precedes it.\<close>

definition pair_text :: "string \<Rightarrow> string \<Rightarrow> string" where
  "pair_text key v = line_end @ ''  '' @ [quot] @ key @ [quot] @ '': '' @ v"

definition string_value :: "string \<Rightarrow> string" where
  "string_value s = [quot] @ json_escape s @ [quot]"

abbreviation store_schema :: nat where "store_schema \<equiv> 3"
abbreviation store_schema_m1 :: nat where "store_schema_m1 \<equiv> 2"

record marker =
  mk_schema :: int
  mk_store_id :: string
  mk_store_path :: string
  mk_name :: string
  mk_world :: nat
  mk_snapshot :: nat
  mk_parent :: nat
  mk_created :: int

definition marker_text :: "marker \<Rightarrow> string" where
  "marker_text m = ''{'' @ pair_text ''schema'' (dec store_schema) @ '','' @ pair_text ''store'' (string_value (mk_store_id m)) @
     '','' @ pair_text ''store_path'' (string_value (mk_store_path m)) @ '','' @ pair_text ''world'' (dec (mk_world m)) @
     '','' @ pair_text ''name'' (string_value (mk_name m)) @ '','' @ pair_text ''snapshot'' (dec (mk_snapshot m)) @
     '','' @ pair_text ''parent'' (dec (mk_parent m)) @ '','' @ pair_text ''created_at'' (signed_dec (mk_created m)) @
     line_end @ ''}'' @ line_end"

section \<open>Walking the text\<close>

definition json_ws :: "char \<Rightarrow> bool" where
  "json_ws c \<longleftrightarrow> c = CHR '' '' \<or> c = CHR 0x09 \<or> c = CHR 0x0A \<or> c = CHR 0x0D"

definition skip_ws :: "string \<Rightarrow> string" where
  "skip_ws p = dropWhile json_ws p"

fun skip_string_body :: "string \<Rightarrow> string option" where
  "skip_string_body [] = None"
| "skip_string_body (c # s) =
     (if c = quot then Some s
      else if c = bslash then (case s of [] \<Rightarrow> None | _ # s' \<Rightarrow> skip_string_body s')
      else skip_string_body s)"

definition json_skip_string :: "string \<Rightarrow> string option" where
  "json_skip_string p = (case p of [] \<Rightarrow> None | c # s \<Rightarrow> if c = quot then skip_string_body s else None)"

lemma skip_string_body_shorter: "skip_string_body s = Some r \<Longrightarrow> length r < length s"
  by (induction s rule: skip_string_body.induct) (auto split: if_splits list.splits)

lemma json_skip_string_shorter: "json_skip_string p = Some r \<Longrightarrow> length r < length p"
  by (auto simp: json_skip_string_def split: list.splits if_splits dest!: skip_string_body_shorter)

text \<open>Objects and arrays are stepped over by depth.\<close>

function skip_nested :: "nat \<Rightarrow> string \<Rightarrow> string option" where
  "skip_nested depth p = (case p of
       [] \<Rightarrow> None
     | c # s \<Rightarrow>
         if c = quot then (case json_skip_string p of None \<Rightarrow> None | Some q \<Rightarrow> skip_nested depth q)
         else if c = CHR ''{'' \<or> c = CHR ''['' then skip_nested (depth + 1) s
         else if c = CHR ''}'' \<or> c = CHR '']'' then if depth = 1 then Some s else skip_nested (depth - 1) s
         else skip_nested depth s)"
  by pat_completeness auto
termination
  by (relation "measure (length \<circ> snd)") (auto dest: json_skip_string_shorter)

declare skip_nested.simps [simp del]

definition plain_value :: "char \<Rightarrow> bool" where
  "plain_value c \<longleftrightarrow> c \<noteq> CHR '','' \<and> c \<noteq> CHR ''}'' \<and> c \<noteq> CHR '']'' \<and> \<not> json_ws c"

definition json_skip_value :: "string \<Rightarrow> string option" where
  "json_skip_value p = (case p of
       [] \<Rightarrow> Some []
     | c # s \<Rightarrow> if c = quot then json_skip_string p
         else if c = CHR ''{'' \<or> c = CHR ''['' then skip_nested 0 p
         else Some (dropWhile plain_value p))"

text \<open>The loop of \<open>json_find\<close> from the start of a pair on.\<close>

lemma skip_ws_length: "length (skip_ws p) \<le> length p"
  by (simp add: skip_ws_def length_dropWhile_le)

lemma skip_nested_shorter: "skip_nested depth p = Some r \<Longrightarrow> length r < length p"
proof (induction p arbitrary: depth rule: length_induct)
  case (1 p)
  show ?case
  proof (cases p)
    case Nil
    with 1 show ?thesis by (simp add: skip_nested.simps)
  next
    case (Cons c s)
    have step: "length r < length p" if "skip_nested d q = Some r" "length q < length p" for d q
    proof -
      have "length r < length q" using 1(1) that by blast
      with that(2) show ?thesis by simp
    qed
    have body: "Some r = (if c = quot then (case json_skip_string p of None \<Rightarrow> None | Some q \<Rightarrow> skip_nested depth q)
         else if c = CHR ''{'' \<or> c = CHR ''['' then skip_nested (depth + 1) s
         else if c = CHR ''}'' \<or> c = CHR '']'' then if depth = 1 then Some s else skip_nested (depth - 1) s
         else skip_nested depth s)"
      using 1(2) Cons by (subst (asm) skip_nested.simps) simp
    show ?thesis
    proof (cases "c = quot")
      case True
      with body obtain q where "json_skip_string p = Some q" "skip_nested depth q = Some r"
        by (auto split: option.splits)
      then show ?thesis using step json_skip_string_shorter by blast
    next
      case False
      with body have "r = s \<or> (\<exists>d. skip_nested d s = Some r)" by (metis option.inject)
      then show ?thesis using step Cons by auto
    qed
  qed
qed

lemma json_skip_value_length: "json_skip_value p = Some r \<Longrightarrow> length r \<le> length p"
  by (auto simp: json_skip_value_def length_dropWhile_le split: list.splits if_splits
      dest!: json_skip_string_shorter skip_nested_shorter intro: le_trans [OF length_dropWhile_le])

function find_pair :: "string \<Rightarrow> string \<Rightarrow> string option" where
  "find_pair key p =
     (let p = skip_ws p in
      if p = [] \<or> hd p \<noteq> quot then None
      else case json_skip_string p of None \<Rightarrow> None | Some after \<Rightarrow>
        let k = take (length p - length after - 2) (tl p); q = skip_ws after in
        if q = [] \<or> hd q \<noteq> CHR '':'' then None
        else let v = skip_ws (tl q) in
          if k = key then Some v
          else case json_skip_value v of None \<Rightarrow> None | Some r \<Rightarrow>
            let r = skip_ws r in
            if r = [] \<or> hd r \<noteq> CHR '','' then None else find_pair key (tl r))"
  by pat_completeness auto
termination
proof (relation "measure (length \<circ> snd)", goal_cases)
  case (2 key p a after b q v r c)
  have "length after < length a" "length r \<le> length v"
    using 2 by (auto dest: json_skip_string_shorter json_skip_value_length)
  moreover have "length a \<le> length p" "length q \<le> length after" "length v \<le> length (tl q)" "length c \<le> length r"
    using 2 by (simp_all only: skip_ws_length)
  moreover have "length (tl c) \<le> length c" "length (tl q) \<le> length q" by simp_all
  ultimately show ?case unfolding in_measure comp_def snd_conv by linarith
qed simp

declare find_pair.simps [simp del]

definition json_find :: "string \<Rightarrow> string \<Rightarrow> string option" where
  "json_find js key = (let p = skip_ws js in if p = [] \<or> hd p \<noteq> CHR ''{'' then None else find_pair key (tl p))"

section \<open>Reading\<close>

text \<open>The bytes of a string value and whether its closing quote was found.\<close>

fun string_bytes :: "string \<Rightarrow> string \<times> bool" where
  "string_bytes [] = ([], False)"
| "string_bytes (c # s) =
     (if c = quot then ([], True)
      else if c = bslash \<and> s \<noteq> [] then (case string_bytes (tl s) of (v, ok) \<Rightarrow> (hd s # v, ok))
      else (case string_bytes s of (v, ok) \<Rightarrow> (c # v, ok)))"

text \<open>What \<open>json_str\<close> leaves in a buffer of \<open>cap\<close> bytes that was empty, and its result.\<close>

definition json_str_value :: "string \<Rightarrow> string \<Rightarrow> nat \<Rightarrow> string \<times> bool" where
  "json_str_value js key cap = (case json_find js key of None \<Rightarrow> ([], False) | Some p \<Rightarrow>
     if p = [] \<or> hd p \<noteq> quot then ([], False)
     else case string_bytes (tl p) of (v, ok) \<Rightarrow> (take (cap - 1) v, ok))"

definition decimal :: "char \<Rightarrow> bool" where
  "decimal c = is_digit 10 c"

text \<open>\<^verbatim>\<open>strtoull\<close> on a text that starts with a digit: the longest run of digits, saturating.\<close>

definition strtoull :: "string \<Rightarrow> nat" where
  "strtoull p = min (digits_value 10 (takeWhile decimal p)) (2 ^ 64 - 1)"

definition json_u64 :: "string \<Rightarrow> string \<Rightarrow> nat option" where
  "json_u64 js key = (case json_find js key of None \<Rightarrow> None | Some p \<Rightarrow>
     if p = [] \<or> \<not> decimal (hd p) then None else Some (strtoull p))"

abbreviation not_a_world :: int where "not_a_world \<equiv> - 1003"
abbreviation bad_schema :: int where "bad_schema \<equiv> - 1006"

definition or_zero :: "nat option \<Rightarrow> nat" where
  "or_zero v = (case v of None \<Rightarrow> 0 | Some n \<Rightarrow> n)"

text \<open>\<open>marker_parse_fd\<close> on the bytes of the file: one read of at most 4095 bytes.\<close>

definition marker_parse :: "bytes \<Rightarrow> int + marker" where
  "marker_parse file =
     (if file = [] then Inl not_a_world
      else let js = takeWhile (\<lambda>c. c \<noteq> CHR 0x00) (take 4095 file);
               num = (\<lambda>key. or_zero (json_u64 js key));
               m = \<lparr>mk_schema = sint (of_nat (num ''schema'') :: 32 word), mk_store_id = fst (json_str_value js ''store'' 40),
                    mk_store_path = fst (json_str_value js ''store_path'' 1024), mk_name = fst (json_str_value js ''name'' 128),
                    mk_world = num ''world'', mk_snapshot = num ''snapshot'', mk_parent = num ''parent'',
                    mk_created = sint (of_nat (num ''created_at'') :: 64 word)\<rparr> in
        if mk_schema m < int store_schema_m1 \<or> int store_schema < mk_schema m then Inl bad_schema else Inr m)"

end
