(* ===== verification/Hardlink_Manifest.thy ===== *)
theory Hardlink_Manifest
  imports Text_Format
begin

text \<open>
  The hardlink section of a snapshot manifest (\<^verbatim>\<open>core/src/hardlinks.cpp\<close>): one header line with the
  counts, and one line per name with the number of its group, its link count and its escaped
  path. The reader ignores the other lines of the manifest and refuses a section that does not
  match its header.
\<close>

section \<open>Sets of groups\<close>

record hl_group =
  hg_nlink :: nat
  hg_paths :: "string list"

record hl_set =
  hs_groups :: "hl_group list"
  hs_names :: nat
  hs_external_groups :: nat
  hs_external_names :: nat
  hs_header_groups :: nat
  hs_header_names :: nat
  hs_header_seen :: bool

definition no_links :: hl_set where
  "no_links = \<lparr>hs_groups = [], hs_names = 0, hs_external_groups = 0, hs_external_names = 0, hs_header_groups = 0,
     hs_header_names = 0, hs_header_seen = False\<rparr>"

section \<open>Paths\<close>

abbreviation backslash :: char where "backslash \<equiv> CHR 0x5C"
abbreviation lf :: char where "lf \<equiv> CHR 0x0A"
abbreviation cr :: char where "cr \<equiv> CHR 0x0D"

definition escaped :: "string \<Rightarrow> string" where
  "escaped s = concat (map (\<lambda>c. if c = backslash then [backslash, backslash] else if c = lf then [backslash, CHR ''n'']
     else if c = cr then [backslash, CHR ''r''] else [c]) s)"

fun unescape :: "string \<Rightarrow> string" where
  "unescape (c # d # s) =
     (if c = backslash then (if d = CHR ''n'' then lf else if d = CHR ''r'' then cr else d) # unescape s
      else c # unescape (d # s))"
| "unescape s = s"

definition manifest_path_sane :: "string \<Rightarrow> bool" where
  "manifest_path_sane p \<longleftrightarrow> p \<noteq> [] \<and> list_all (\<lambda>name. name \<noteq> [] \<and> name \<noteq> ''.'' \<and> name \<noteq> ''..'') (split_on (CHR ''/'') p)"

section \<open>Writing\<close>

definition member_line :: "nat \<Rightarrow> nat \<Rightarrow> string \<Rightarrow> string" where
  "member_line g nlink path = ''hl '' @ dec g @ '' '' @ dec nlink @ '' '' @ escaped path @ [lf]"

definition group_lines :: "nat \<Rightarrow> hl_group \<Rightarrow> string" where
  "group_lines g grp = concat (map (member_line g (hg_nlink grp)) (hg_paths grp))"

definition header_line :: "hl_set \<Rightarrow> string" where
  "header_line hl = ''#hl 1 '' @ dec (length (hs_groups hl)) @ '' '' @ dec (hs_names hl) @ '' '' @
     dec (hs_external_groups hl) @ '' '' @ dec (hs_external_names hl) @ [lf]"

definition hardlinks_manifest_write :: "hl_set \<Rightarrow> string" where
  "hardlinks_manifest_write hl =
     (if hs_groups hl = [] \<and> hs_external_groups hl = 0 then []
      else header_line hl @ concat (map (\<lambda>(g, grp). group_lines g grp) (enumerate 0 (hs_groups hl))))"

section \<open>Scanning\<close>

text \<open>\<^verbatim>\<open>fgets\<close> with a buffer of 8192 bytes: up to 8191 bytes, through the first newline.\<close>

fun line_prefix :: "nat \<Rightarrow> string \<Rightarrow> string" where
  "line_prefix 0 s = []"
| "line_prefix (Suc n) [] = []"
| "line_prefix (Suc n) (c # s) = (if c = lf then [c] else c # line_prefix n s)"

definition c_string :: "string \<Rightarrow> string" where
  "c_string s = takeWhile (\<lambda>c. c \<noteq> CHR 0x00) s"

definition space_char :: "char \<Rightarrow> bool" where
  "space_char c \<longleftrightarrow> c = CHR '' '' \<or> 9 \<le> (of_char c :: nat) \<and> of_char c \<le> (13 :: nat)"

text \<open>The conversion \<^verbatim>\<open>%llu\<close>: white space, an optional sign, digits.\<close>

definition scan_u64 :: "string \<Rightarrow> (nat \<times> string) option" where
  "scan_u64 s =
     (let s = dropWhile space_char s; negative = (s \<noteq> [] \<and> hd s = CHR ''-'');
          s = (if s \<noteq> [] \<and> (hd s = CHR ''-'' \<or> hd s = CHR ''+'') then tl s else s);
          ds = takeWhile (is_digit 10) s; n = min (digits_value 10 ds) (2 ^ 64 - 1) in
      if ds = [] then None
      else Some (if negative \<and> n \<noteq> 0 \<and> digits_value 10 ds < 2 ^ 64 then 2 ^ 64 - n else n, drop (length ds) s))"

primrec scan_numbers :: "nat \<Rightarrow> string \<Rightarrow> (nat list \<times> string) option" where
  "scan_numbers 0 s = Some ([], s)"
| "scan_numbers (Suc k) s = (case scan_u64 s of None \<Rightarrow> None
     | Some (n, s) \<Rightarrow> map_option (\<lambda>(ns, s). (n # ns, s)) (scan_numbers k s))"

section \<open>Reading\<close>

record hl_reader =
  rd_set :: hl_set
  rd_current :: "nat option"
  rd_bad :: bool

definition read_header :: "string \<Rightarrow> hl_set \<Rightarrow> hl_set" where
  "read_header line hl = (case scan_numbers 5 (drop 3 line) of
       Some ([ver, gs, ns, eg, en], _) \<Rightarrow> hl\<lparr>hs_external_groups := eg, hs_external_names := en, hs_header_groups := gs,
         hs_header_names := ns, hs_header_seen := True\<rparr>
     | _ \<Rightarrow> hl)"

definition add_member :: "nat \<Rightarrow> nat \<Rightarrow> string \<Rightarrow> hl_reader \<Rightarrow> hl_reader" where
  "add_member gid nlink path r =
     (let hl = rd_set r;
          groups = (if rd_current r \<noteq> Some gid \<or> hs_groups hl = [] then hs_groups hl @ [\<lparr>hg_nlink = nlink, hg_paths = []\<rparr>]
                    else hs_groups hl);
          g = last groups in
      r\<lparr>rd_set := hl\<lparr>hs_groups := butlast groups @ [g\<lparr>hg_paths := hg_paths g @ [path]\<rparr>], hs_names := hs_names hl + 1\<rparr>,
        rd_current := (if rd_current r \<noteq> Some gid \<or> hs_groups hl = [] then Some gid else rd_current r)\<rparr>)"

definition read_line :: "string \<Rightarrow> hl_reader \<Rightarrow> hl_reader" where
  "read_line line r =
     (if take 3 line \<noteq> ''hl '' then
        if take 3 line = ''#hl'' then r\<lparr>rd_set := read_header line (rd_set r)\<rparr> else r
      else
        let line = (if last line = lf then butlast line else line) in
        case scan_numbers 2 (drop 2 line) of
          Some ([gid, nlink], sep) \<Rightarrow>
            if sep = [] \<or> hd sep \<noteq> CHR '' '' \<or> tl sep = [] then r
            else let path = unescape (tl sep) in
              if manifest_path_sane path then add_member gid nlink path r else r\<lparr>rd_bad := True\<rparr>
        | _ \<Rightarrow> r)"

function read_lines :: "string \<Rightarrow> hl_reader \<Rightarrow> hl_reader" where
  "read_lines s r = (if s = [] \<or> rd_bad r then r
     else let line = line_prefix 8191 s in read_lines (drop (length line) s) (read_line (c_string line) r))"
  by pat_completeness auto
termination
proof (relation "measure (length \<circ> fst)", goal_cases)
  case (2 s r line)
  have "line_prefix 8191 s \<noteq> []"
    using 2 by (cases s) (simp_all add: eval_nat_numeral)
  then show ?case using 2 by (cases s) auto
qed simp

declare read_lines.simps [simp del]

abbreviation e_inval :: int where "e_inval \<equiv> - 22"

definition hardlinks_manifest_read :: "bytes \<Rightarrow> int + hl_set" where
  "hardlinks_manifest_read file =
     (let r = read_lines file \<lparr>rd_set = no_links, rd_current = None, rd_bad = False\<rparr>; hl = rd_set r; groups = hs_groups hl in
      if rd_bad r then Inl e_inval
      else if \<not> hs_header_seen hl then (if groups \<noteq> [] \<or> hs_names hl \<noteq> 0 then Inl e_inval else Inr hl)
      else if length groups \<noteq> hs_header_groups hl \<or> hs_names hl \<noteq> hs_header_names hl then Inl e_inval
      else if \<not> list_all (\<lambda>g. 2 \<le> length (hg_paths g) \<and> length (hg_paths g) = hg_nlink g) groups then Inl e_inval
      else if \<not> distinct (concat (map hg_paths groups)) then Inl e_inval
      else Inr hl)"

end
