(* ===== verification/Spec2Isabelle.thy ===== *)
theory Spec2Isabelle
  imports Level_Store_Props Namespace_View_Props File_Journal_Props Garbage_Props Compaction_Props Anchors Command_Line
    Exec_Guard Sha256 Cli_Json World_Marker Hardlink_Manifest
begin

text \<open>
  Verification of forkfs: the daemon's repository store and filesystem.
\<close>

end
